(* ===== verification/JS_Number.thy ===== *)
theory JS_Number
  imports Prelude "HOL-Library.Log_Nat"
begin

text \<open>
  The Number type of JavaScript: IEEE 754 double precision, rounding to nearest with ties
  to even.  A finite number is the rational it denotes, so every arithmetic operation is
  the exact one followed by \<open>fl\<close>, the rounding to a double.  The sign of a zero is not
  represented: the modelled code observes it nowhere.
\<close>

section \<open>Rounding to a double\<close>

text \<open>The binary exponent of a positive rational: \<open>2\<^sup>e \<le> q < 2\<^sup>e\<^sup>+\<^sup>1\<close>.\<close>

definition ilog2 :: "rat \<Rightarrow> int" where
  "ilog2 q = (case quotient_of q of (a, b) \<Rightarrow>
     let e = bitlen a - bitlen b in if pow2 e \<le> q then e else e - 1)"

text \<open>The exponent of the last place: 53 significant bits, and no place below \<open>2\<^sup>-\<^sup>1\<^sup>0\<^sup>7\<^sup>4\<close>.\<close>

definition expo :: "rat \<Rightarrow> int" where
  "expo q = max (ilog2 q - 52) (- 1074)"

text \<open>The nearest integer, ties to even.\<close>

definition rne :: "rat \<Rightarrow> int" where
  "rne q = (let f = \<lfloor>q\<rfloor>; d = q - of_int f in
     if d < 1 / 2 then f else if d > 1 / 2 then f + 1
     else if even f then f else f + 1)"

definition rnd :: "rat \<Rightarrow> rat" where
  "rnd q = (if q = 0 then 0
     else let s = pow2 (expo \<bar>q\<bar>) in of_int (rne (q / s)) * s)"

datatype jsnum = NaN | PInf | NInf | Fin rat

definition fl :: "rat \<Rightarrow> jsnum" where
  "fl q = (let r = rnd q in
     if 2 ^ 1024 \<le> r then PInf else if r \<le> - (2 ^ 1024) then NInf else Fin r)"

section \<open>Facts about rounding\<close>

lemma bitlen_rat_bounds:
  assumes "0 < a"
  shows "pow2 (bitlen a - 1) \<le> of_int a" and "of_int a < pow2 (bitlen a)"
proof -
  have b: "1 \<le> bitlen a"
    using assms bitlen_eq_zero_iff [of a] bitlen_nonneg [of a] by linarith
  have "2 ^ nat (bitlen a - 1) \<le> a" and "a < 2 ^ nat (bitlen a)"
    using bitlen_bounds [OF assms] by auto
  then have "(of_int (2 ^ nat (bitlen a - 1)) :: rat) \<le> of_int a"
    and "(of_int a :: rat) < of_int (2 ^ nat (bitlen a))"
    by (simp_all only: of_int_le_iff of_int_less_iff)
  then show "pow2 (bitlen a - 1) \<le> of_int a" and "of_int a < pow2 (bitlen a)"
    using b by (simp_all add: pow2_int)
qed

lemma ilog2_bounds:
  assumes "0 < q"
  shows "pow2 (ilog2 q) \<le> q" and "q < pow2 (ilog2 q + 1)"
proof -
  obtain a b where ab: "quotient_of q = (a, b)" by force
  have b: "0 < b" using ab by (rule quotient_of_denom_pos)
  have q: "q = of_int a / of_int b" using ab by (rule quotient_of_div)
  have a: "0 < a" using assms b by (simp add: q zero_less_divide_iff)
  let ?e = "bitlen a - bitlen b"
  have "q < pow2 (bitlen a) / pow2 (bitlen b - 1)"
    unfolding q using bitlen_rat_bounds [OF a] bitlen_rat_bounds [OF b] a b
    by (intro frac_less) auto
  also have "\<dots> = pow2 (?e + 1)"
    by (simp add: pow2_diff [symmetric] algebra_simps)
  finally have up: "q < pow2 (?e + 1)" .
  have "pow2 (?e - 1) = pow2 (bitlen a - 1) / pow2 (bitlen b)"
    by (simp add: pow2_diff [symmetric] algebra_simps)
  also have "\<dots> \<le> q"
    unfolding q using bitlen_rat_bounds [OF a] bitlen_rat_bounds [OF b] a b
    by (intro frac_le) auto
  finally have lo: "pow2 (?e - 1) \<le> q" .
  show "pow2 (ilog2 q) \<le> q" and "q < pow2 (ilog2 q + 1)"
    using up lo by (auto simp: ilog2_def ab Let_def not_le)
qed

lemma ilog2_mono: "0 < p \<Longrightarrow> p \<le> q \<Longrightarrow> ilog2 p \<le> ilog2 q"
proof -
  assume "0 < p" "p \<le> q"
  then have "pow2 (ilog2 p) < pow2 (ilog2 q + 1)"
    using ilog2_bounds(1) [of p] ilog2_bounds(2) [of q] by linarith
  then show ?thesis by simp
qed

lemma ilog2_ge: "0 < q \<Longrightarrow> pow2 e \<le> q \<Longrightarrow> e \<le> ilog2 q"
proof -
  assume "0 < q" "pow2 e \<le> q"
  then have "pow2 e < pow2 (ilog2 q + 1)"
    using ilog2_bounds(2) [of q] by linarith
  then show ?thesis by simp
qed

lemma ilog2_le: "0 < q \<Longrightarrow> q < pow2 (e + 1) \<Longrightarrow> ilog2 q \<le> e"
proof -
  assume "0 < q" "q < pow2 (e + 1)"
  then have "pow2 (ilog2 q) < pow2 (e + 1)"
    using ilog2_bounds(1) [of q] by linarith
  then show ?thesis by simp
qed

lemma expo_mono: "0 < p \<Longrightarrow> p \<le> q \<Longrightarrow> expo p \<le> expo q"
  using ilog2_mono [of p q] by (auto simp: expo_def)

lemma expo_ge: "- 1074 \<le> expo q"
  by (simp add: expo_def)

lemma rne_of_int [simp]: "rne (of_int z) = z"
  by (simp add: rne_def)

lemma rne_error: "\<bar>of_int (rne q) - q\<bar> \<le> 1 / 2"
proof -
  have "of_int \<lfloor>q\<rfloor> \<le> q" "q < of_int \<lfloor>q\<rfloor> + 1" by linarith+
  then show ?thesis by (auto simp: rne_def Let_def)
qed

lemma rne_mono: "p \<le> q \<Longrightarrow> rne p \<le> rne q"
proof -
  assume le: "p \<le> q"
  then have f: "\<lfloor>p\<rfloor> \<le> \<lfloor>q\<rfloor>" by (rule floor_mono)
  show ?thesis
  proof (cases "\<lfloor>p\<rfloor> = \<lfloor>q\<rfloor>")
    case True
    then show ?thesis using le by (auto simp: rne_def Let_def)
  next
    case False
    with f have "\<lfloor>p\<rfloor> + 1 \<le> \<lfloor>q\<rfloor>" by simp
    then show ?thesis by (auto simp: rne_def Let_def)
  qed
qed

lemma rne_minus: "rne (- q) = - rne q"
proof (cases "q = of_int \<lfloor>q\<rfloor>")
  case True
  then show ?thesis by (metis of_int_minus rne_of_int)
next
  case False
  then have c: "\<lfloor>- q\<rfloor> = - \<lfloor>q\<rfloor> - 1"
    by linarith
  show ?thesis using False by (auto simp: rne_def Let_def c)
qed

lemma rne_le_int: "q \<le> of_int z \<Longrightarrow> rne q \<le> z"
  using rne_mono [of q "of_int z"] by simp

lemma rne_ge_int: "of_int z \<le> q \<Longrightarrow> z \<le> rne q"
  using rne_mono [of "of_int z" q] by simp

lemma rnd_0 [simp]: "rnd 0 = 0"
  by (simp add: rnd_def)

lemma rnd_minus: "rnd (- q) = - rnd q"
proof -
  have "- q / pow2 (expo \<bar>q\<bar>) = - (q / pow2 (expo \<bar>q\<bar>))" by simp
  then show ?thesis by (simp add: rnd_def Let_def rne_minus)
qed

lemma scaled_less: "0 < q \<Longrightarrow> q / pow2 (expo q) < 2 ^ 53"
proof -
  assume q: "0 < q"
  have "q < pow2 (ilog2 q + 1)" by (rule ilog2_bounds(2) [OF q])
  also have "\<dots> \<le> pow2 (expo q + 53)" by (simp add: expo_def)
  also have "\<dots> = 2 ^ 53 * pow2 (expo q)" by (simp add: pow2_add)
  finally show ?thesis by (simp add: field_simps)
qed

lemma rnd_pos_le: "0 < q \<Longrightarrow> rnd q \<le> pow2 (expo q + 53)"
proof -
  assume q: "0 < q"
  have "q / pow2 (expo q) \<le> of_int (2 ^ 53)"
    using scaled_less [OF q] by simp
  then have "rne (q / pow2 (expo q)) \<le> 2 ^ 53" by (rule rne_le_int)
  then have "(of_int (rne (q / pow2 (expo q))) :: rat) \<le> 2 ^ 53"
    by (metis of_int_le_iff of_int_numeral of_int_power)
  then show ?thesis using q
    by (simp add: rnd_def Let_def pow2_add mult.commute)
qed

lemma rnd_pos_ge: "0 < q \<Longrightarrow> - 1074 < expo q \<Longrightarrow> pow2 (expo q + 52) \<le> rnd q"
proof -
  assume q: "0 < q" and e: "- 1074 < expo q"
  then have i: "ilog2 q = expo q + 52" by (simp add: expo_def)
  have "pow2 (expo q + 52) \<le> q" using ilog2_bounds(1) [OF q] i by simp
  then have "of_int (2 ^ 52) \<le> q / pow2 (expo q)"
    by (simp add: field_simps pow2_add)
  then have "2 ^ 52 \<le> rne (q / pow2 (expo q))" by (rule rne_ge_int)
  then have "(2 :: rat) ^ 52 \<le> of_int (rne (q / pow2 (expo q)))"
    by (metis of_int_le_iff of_int_numeral of_int_power)
  then show ?thesis using q
    by (simp add: rnd_def Let_def pow2_add mult.commute)
qed

lemma rnd_nonneg: "0 \<le> q \<Longrightarrow> 0 \<le> rnd q"
proof -
  assume "0 \<le> q"
  then have "of_int 0 \<le> q / pow2 (expo \<bar>q\<bar>)" by simp
  then have "0 \<le> rne (q / pow2 (expo \<bar>q\<bar>))" by (rule rne_ge_int)
  then show ?thesis by (simp add: rnd_def Let_def)
qed

lemma rnd_mono_pos:
  assumes "0 < p" and "p \<le> q"
  shows "rnd p \<le> rnd q"
proof (cases "expo p = expo q")
  case True
  have "p / pow2 (expo q) \<le> q / pow2 (expo q)"
    using assms(2) by (simp add: divide_right_mono)
  then have "rne (p / pow2 (expo q)) \<le> rne (q / pow2 (expo q))" by (rule rne_mono)
  then show ?thesis using assms True
    by (simp add: rnd_def Let_def mult_right_mono)
next
  case False
  with expo_mono [OF assms] have lt: "expo p < expo q" by simp
  have q: "0 < q" using assms by simp
  have "rnd p \<le> pow2 (expo p + 53)" by (rule rnd_pos_le [OF assms(1)])
  also have "\<dots> \<le> pow2 (expo q + 52)" using lt by simp
  also have "\<dots> \<le> rnd q"
    using lt expo_ge [of p] by (intro rnd_pos_ge [OF q]) simp
  finally show ?thesis .
qed

theorem rnd_mono: "p \<le> q \<Longrightarrow> rnd p \<le> rnd q"
proof -
  assume le: "p \<le> q"
  consider "0 < p" | "p \<le> 0" "0 \<le> q" | "q < 0" using le by linarith
  then show ?thesis
  proof cases
    case 1
    then show ?thesis using le by (rule rnd_mono_pos)
  next
    case 2
    have "rnd p \<le> 0" using rnd_nonneg [of "- p"] 2(1) by (simp add: rnd_minus)
    also have "0 \<le> rnd q" using rnd_nonneg [OF 2(2)] .
    finally show ?thesis .
  next
    case 3
    then have "rnd (- q) \<le> rnd (- p)" using le by (intro rnd_mono_pos) auto
    then show ?thesis by (simp add: rnd_minus)
  qed
qed

lemma rnd_error: "q \<noteq> 0 \<Longrightarrow> \<bar>rnd q - q\<bar> \<le> pow2 (expo \<bar>q\<bar> - 1)"
proof -
  assume q: "q \<noteq> 0"
  let ?s = "pow2 (expo \<bar>q\<bar>)"
  have "rnd q - q = (of_int (rne (q / ?s)) - q / ?s) * ?s"
    using q by (simp add: rnd_def Let_def left_diff_distrib)
  then have "\<bar>rnd q - q\<bar> = \<bar>of_int (rne (q / ?s)) - q / ?s\<bar> * ?s"
    by (simp add: abs_mult)
  also have "\<dots> \<le> 1 / 2 * ?s"
    by (intro mult_right_mono rne_error) simp
  also have "\<dots> = pow2 (expo \<bar>q\<bar> - 1)" by (simp add: pow2_diff)
  finally show ?thesis .
qed

section \<open>The doubles\<close>

text \<open>The rationals a double can hold: at most 53 significant bits above \<open>2\<^sup>-\<^sup>1\<^sup>0\<^sup>7\<^sup>4\<close>.\<close>

definition representable :: "rat \<Rightarrow> bool" where
  "representable q \<longleftrightarrow>
     (\<exists>m e. q = of_int m * pow2 e \<and> \<bar>m\<bar> \<le> 2 ^ 53 \<and> - 1074 \<le> e)"

lemma representable_of_int: "\<bar>z\<bar> \<le> 2 ^ 53 \<Longrightarrow> representable (of_int z)"
  unfolding representable_def by (intro exI [of _ z] exI [of _ 0]) simp

lemma representable_rnd: "representable (rnd q)"
proof (cases "q = 0")
  case True
  then show ?thesis using representable_of_int [of 0] by simp
next
  case False
  let ?s = "pow2 (expo \<bar>q\<bar>)"
  have "\<bar>q\<bar> / ?s < 2 ^ 53" using False by (intro scaled_less) simp
  moreover have "q / ?s \<le> \<bar>q\<bar> / ?s" and "(- \<bar>q\<bar>) / ?s \<le> q / ?s"
    by (intro divide_right_mono; simp)+
  ultimately have "q / ?s \<le> of_int (2 ^ 53)" and "of_int (- (2 ^ 53)) \<le> q / ?s"
    by simp_all
  then have "\<bar>rne (q / ?s)\<bar> \<le> 2 ^ 53"
    using rne_le_int rne_ge_int by (fastforce simp: abs_le_iff)
  then show ?thesis
    unfolding representable_def using False expo_ge [of "\<bar>q\<bar>"]
    by (intro exI [of _ "rne (q / ?s)"] exI [of _ "expo \<bar>q\<bar>"]) (simp add: rnd_def Let_def)
qed

lemma representable_scaled_int:
  assumes "q = of_int m * pow2 e" and "\<bar>m\<bar> \<le> 2 ^ 53" and "- 1074 \<le> e" and "q \<noteq> 0"
  shows "\<exists>z. q / pow2 (expo \<bar>q\<bar>) = of_int z"
proof (cases "expo \<bar>q\<bar> \<le> e")
  case True
  have "q / pow2 (expo \<bar>q\<bar>) = of_int m * pow2 (e - expo \<bar>q\<bar>)"
    by (simp add: assms(1) pow2_diff)
  also have "\<dots> = of_int (m * 2 ^ nat (e - expo \<bar>q\<bar>))"
    using True by (simp add: pow2_int)
  finally show ?thesis by blast
next
  case False
  then have e: "expo \<bar>q\<bar> = ilog2 \<bar>q\<bar> - 52" using assms(3) by (simp add: expo_def)
  have absq: "\<bar>q\<bar> = of_int \<bar>m\<bar> * pow2 e" by (simp add: assms(1) abs_mult)
  have m53: "(of_int \<bar>m\<bar> :: rat) \<le> 2 ^ 53"
    using assms(2) by (metis of_int_le_iff of_int_numeral of_int_power)
  have "\<bar>q\<bar> \<le> 2 ^ 53 * pow2 e" unfolding absq using m53 by (intro mult_right_mono) auto
  also have "\<dots> < pow2 (e + 53 + 1)" by (simp add: pow2_add)
  finally have "ilog2 \<bar>q\<bar> \<le> e + 53" using assms(4) by (intro ilog2_le) auto
  with e False have ee: "expo \<bar>q\<bar> = e + 1" "ilog2 \<bar>q\<bar> = e + 53" by auto
  have "pow2 (e + 53) \<le> \<bar>q\<bar>" using ilog2_bounds(1) [of "\<bar>q\<bar>"] assms(4) ee by simp
  then have "(2 :: rat) ^ 53 \<le> of_int \<bar>m\<bar>" unfolding absq by (simp add: pow2_add mult.commute)
  with m53 have "(of_int \<bar>m\<bar> :: rat) = of_int (2 ^ 53)" by simp
  then have "\<bar>m\<bar> = 2 ^ 53" by (simp only: of_int_eq_iff)
  then have "m = 2 ^ 52 * 2 \<or> m = - (2 ^ 52) * 2" by (simp add: abs_if split: if_splits)
  then obtain k where "m = k * 2" by blast
  then have "q / pow2 (expo \<bar>q\<bar>) = of_int k" 
    unfolding ee(1) by (simp add: assms(1) pow2_add)
  then show ?thesis by blast
qed

lemma rnd_representable: "representable q \<Longrightarrow> rnd q = q"
proof (cases "q = 0")
  case False
  assume "representable q"
  then obtain z where "q / pow2 (expo \<bar>q\<bar>) = of_int z"
    using representable_scaled_int False unfolding representable_def by blast
  moreover from this have "q = of_int z * pow2 (expo \<bar>q\<bar>)" by (simp add: field_simps)
  ultimately show ?thesis using False by (simp add: rnd_def Let_def)
qed simp

lemma rnd_of_int: "\<bar>z\<bar> \<le> 2 ^ 53 \<Longrightarrow> rnd (of_int z) = of_int z"
  by (intro rnd_representable representable_of_int)

lemma rnd_idem [simp]: "rnd (rnd q) = rnd q"
  by (intro rnd_representable representable_rnd)

lemma rnd_le_repr: "q \<le> r \<Longrightarrow> representable r \<Longrightarrow> rnd q \<le> r"
  using rnd_mono [of q r] by (simp add: rnd_representable)

lemma rnd_ge_repr: "r \<le> q \<Longrightarrow> representable r \<Longrightarrow> r \<le> rnd q"
  using rnd_mono [of r q] by (simp add: rnd_representable)

lemma fl_rnd: "\<bar>rnd q\<bar> < 2 ^ 1024 \<Longrightarrow> fl q = Fin (rnd q)"
  by (auto simp: fl_def Let_def abs_less_iff)

lemma fl_representable: "representable q \<Longrightarrow> \<bar>q\<bar> < 2 ^ 1024 \<Longrightarrow> fl q = Fin q"
  using fl_rnd [of q] by (simp add: rnd_representable)

lemma abs_rnd_le: "\<bar>q\<bar> \<le> r \<Longrightarrow> representable r \<Longrightarrow> \<bar>rnd q\<bar> \<le> r"
  using rnd_le_repr [of q r] rnd_le_repr [of "- q" r] by (simp add: rnd_minus abs_le_iff)

lemma fl_of_int: "\<bar>z\<bar> \<le> 2 ^ 53 \<Longrightarrow> fl (of_int z) = Fin (of_int z)"
proof (rule fl_representable)
  assume z: "\<bar>z\<bar> \<le> 2 ^ 53"
  show "representable (of_int z)" using z by (rule representable_of_int)
  have "\<bar>of_int z :: rat\<bar> = of_int \<bar>z\<bar>" by simp
  also have "\<dots> \<le> of_int (2 ^ 53)" using z by (simp only: of_int_le_iff)
  also have "\<dots> < 2 ^ 1024" by simp
  finally show "\<bar>of_int z :: rat\<bar> < 2 ^ 1024" .
qed

lemma fl_0 [simp]: "fl 0 = Fin 0"
  using fl_of_int [of 0] by simp

lemma fl_1 [simp]: "fl 1 = Fin 1"
  using fl_of_int [of 1] by simp

lemma representable_0 [simp]: "representable 0"
  using representable_of_int [of 0] by simp

lemma representable_numeral: "numeral n \<le> (2 ^ 53 :: int) \<Longrightarrow> representable (numeral n)"
  using representable_of_int [of "numeral n"] by simp

lemma representable_pow2: "- 1074 \<le> e \<Longrightarrow> representable (pow2 e)"
  unfolding representable_def by (intro exI [of _ 1] exI [of _ e]) simp

lemma pow2_nat: "pow2 (int n) = 2 ^ n"
  by (simp add: power_int_def)

lemma representable_dyadic:
  assumes "\<bar>m\<bar> \<le> 2 ^ 53" and "k \<le> 1074"
  shows "representable (of_int m / 2 ^ k)"
proof -
  have "pow2 (- int k) = 1 / 2 ^ k"
    by (simp only: power_int_minus pow2_nat inverse_eq_divide)
  then have "of_int m / 2 ^ k = of_int m * pow2 (- int k)" by simp
  moreover have "- 1074 \<le> - int k" using assms(2) by simp
  ultimately show ?thesis unfolding representable_def using assms(1) by blast
qed

lemma fl_finite: "\<bar>q\<bar> \<le> 2 ^ 1000 \<Longrightarrow> fl q = Fin (rnd q)"
proof (rule fl_rnd)
  assume "\<bar>q\<bar> \<le> 2 ^ 1000"
  then have "\<bar>rnd q\<bar> \<le> 2 ^ 1000"
    using representable_pow2 [of 1000] pow2_nat [of 1000] by (intro abs_rnd_le) simp_all
  also have "(2 ^ 1000 :: rat) < 2 ^ 1024" by (rule power_strict_increasing) simp_all
  finally show "\<bar>rnd q\<bar> < 2 ^ 1024" .
qed

text \<open>A value between two doubles is rounded to a value between them.\<close>

lemma fl_between:
  assumes "a \<le> q" "q \<le> b" "representable a" "representable b" "\<bar>a\<bar> \<le> 2 ^ 1000" "\<bar>b\<bar> \<le> 2 ^ 1000"
  shows "fl q = Fin (rnd q) \<and> a \<le> rnd q \<and> rnd q \<le> b"
proof -
  have "\<bar>q\<bar> \<le> 2 ^ 1000" using assms by linarith
  then show ?thesis using assms by (simp add: fl_finite rnd_ge_repr rnd_le_repr)
qed

text \<open>The error of rounding, absolute for small values and relative for normal ones.\<close>

lemma rnd_close: "\<bar>q\<bar> < 2 ^ 20 \<Longrightarrow> \<bar>rnd q - q\<bar> \<le> 1 / 2 ^ 20"
proof (cases "q = 0")
  case False
  assume q: "\<bar>q\<bar> < 2 ^ 20"
  have "ilog2 \<bar>q\<bar> \<le> 19" using q False by (intro ilog2_le) (simp_all add: power_int_def)
  then have "expo \<bar>q\<bar> - 1 \<le> - 20" by (simp add: expo_def)
  then have "pow2 (expo \<bar>q\<bar> - 1) \<le> pow2 (- 20)" by (simp only: pow2_le_iff)
  also have "pow2 (- 20) = 1 / 2 ^ 20" by (simp add: power_int_def inverse_eq_divide power_one_over)
  finally show ?thesis using rnd_error [OF False] by linarith
qed simp

text \<open>The relative error of rounding a normal value.\<close>

lemma rnd_relative:
  assumes "pow2 (- 1000) \<le> q"
  shows "rnd q \<le> q * (1 + pow2 (- 53))"
proof -
  have q: "0 < q" using assms pow2_pos [of "- 1000"] by linarith
  have "- 1000 \<le> ilog2 q" using ilog2_ge [OF q assms] .
  then have e: "expo q - 1 = ilog2 q + (- 53)" by (simp add: expo_def)
  have "pow2 (expo q - 1) = pow2 (ilog2 q) * pow2 (- 53)" unfolding e by (rule pow2_add)
  also have "\<dots> \<le> q * pow2 (- 53)" using ilog2_bounds(1) [OF q] by (intro mult_right_mono) simp_all
  finally have "\<bar>rnd q - q\<bar> \<le> q * pow2 (- 53)" using rnd_error [of q] q by simp
  then have "rnd q \<le> q + q * pow2 (- 53)" by (simp only: abs_le_iff) linarith
  then show ?thesis by (simp only: distrib_left mult_1_right)
qed

lemma rnd_one_ulp: "rnd (1 + pow2 (- 53)) = 1"
  by code_simp

text \<open>
  A distance within a range, times the rounded inverse of the range, is rounded to a value
  between 0 and 1.
\<close>

lemma scaled_into_unit:
  assumes "0 \<le> d" "d \<le> r" "pow2 (- 901) \<le> r" "r \<le> pow2 901"
  shows "fl (1 / r) = Fin (rnd (1 / r))" "fl (d * rnd (1 / r)) = Fin (rnd (d * rnd (1 / r)))"
    "0 \<le> rnd (d * rnd (1 / r))" "rnd (d * rnd (1 / r)) \<le> 1"
proof -
  have r: "0 < r" using assms(3) pow2_pos [of "- 901"] by linarith
  have inv: "pow2 (- e) = 1 / pow2 e" for e by (simp only: power_int_minus inverse_eq_divide)
  have "pow2 (- 1000) \<le> pow2 (- 901)" by (subst pow2_le_iff) simp
  also have "\<dots> \<le> 1 / r" unfolding inv using assms(4) r by (intro divide_left_mono) simp_all
  finally have lo: "pow2 (- 1000) \<le> 1 / r" .
  have "1 / r \<le> 1 / pow2 (- 901)" using assms(3) r by (intro divide_left_mono) simp_all
  also have "\<dots> = pow2 901" using inv [of "- 901"] by simp
  also have "\<dots> \<le> pow2 1000" by (subst pow2_le_iff) simp
  also have "\<dots> = 2 ^ 1000" using pow2_nat [of 1000] by simp
  finally show "fl (1 / r) = Fin (rnd (1 / r))" using r by (intro fl_finite) simp
  let ?s = "rnd (1 / r)"
  have s: "0 \<le> ?s" "?s \<le> 1 / r * (1 + pow2 (- 53))" using r rnd_nonneg rnd_relative [OF lo] by simp_all
  have "d * ?s \<le> r * (1 / r * (1 + pow2 (- 53)))" using assms(1,2) s by (intro mult_mono) simp_all
  also have "\<dots> = 1 + pow2 (- 53)" using r by simp
  finally have u: "rnd (d * ?s) \<le> 1" using rnd_mono [of "d * ?s" "1 + pow2 (- 53)"] by (simp only: rnd_one_ulp)
  moreover have l: "0 \<le> rnd (d * ?s)" using assms(1) s(1) by (intro rnd_nonneg) simp
  ultimately show "0 \<le> rnd (d * ?s)" "rnd (d * ?s) \<le> 1" by simp_all
  have "\<bar>rnd (d * ?s)\<bar> \<le> 1" using u l by simp
  also have "(1 :: rat) < 2 ^ 1024" by (rule one_less_power) simp_all
  finally show "fl (d * ?s) = Fin (rnd (d * ?s))" by (rule fl_rnd)
qed

section \<open>Arithmetic and comparison\<close>

text \<open>Multiplication and division take the sign of an infinity from both operands.\<close>

definition signed_inf :: "bool \<Rightarrow> jsnum" where
  "signed_inf neg = (if neg then NInf else PInf)"

fun num_neg :: "jsnum \<Rightarrow> jsnum" where
  "num_neg NaN = NaN"
| "num_neg PInf = NInf"
| "num_neg NInf = PInf"
| "num_neg (Fin a) = Fin (- a)"

fun num_add :: "jsnum \<Rightarrow> jsnum \<Rightarrow> jsnum" where
  "num_add (Fin a) (Fin b) = fl (a + b)"
| "num_add NaN _ = NaN"
| "num_add _ NaN = NaN"
| "num_add PInf NInf = NaN"
| "num_add NInf PInf = NaN"
| "num_add PInf _ = PInf"
| "num_add NInf _ = NInf"
| "num_add (Fin _) PInf = PInf"
| "num_add (Fin _) NInf = NInf"

definition num_sub :: "jsnum \<Rightarrow> jsnum \<Rightarrow> jsnum" where
  "num_sub a b = num_add a (num_neg b)"

fun num_mul :: "jsnum \<Rightarrow> jsnum \<Rightarrow> jsnum" where
  "num_mul (Fin a) (Fin b) = fl (a * b)"
| "num_mul NaN _ = NaN"
| "num_mul _ NaN = NaN"
| "num_mul (Fin a) PInf = (if a = 0 then NaN else signed_inf (a < 0))"
| "num_mul (Fin a) NInf = (if a = 0 then NaN else signed_inf (0 < a))"
| "num_mul PInf (Fin b) = (if b = 0 then NaN else signed_inf (b < 0))"
| "num_mul NInf (Fin b) = (if b = 0 then NaN else signed_inf (0 < b))"
| "num_mul PInf PInf = PInf"
| "num_mul NInf NInf = PInf"
| "num_mul PInf NInf = NInf"
| "num_mul NInf PInf = NInf"

fun num_div :: "jsnum \<Rightarrow> jsnum \<Rightarrow> jsnum" where
  "num_div (Fin a) (Fin b) =
     (if b = 0 then (if a = 0 then NaN else signed_inf (a < 0)) else fl (a / b))"
| "num_div NaN _ = NaN"
| "num_div _ NaN = NaN"
| "num_div (Fin _) PInf = Fin 0"
| "num_div (Fin _) NInf = Fin 0"
| "num_div PInf (Fin b) = signed_inf (b < 0)"
| "num_div NInf (Fin b) = signed_inf (0 \<le> b)"
| "num_div PInf PInf = NaN"
| "num_div PInf NInf = NaN"
| "num_div NInf PInf = NaN"
| "num_div NInf NInf = NaN"

text \<open>The integral part, towards zero.\<close>

definition trunc :: "rat \<Rightarrow> int" where
  "trunc q = (if q < 0 then \<lceil>q\<rceil> else \<lfloor>q\<rfloor>)"

fun num_mod :: "jsnum \<Rightarrow> jsnum \<Rightarrow> jsnum" where
  "num_mod (Fin a) (Fin b) =
     (if b = 0 then NaN else Fin (a - b * of_int (trunc (a / b))))"
| "num_mod (Fin a) PInf = Fin a"
| "num_mod (Fin a) NInf = Fin a"
| "num_mod _ _ = NaN"

fun num_lt :: "jsnum \<Rightarrow> jsnum \<Rightarrow> bool" where
  "num_lt (Fin a) (Fin b) = (a < b)"
| "num_lt NInf (Fin _) = True"
| "num_lt NInf PInf = True"
| "num_lt (Fin _) PInf = True"
| "num_lt _ _ = False"

fun num_le :: "jsnum \<Rightarrow> jsnum \<Rightarrow> bool" where
  "num_le (Fin a) (Fin b) = (a \<le> b)"
| "num_le NaN _ = False"
| "num_le _ NaN = False"
| "num_le NInf _ = True"
| "num_le _ PInf = True"
| "num_le _ _ = False"

definition num_eq :: "jsnum \<Rightarrow> jsnum \<Rightarrow> bool" where
  "num_eq a b \<longleftrightarrow> a \<noteq> NaN \<and> a = b"

definition is_finite :: "jsnum \<Rightarrow> bool" where
  "is_finite n \<longleftrightarrow> (case n of Fin _ \<Rightarrow> True | _ \<Rightarrow> False)"

definition num_truthy :: "jsnum \<Rightarrow> bool" where
  "num_truthy n \<longleftrightarrow> n \<noteq> NaN \<and> n \<noteq> Fin 0"

text \<open>The operators of the language as the operators of the logic on this type.\<close>

instantiation jsnum :: "{plus, minus, uminus, times, inverse, ord}"
begin

definition plus_jsnum :: "jsnum \<Rightarrow> jsnum \<Rightarrow> jsnum" where
  "plus_jsnum a b = num_add a b"

definition minus_jsnum :: "jsnum \<Rightarrow> jsnum \<Rightarrow> jsnum" where
  "minus_jsnum a b = num_sub a b"

definition uminus_jsnum :: "jsnum \<Rightarrow> jsnum" where
  "uminus_jsnum a = num_neg a"

definition times_jsnum :: "jsnum \<Rightarrow> jsnum \<Rightarrow> jsnum" where
  "times_jsnum a b = num_mul a b"

definition divide_jsnum :: "jsnum \<Rightarrow> jsnum \<Rightarrow> jsnum" where
  "divide_jsnum a b = num_div a b"

definition inverse_jsnum :: "jsnum \<Rightarrow> jsnum" where
  "inverse_jsnum a = num_div (Fin 1) a"

definition less_jsnum :: "jsnum \<Rightarrow> jsnum \<Rightarrow> bool" where
  "less_jsnum a b = num_lt a b"

definition less_eq_jsnum :: "jsnum \<Rightarrow> jsnum \<Rightarrow> bool" where
  "less_eq_jsnum a b = num_le a b"

instance
  by standard

end

lemma Fin_arith [simp, num_simps]:
  "Fin a + Fin b = fl (a + b)" "Fin a - Fin b = fl (a - b)" "- Fin a = Fin (- a)"
  "Fin a * Fin b = fl (a * b)" "b \<noteq> 0 \<Longrightarrow> Fin a / Fin b = fl (a / b)"
  "Fin a < Fin b \<longleftrightarrow> a < b" "Fin a \<le> Fin b \<longleftrightarrow> a \<le> b"
  by (simp_all add: plus_jsnum_def minus_jsnum_def uminus_jsnum_def times_jsnum_def divide_jsnum_def
      less_jsnum_def less_eq_jsnum_def num_sub_def)

lemmas jsnum_ops = plus_jsnum_def minus_jsnum_def uminus_jsnum_def times_jsnum_def divide_jsnum_def
  less_jsnum_def less_eq_jsnum_def num_sub_def

section \<open>Functions of Math\<close>

definition math_max :: "jsnum \<Rightarrow> jsnum \<Rightarrow> jsnum" where
  "math_max a b = (if a = NaN \<or> b = NaN then NaN else if num_lt a b then b else a)"

definition math_min :: "jsnum \<Rightarrow> jsnum \<Rightarrow> jsnum" where
  "math_min a b = (if a = NaN \<or> b = NaN then NaN else if num_lt b a then b else a)"

definition math_abs :: "jsnum \<Rightarrow> jsnum" where
  "math_abs a = (if num_lt a (Fin 0) then num_neg a else a)"

text \<open>The nearest integer, ties towards positive infinity.\<close>

fun math_round :: "jsnum \<Rightarrow> jsnum" where
  "math_round (Fin q) = Fin (of_int \<lfloor>q + 1 / 2\<rfloor>)"
| "math_round n = n"

fun math_floor :: "jsnum \<Rightarrow> jsnum" where
  "math_floor (Fin q) = Fin (of_int \<lfloor>q\<rfloor>)"
| "math_floor n = n"

text \<open>The double nearest to \<open>\<pi>\<close>.\<close>

definition math_PI :: jsnum where
  "math_PI = Fin (884279719003555 / 281474976710656)"

text \<open>Conversion to a signed 32-bit integer, which the bitwise operators apply first.\<close>

definition wrap32 :: "int \<Rightarrow> int" where
  "wrap32 z = (z + 2 ^ 31) mod 2 ^ 32 - 2 ^ 31"

fun to_int32 :: "jsnum \<Rightarrow> int" where
  "to_int32 (Fin q) = wrap32 (trunc q)"
| "to_int32 _ = 0"

end
