(* ===== verification/JS_String.thy ===== *)
theory JS_String
  imports JS_Number
begin

text \<open>
  The String type of JavaScript and the conversions between numbers and strings.  A string
  is the list of its code units; the code units of the model are the 8-bit ones, so texts
  outside Latin-1 are not represented.  Positions count code units, as in the source.
\<close>

section \<open>Characters\<close>

abbreviation code :: "char \<Rightarrow> nat" where
  "code c \<equiv> of_char c"

definition is_space :: "char \<Rightarrow> bool" where
  "is_space c \<longleftrightarrow> code c \<in> {9, 10, 11, 12, 13, 32, 160}"

definition is_digit :: "char \<Rightarrow> bool" where
  "is_digit c \<longleftrightarrow> 48 \<le> code c \<and> code c \<le> 57"

definition is_upper :: "char \<Rightarrow> bool" where
  "is_upper c \<longleftrightarrow> 65 \<le> code c \<and> code c \<le> 90"

definition is_lower :: "char \<Rightarrow> bool" where
  "is_lower c \<longleftrightarrow> 97 \<le> code c \<and> code c \<le> 122"

text \<open>The class \<^verbatim>\<open>\w\<close> of regular expressions.\<close>

definition is_word :: "char \<Rightarrow> bool" where
  "is_word c \<longleftrightarrow> is_digit c \<or> is_upper c \<or> is_lower c \<or> c = CHR ''_''"

text \<open>
  Case conversion of one code unit, over ASCII and the Latin-1 letters.  The two letters
  whose upper case lies outside Latin-1 (0xB5 and 0xFF) are left as they are.
\<close>

definition upper_char :: "char \<Rightarrow> string" where
  "upper_char c = (if is_lower c \<or> 224 \<le> code c \<and> code c \<le> 254 \<and> code c \<noteq> 247
     then [char_of (code c - 32)] else if code c = 223 then ''SS'' else [c])"

definition lower_char :: "char \<Rightarrow> char" where
  "lower_char c = (if is_upper c \<or> 192 \<le> code c \<and> code c \<le> 222 \<and> code c \<noteq> 215
     then char_of (code c + 32) else c)"

definition toUpperCase :: "string \<Rightarrow> string" where
  "toUpperCase s = concat (map upper_char s)"

definition toLowerCase :: "string \<Rightarrow> string" where
  "toLowerCase s = map lower_char s"

section \<open>Methods of String\<close>

text \<open>\<^verbatim>\<open>s.slice(a, b)\<close> on strings and on arrays: negative positions count from the end.\<close>

definition clip :: "nat \<Rightarrow> int \<Rightarrow> nat" where
  "clip n i = nat (min (int n) (if i < 0 then max 0 (int n + i) else i))"

definition slice :: "'a list \<Rightarrow> int \<Rightarrow> int \<Rightarrow> 'a list" where
  "slice s a b = take (clip (length s) b - clip (length s) a) (drop (clip (length s) a) s)"

text \<open>\<^verbatim>\<open>s.substring(a, b)\<close>: negative positions are 0, and the two are ordered.\<close>

definition substring :: "string \<Rightarrow> int \<Rightarrow> int \<Rightarrow> string" where
  "substring s a b = (let i = min (length s) (nat a); j = min (length s) (nat b)
     in take (max i j - min i j) (drop (min i j) s))"

definition charAt :: "string \<Rightarrow> nat \<Rightarrow> string" where
  "charAt s i = (if i < length s then [s ! i] else [])"

fun starts :: "string \<Rightarrow> string \<Rightarrow> bool" where
  "starts [] s = True"
| "starts (p # ps) [] = False"
| "starts (p # ps) (c # s) = (p = c \<and> starts ps s)"

text \<open>The first position, from \<open>i\<close> on, at which \<open>p\<close> occurs in the rest \<open>s\<close>.\<close>

fun index_from :: "nat \<Rightarrow> string \<Rightarrow> string \<Rightarrow> int" where
  "index_from i p [] = (if p = [] then int i else - 1)"
| "index_from i p (c # s) = (if starts p (c # s) then int i else index_from (Suc i) p s)"

definition indexOf :: "string \<Rightarrow> string \<Rightarrow> int" where
  "indexOf s p = index_from 0 p s"

definition lastIndexOf :: "string \<Rightarrow> string \<Rightarrow> int" where
  "lastIndexOf s p = (if length s < length p then - 1
     else let i = index_from 0 (rev p) (rev s)
          in if i < 0 then - 1 else int (length s) - int (length p) - i)"

text \<open>\<^verbatim>\<open>s.split(sep)\<close> at every occurrence of a one-character separator.\<close>

fun split_chr :: "char \<Rightarrow> string \<Rightarrow> string list" where
  "split_chr sep [] = [[]]"
| "split_chr sep (c # s) = (if c = sep then [] # split_chr sep s
     else (c # hd (split_chr sep s)) # tl (split_chr sep s))"

fun join :: "string \<Rightarrow> string list \<Rightarrow> string" where
  "join sep [] = []"
| "join sep [x] = x"
| "join sep (x # y # xs) = x @ sep @ join sep (y # xs)"

text \<open>\<^verbatim>\<open>s.replace(/c/g, r)\<close> for one character \<open>c\<close> and a text \<open>r\<close> without \<^verbatim>\<open>$\<close>.\<close>

definition replace_chr :: "char \<Rightarrow> string \<Rightarrow> string \<Rightarrow> string" where
  "replace_chr c r s = concat (map (\<lambda>x. if x = c then r else [x]) s)"

text \<open>\<^verbatim>\<open>s.replace(/p/g, r)\<close> for a non-empty literal text \<open>p\<close>.\<close>

fun replace_all :: "string \<Rightarrow> string \<Rightarrow> string \<Rightarrow> string" where
  "replace_all p r [] = []"
| "replace_all p r (c # s) = (if p \<noteq> [] \<and> starts p (c # s)
     then r @ replace_all p r (drop (length p - 1) s) else c # replace_all p r s)"

section \<open>Numbers as text\<close>

definition digit_char :: "int \<Rightarrow> char" where
  "digit_char d = char_of (if d < 10 then 48 + nat d else 87 + nat d)"

text \<open>The digits of a natural number, held as an integer, in base \<open>r\<close>.\<close>

function digits :: "int \<Rightarrow> int \<Rightarrow> string" where
  "digits r n = (if r < 2 \<or> n < r then [digit_char n]
     else digits r (n div r) @ [digit_char (n mod r)])"
  by pat_completeness auto
termination
proof (relation "measure (\<lambda>(r, n). nat n)")
  fix r n :: int
  assume "\<not> (r < 2 \<or> n < r)"
  then have "n div r < n" and "0 < n" by (auto intro: int_div_less_self)
  then show "((r, n div r), r, n) \<in> measure (\<lambda>(r, n). nat n)" by simp
qed simp

declare digits.simps [simp del]

text \<open>The place of the first digit of \<open>q > 0\<close> in base \<open>r\<close>: \<open>r\<^sup>n\<^sup>-\<^sup>1 \<le> q < r\<^sup>n\<close>, by search.\<close>

fun place_up :: "nat \<Rightarrow> int \<Rightarrow> int \<Rightarrow> rat \<Rightarrow> int" where
  "place_up 0 r n q = n"
| "place_up (Suc k) r n q = (if q < of_int r powi n then n else place_up k r (n + 1) q)"

fun place_down :: "nat \<Rightarrow> int \<Rightarrow> int \<Rightarrow> rat \<Rightarrow> int" where
  "place_down 0 r n q = n"
| "place_down (Suc k) r n q = (if of_int r powi (n - 1) \<le> q then n else place_down k r (n - 1) q)"

definition place :: "int \<Rightarrow> rat \<Rightarrow> int" where
  "place r q = (if 1 \<le> q then place_up 1100 r 1 q else place_down 1100 r 0 q)"

text \<open>
  The shortest digits that denote the number: the least \<open>k\<close> for which the \<open>k\<close>-digit
  number nearest to \<open>q\<close> rounds back to it.  A double has at most 1100 digits in any base.
\<close>

definition digits_at :: "int \<Rightarrow> int \<Rightarrow> rat \<Rightarrow> nat \<Rightarrow> int" where
  "digits_at r n q k = \<lfloor>q / of_int r powi (n - int k) + 1 / 2\<rfloor>"

fun shortest :: "nat \<Rightarrow> int \<Rightarrow> int \<Rightarrow> rat \<Rightarrow> nat \<Rightarrow> int \<times> nat" where
  "shortest 0 r n q k = (digits_at r n q k, k)"
| "shortest (Suc f) r n q k =
     (let s = digits_at r n q k in
      if fl (of_int s * of_int r powi (n - int k)) = Fin q then (s, k)
      else shortest f r n q (Suc k))"

text \<open>The digits and the place of the point; a carry to \<open>r\<^sup>k\<close> moves the point.\<close>

definition decimal :: "int \<Rightarrow> rat \<Rightarrow> string \<times> int" where
  "decimal r q = (let n = place r q; (s, k) = shortest 1100 r n q 1 in
     if s = r ^ k then (''1'', n + 1) else (digits r s, n))"

definition zeros :: "nat \<Rightarrow> string" where
  "zeros n = replicate n (CHR ''0'')"

definition layout :: "string \<Rightarrow> int \<Rightarrow> string" where
  "layout ds n = (let k = int (length ds) in
     if k \<le> n \<and> n \<le> 21 then ds @ zeros (nat (n - k))
     else if 0 < n \<and> n \<le> 21 then take (nat n) ds @ ''.'' @ drop (nat n) ds
     else if - 6 < n \<and> n \<le> 0 then ''0.'' @ zeros (nat (- n)) @ ds
     else (if k = 1 then ds else take 1 ds @ ''.'' @ drop 1 ds) @ ''e'' @
       (if 0 < n then ''+'' else ''-'') @ digits 10 \<bar>n - 1\<bar>)"

fun num_to_string :: "jsnum \<Rightarrow> string" where
  "num_to_string NaN = ''NaN''"
| "num_to_string PInf = ''Infinity''"
| "num_to_string NInf = ''-Infinity''"
| "num_to_string (Fin q) = (if q = 0 then ''0'' else
     (if q < 0 then ''-'' else []) @
     (if of_int \<lfloor>q\<rfloor> = q \<and> \<bar>q\<bar> < 2 ^ 53 then digits 10 \<lfloor>\<bar>q\<bar>\<rfloor>
      else case decimal 10 \<bar>q\<bar> of (ds, n) \<Rightarrow> layout ds n))"

text \<open>\<^verbatim>\<open>n.toString(radix)\<close>: the digits of an integer, and positional digits otherwise.\<close>

fun num_to_radix :: "int \<Rightarrow> jsnum \<Rightarrow> string" where
  "num_to_radix r (Fin q) = (if r = 10 then num_to_string (Fin q) else
     (if q < 0 then ''-'' else []) @
     (if of_int \<lfloor>q\<rfloor> = q then digits r \<lfloor>\<bar>q\<bar>\<rfloor>
      else case decimal r \<bar>q\<bar> of (ds, n) \<Rightarrow>
        if int (length ds) \<le> n then ds @ zeros (nat n - length ds)
        else if 0 < n then take (nat n) ds @ ''.'' @ drop (nat n) ds
        else ''0.'' @ zeros (nat (- n)) @ ds))"
| "num_to_radix r n = num_to_string n"

text \<open>\<^verbatim>\<open>n.toFixed(f)\<close>, which throws a RangeError for more than 20 decimals.\<close>

definition fixed_digits :: "nat \<Rightarrow> int \<Rightarrow> string" where
  "fixed_digits f n = (if f = 0 then digits 10 n
     else digits 10 (n div 10 ^ f) @ ''.'' @
       (let d = digits 10 (n mod 10 ^ f) in zeros (f - length d) @ d))"

fun num_toFixed :: "nat \<Rightarrow> jsnum \<Rightarrow> string option" where
  "num_toFixed f n = (if 20 < f then None else Some (case n of
     Fin q \<Rightarrow> (if \<bar>q\<bar> < 10 ^ 21
       then (if q < 0 then ''-'' else []) @ fixed_digits f \<lfloor>\<bar>q\<bar> * 10 ^ f + 1 / 2\<rfloor>
       else num_to_string n)
   | _ \<Rightarrow> num_to_string n))"

section \<open>Text as numbers\<close>

definition digit_val :: "char \<Rightarrow> int" where
  "digit_val c = int (code c) - 48"

definition hex_val :: "char \<Rightarrow> int option" where
  "hex_val c = (if is_digit c then Some (int (code c) - 48)
     else if 97 \<le> code c \<and> code c \<le> 102 then Some (int (code c) - 87)
     else if 65 \<le> code c \<and> code c \<le> 70 then Some (int (code c) - 55) else None)"

fun digits_val :: "int \<Rightarrow> string \<Rightarrow> int" where
  "digits_val acc [] = acc"
| "digits_val acc (c # s) = digits_val (10 * acc + digit_val c) s"

text \<open>An optional sign, and the rest.\<close>

definition read_sign :: "string \<Rightarrow> bool \<times> string" where
  "read_sign s = (case s of [] \<Rightarrow> (False, [])
     | c # t \<Rightarrow> if c = CHR ''-'' then (True, t) else if c = CHR ''+'' then (False, t) else (False, s))"

text \<open>An exponent part, taken only when a digit follows.\<close>

definition parse_exp :: "string \<Rightarrow> int \<times> string" where
  "parse_exp s = (case s of e # t \<Rightarrow>
     (if e = CHR ''e'' \<or> e = CHR ''E'' then
        (let (neg, u) = read_sign t;
             ds = takeWhile is_digit u
         in if ds = [] then (0, s)
            else ((if neg then - digits_val 0 ds else digits_val 0 ds),
                  dropWhile is_digit u))
      else (0, s)) | [] \<Rightarrow> (0, s))"

text \<open>An unsigned decimal literal at the start of the text, with the rest.\<close>

definition parse_decimal :: "string \<Rightarrow> (rat \<times> string) option" where
  "parse_decimal s =
     (let is = takeWhile is_digit s; t = dropWhile is_digit s;
          (fs, u) = (if t \<noteq> [] \<and> hd t = CHR ''.''
                     then (takeWhile is_digit (tl t), dropWhile is_digit (tl t)) else ([], t))
      in if is = [] \<and> fs = [] then None
         else let (e, w) = parse_exp u in
           Some (of_int (digits_val 0 (is @ fs)) * 10 powi (e - int (length fs)), w))"

definition parse_signed :: "string \<Rightarrow> (jsnum \<times> string) option" where
  "parse_signed s =
     (let (neg, t) = read_sign s
      in if starts ''Infinity'' t then Some (if neg then NInf else PInf, drop 8 t)
         else map_option (\<lambda>(q, w). (fl (if neg then - q else q), w)) (parse_decimal t))"

definition parseFloat :: "string \<Rightarrow> jsnum" where
  "parseFloat s = (case parse_signed (dropWhile is_space s) of
     Some (n, _) \<Rightarrow> n | None \<Rightarrow> NaN)"

definition trim_right :: "string \<Rightarrow> string" where
  "trim_right s = rev (dropWhile is_space (rev s))"

text \<open>The hexadecimal digits at the start of a text, most significant first.\<close>

fun hex_prefix :: "string \<Rightarrow> int list" where
  "hex_prefix [] = []"
| "hex_prefix (c # s) = (case hex_val c of Some d \<Rightarrow> d # hex_prefix s | None \<Rightarrow> [])"

definition hex_number :: "int list \<Rightarrow> int" where
  "hex_number ds = foldl (\<lambda>a d. 16 * a + d) 0 ds"

text \<open>\<^verbatim>\<open>parseInt(s, 16)\<close>\<close>

definition parseInt16 :: "string \<Rightarrow> jsnum" where
  "parseInt16 s =
     (let t = dropWhile is_space s;
          (neg, u) = read_sign t;
          w = (if starts ''0x'' u \<or> starts ''0X'' u then drop 2 u else u);
          ds = hex_prefix w
      in if ds = [] then NaN
         else fl (if neg then - of_int (hex_number ds) else of_int (hex_number ds)))"

text \<open>The conversion \<^verbatim>\<open>Number(s)\<close> of a whole text.\<close>

definition string_to_num :: "string \<Rightarrow> jsnum" where
  "string_to_num s =
     (let t = trim_right (dropWhile is_space s) in
      if t = [] then Fin 0
      else if starts ''0x'' t \<or> starts ''0X'' t then
        (let ds = hex_prefix (drop 2 t) in
         if ds = [] \<or> length ds < length t - 2 then NaN else fl (of_int (hex_number ds)))
      else case parse_signed t of Some (n, []) \<Rightarrow> n | _ \<Rightarrow> NaN)"

section \<open>Facts about digits\<close>

lemma code_digit_char:
  "0 \<le> d \<Longrightarrow> d < 36 \<Longrightarrow> code (digit_char d) = (if d < 10 then 48 + nat d else 87 + nat d)"
  by (simp add: digit_char_def)

lemma hex_val_digit_char: "0 \<le> d \<Longrightarrow> d < 16 \<Longrightarrow> hex_val (digit_char d) = Some d"
  by (auto simp: hex_val_def is_digit_def code_digit_char)

lemma digit_char_0: "digit_char 0 = CHR ''0''"
proof -
  have "code (digit_char 0) = code (CHR ''0'')" by (simp add: code_digit_char)
  then show ?thesis by (simp only: of_char_eq_iff)
qed

lemma code_less_256: "code c < 256"
  using of_char_mod_256 [of c, where 'a = nat] by (metis mod_less_divisor zero_less_numeral)

section \<open>Integers as text and back\<close>

lemma is_digit_digit_char: "0 \<le> d \<Longrightarrow> d < 10 \<Longrightarrow> is_digit (digit_char d) \<and> digit_val (digit_char d) = d"
  by (simp add: is_digit_def digit_val_def code_digit_char)

lemma digits_val_append: "digits_val a (s @ t) = digits_val (digits_val a s) t"
  by (induction s arbitrary: a) auto

lemma digits_10:
  "0 \<le> n \<Longrightarrow> digits 10 n \<noteq> [] \<and> list_all is_digit (digits 10 n) \<and> digits_val 0 (digits 10 n) = n"
proof (induction "10::int" n rule: digits.induct)
  case (1 n)
  show ?case
  proof (cases "n < 10")
    case True
    then show ?thesis using 1 is_digit_digit_char [of n] by (simp add: digits.simps)
  next
    case False
    have "digits 10 (n div 10) \<noteq> [] \<and> list_all is_digit (digits 10 (n div 10)) \<and>
        digits_val 0 (digits 10 (n div 10)) = n div 10"
      using 1 False by (intro "1.hyps") (simp_all add: pos_imp_zdiv_nonneg_iff)
    moreover have "digits 10 n = digits 10 (n div 10) @ [digit_char (n mod 10)]"
      using False by (subst digits.simps) simp
    ultimately show ?thesis
      using is_digit_digit_char [of "n mod 10"] by (simp add: digits_val_append)
  qed
qed

lemma parse_decimal_digits:
  "ds \<noteq> [] \<Longrightarrow> list_all is_digit ds \<Longrightarrow> parse_decimal ds = Some (of_int (digits_val 0 ds), [])"
proof -
  assume d: "ds \<noteq> []" "list_all is_digit ds"
  then have w: "takeWhile is_digit ds = ds" "dropWhile is_digit ds = []" by (simp_all add: list_all_iff)
  show ?thesis unfolding parse_decimal_def Let_def w using d(1) by (simp add: parse_exp_def)
qed

lemma digit_not_special:
  "is_digit c \<Longrightarrow> \<not> is_space c \<and> c \<noteq> CHR ''-'' \<and> c \<noteq> CHR ''+'' \<and> c \<noteq> CHR ''I''"
  by (auto simp: is_digit_def is_space_def)

lemma parseFloat_int:
  assumes "\<bar>z\<bar> < 2 ^ 53"
  shows "parseFloat (num_to_string (Fin (of_int z))) = Fin (of_int z)"
proof -
  let ?ds = "digits 10 \<bar>z\<bar>"
  have ds: "?ds \<noteq> []" "list_all is_digit ?ds" "digits_val 0 ?ds = \<bar>z\<bar>" using digits_10 [of "\<bar>z\<bar>"] by simp_all
  obtain c s where c: "?ds = c # s" "is_digit c" using ds(1,2) by (cases ?ds) auto
  have ns: "\<not> is_space c" "c \<noteq> CHR ''-''" "c \<noteq> CHR ''+''" "c \<noteq> CHR ''I''"
    using digit_not_special [OF c(2)] by auto
  have pd: "parse_decimal (c # s) = Some (of_int \<bar>z\<bar>, [])"
    using parse_decimal_digits [OF ds(1,2)] ds(3) by (simp add: c(1))
  have sp: "\<not> is_space (CHR ''-'')" by (simp add: is_space_def)
  have f: "fl (of_int z) = Fin (of_int z)" using assms by (intro fl_of_int) simp
  consider "z = 0" | "0 < z" | "z < 0" by linarith
  then show ?thesis
  proof cases
    case 1
    then show ?thesis by (simp, code_simp)
  next
    case 2
    then have "num_to_string (Fin (of_int z)) = c # s" using assms c(1) by simp
    then show ?thesis using 2 ns pd f by (simp add: parseFloat_def parse_signed_def read_sign_def)
  next
    case 3
    then have "num_to_string (Fin (of_int z)) = CHR ''-'' # c # s" using assms c(1) by simp
    then show ?thesis using 3 ns sp pd f by (simp add: parseFloat_def parse_signed_def read_sign_def)
  qed
qed

end
