(* ===== verification/JS_Value.thy ===== *)
theory JS_Value
  imports JS_String
begin

text \<open>
  JavaScript values, the operators of the language on them, and computations that change a
  state and may throw.  An array, an object or a function is a reference: it carries its
  address, which \<^verbatim>\<open>==\<close> compares, and its contents at the time it is read.  A function
  carries its source text.
\<close>

datatype jsval =
    Undefined
  | Null
  | Bool bool
  | Num jsnum
  | Str string
  | Func nat string
  | Arr nat "jsval list"
  | Obj nat "(string \<times> jsval) list"

text \<open>What a throw can carry: \<^verbatim>\<open>$break\<close>, an error object, or another value.\<close>

datatype exn = Break | TypeError | ReferenceError | RangeError | URIError | SyntaxError string | Thrown jsval

section \<open>Operators\<close>

fun js_typeof :: "jsval \<Rightarrow> string" where
  "js_typeof Undefined = ''undefined''"
| "js_typeof Null = ''object''"
| "js_typeof (Bool _) = ''boolean''"
| "js_typeof (Num _) = ''number''"
| "js_typeof (Str _) = ''string''"
| "js_typeof (Func _ _) = ''function''"
| "js_typeof (Arr _ _) = ''object''"
| "js_typeof (Obj _ _) = ''object''"

fun truthy :: "jsval \<Rightarrow> bool" where
  "truthy Undefined = False"
| "truthy Null = False"
| "truthy (Bool b) = b"
| "truthy (Num n) = num_truthy n"
| "truthy (Str s) = (s \<noteq> [])"
| "truthy _ = True"

fun is_function :: "jsval \<Rightarrow> bool" where
  "is_function (Func _ _) = True"
| "is_function _ = False"

fun is_array :: "jsval \<Rightarrow> bool" where
  "is_array (Arr _ _) = True"
| "is_array _ = False"

fun is_nullish :: "jsval \<Rightarrow> bool" where
  "is_nullish Undefined = True"
| "is_nullish Null = True"
| "is_nullish _ = False"

text \<open>\<^verbatim>\<open>String(v)\<close>; an array joins its elements, nil ones as empty texts.\<close>

fun to_str :: "jsval \<Rightarrow> string" where
  "to_str Undefined = ''undefined''"
| "to_str Null = ''null''"
| "to_str (Bool b) = (if b then ''true'' else ''false'')"
| "to_str (Num n) = num_to_string n"
| "to_str (Str s) = s"
| "to_str (Func _ src) = src"
| "to_str (Arr _ xs) = join '','' (map (\<lambda>v. if is_nullish v then [] else to_str v) xs)"
| "to_str (Obj _ _) = ''[object Object]''"

text \<open>A reference used as an operand becomes its text.\<close>

definition to_prim :: "jsval \<Rightarrow> jsval" where
  "to_prim v = (case v of Func _ _ \<Rightarrow> Str (to_str v) | Arr _ _ \<Rightarrow> Str (to_str v)
     | Obj _ _ \<Rightarrow> Str (to_str v) | _ \<Rightarrow> v)"

fun prim_to_num :: "jsval \<Rightarrow> jsnum" where
  "prim_to_num Undefined = NaN"
| "prim_to_num Null = Fin 0"
| "prim_to_num (Bool b) = Fin (if b then 1 else 0)"
| "prim_to_num (Num n) = n"
| "prim_to_num (Str s) = string_to_num s"
| "prim_to_num _ = NaN"

definition to_num :: "jsval \<Rightarrow> jsnum" where
  "to_num v = prim_to_num (to_prim v)"

text \<open>\<^verbatim>\<open>===\<close>\<close>

fun strict_eq :: "jsval \<Rightarrow> jsval \<Rightarrow> bool" where
  "strict_eq Undefined Undefined = True"
| "strict_eq Null Null = True"
| "strict_eq (Bool a) (Bool b) = (a = b)"
| "strict_eq (Num a) (Num b) = num_eq a b"
| "strict_eq (Str a) (Str b) = (a = b)"
| "strict_eq (Func a _) (Func b _) = (a = b)"
| "strict_eq (Arr a _) (Arr b _) = (a = b)"
| "strict_eq (Obj a _) (Obj b _) = (a = b)"
| "strict_eq _ _ = False"

definition is_ref :: "jsval \<Rightarrow> bool" where
  "is_ref v \<longleftrightarrow> (case v of Func _ _ \<Rightarrow> True | Arr _ _ \<Rightarrow> True | Obj _ _ \<Rightarrow> True | _ \<Rightarrow> False)"

text \<open>\<^verbatim>\<open>==\<close>\<close>

definition loose_eq :: "jsval \<Rightarrow> jsval \<Rightarrow> bool" where
  "loose_eq a b =
     (if is_nullish a \<or> is_nullish b then is_nullish a \<and> is_nullish b
      else if is_ref a \<and> is_ref b then strict_eq a b
      else case (to_prim a, to_prim b) of
        (Str s, Str t) \<Rightarrow> s = t
      | (Bool p, Bool q) \<Rightarrow> p = q
      | (p, q) \<Rightarrow> num_eq (prim_to_num p) (prim_to_num q))"

fun str_lt :: "string \<Rightarrow> string \<Rightarrow> bool" where
  "str_lt _ [] = False"
| "str_lt [] (_ # _) = True"
| "str_lt (c # s) (d # t) = (code c < code d \<or> c = d \<and> str_lt s t)"

text \<open>\<^verbatim>\<open><\<close>, \<^verbatim>\<open>>=\<close> and \<^verbatim>\<open><=\<close>: on two texts by code units, otherwise on numbers.\<close>

definition js_lt :: "jsval \<Rightarrow> jsval \<Rightarrow> bool" where
  "js_lt a b = (case (to_prim a, to_prim b) of
     (Str s, Str t) \<Rightarrow> str_lt s t
   | (p, q) \<Rightarrow> num_lt (prim_to_num p) (prim_to_num q))"

definition js_le :: "jsval \<Rightarrow> jsval \<Rightarrow> bool" where
  "js_le a b = (case (to_prim a, to_prim b) of
     (Str s, Str t) \<Rightarrow> \<not> str_lt t s
   | (p, q) \<Rightarrow> num_le (prim_to_num p) (prim_to_num q))"

text \<open>\<^verbatim>\<open>+\<close>: texts are appended, otherwise numbers are added.\<close>

definition js_plus :: "jsval \<Rightarrow> jsval \<Rightarrow> jsval" where
  "js_plus a b = (case (to_prim a, to_prim b) of
     (Str s, q) \<Rightarrow> Str (s @ to_str q)
   | (p, Str t) \<Rightarrow> Str (to_str p @ t)
   | (p, q) \<Rightarrow> Num (prim_to_num p + prim_to_num q))"

section \<open>Properties\<close>

text \<open>
  The own properties of an object, in the order \<^verbatim>\<open>for (k in o)\<close> visits them: the order in
  which the keys were first written.
\<close>

type_synonym props = "(string \<times> jsval) list"

definition has_prop :: "'a \<Rightarrow> ('a \<times> 'v) list \<Rightarrow> bool" where
  "has_prop k ps \<longleftrightarrow> k \<in> fst ` set ps"

fun set_prop :: "'a \<Rightarrow> 'v \<Rightarrow> ('a \<times> 'v) list \<Rightarrow> ('a \<times> 'v) list" where
  "set_prop k v [] = [(k, v)]"
| "set_prop k v ((k', v') # ps) = (if k = k' then (k, v) # ps else (k', v') # set_prop k v ps)"

definition del_prop :: "'a \<Rightarrow> ('a \<times> 'v) list \<Rightarrow> ('a \<times> 'v) list" where
  "del_prop k ps = filter (\<lambda>(k', _). k' \<noteq> k) ps"

definition get_prop :: "'a \<Rightarrow> ('a \<times> jsval) list \<Rightarrow> jsval" where
  "get_prop k ps = (case map_of ps k of Some v \<Rightarrow> v | None \<Rightarrow> Undefined)"

text \<open>Reading an element of an array out of range gives \<^verbatim>\<open>undefined\<close>.\<close>

definition elem :: "jsval list \<Rightarrow> nat \<Rightarrow> jsval" where
  "elem xs i = (if i < length xs then xs ! i else Undefined)"

datatype key = Idx nat | Name string

text \<open>\<^verbatim>\<open>v[k]\<close>, for an index or a name; nil values have no properties.\<close>

fun get :: "jsval \<Rightarrow> key \<Rightarrow> exn + jsval" where
  "get Undefined k = Inl TypeError"
| "get Null k = Inl TypeError"
| "get (Arr _ xs) (Idx i) = Inr (elem xs i)"
| "get (Arr _ xs) (Name k) = Inr (if k = ''length'' then Num (Fin (of_nat (length xs))) else Undefined)"
| "get (Obj _ ps) (Name k) = Inr (get_prop k ps)"
| "get (Obj _ ps) (Idx i) = Inr (get_prop (digits 10 (int i)) ps)"
| "get (Str s) (Name k) = Inr (if k = ''length'' then Num (Fin (of_nat (length s))) else Undefined)"
| "get (Str s) (Idx i) = Inr (if i < length s then Str [s ! i] else Undefined)"
| "get _ k = Inr Undefined"

lemma map_of_set_prop [simp]: "map_of (set_prop k v ps) = (map_of ps)(k \<mapsto> v)"
  by (induction k v ps rule: set_prop.induct) auto

lemma keys_set_prop: "fst ` set (set_prop k v ps) = insert k (fst ` set ps)"
  by (induction k v ps rule: set_prop.induct) auto

lemma map_fst_set_prop:
  "map fst (set_prop k v ps) = (if k \<in> fst ` set ps then map fst ps else map fst ps @ [k])"
  by (induction k v ps rule: set_prop.induct) auto

lemma distinct_set_prop: "distinct (map fst ps) \<Longrightarrow> distinct (map fst (set_prop k v ps))"
  by (auto simp: map_fst_set_prop)

lemma set_prop_fresh: "k \<notin> fst ` set ps \<Longrightarrow> set_prop k v ps = ps @ [(k, v)]"
  by (induction k v ps rule: set_prop.induct) auto

lemma get_prop_set_prop [simp]:
  "get_prop k' (set_prop k v ps) = (if k' = k then v else get_prop k' ps)"
  by (simp add: get_prop_def)

lemma map_of_del_prop [simp]: "map_of (del_prop k ps) k' = (if k' = k then None else map_of ps k')"
  by (induction ps) (auto simp: del_prop_def)

lemma get_prop_del_prop [simp]:
  "get_prop k' (del_prop k ps) = (if k' = k then Undefined else get_prop k' ps)"
  by (simp add: get_prop_def)

lemma elem_nth [simp]: "i < length xs \<Longrightarrow> elem xs i = xs ! i"
  by (simp add: elem_def)

lemma js_plus_Num [simp]: "js_plus (Num a) (Num b) = Num (a + b)"
  by (simp add: js_plus_def to_prim_def)

lemma to_num_Num [simp]: "to_num (Num a) = a"
  by (simp add: to_num_def to_prim_def)

lemma strict_eq_refl: "strict_eq v v \<longleftrightarrow> v \<noteq> Num NaN"
  by (cases v) (auto simp: num_eq_def)

section \<open>Computations that change a state and may throw\<close>

type_synonym ('s, 'a) act = "'s \<Rightarrow> (exn + 'a) \<times> 's"

definition act_ret :: "'a \<Rightarrow> ('s, 'a) act" where
  "act_ret a s = (Inr a, s)"

definition act_throw :: "exn \<Rightarrow> ('s, 'a) act" where
  "act_throw e s = (Inl e, s)"

definition act_bind :: "('s, 'a) act \<Rightarrow> ('a \<Rightarrow> ('s, 'b) act) \<Rightarrow> ('s, 'b) act" where
  "act_bind m f s = (case m s of (Inl e, t) \<Rightarrow> (Inl e, t) | (Inr a, t) \<Rightarrow> f a t)"

text \<open>A call whose caller has local variables: the callee changes the rest of the state.\<close>

definition on_rest :: "('s, 'a) act \<Rightarrow> ('l \<times> 's, 'a) act" where
  "on_rest m = (\<lambda>(l, s). case m s of (r, t) \<Rightarrow> (r, (l, t)))"

text \<open>Declaring a local variable with its initial value, and returning its final one.\<close>

definition with_local :: "'l \<Rightarrow> ('l \<times> 's, 'a) act \<Rightarrow> ('s, 'l) act" where
  "with_local l m s = (case m (l, s) of
     (Inl e, (_, t)) \<Rightarrow> (Inl e, t) | (Inr _, (l', t)) \<Rightarrow> (Inr l', t))"

definition get_local :: "('l \<times> 's, 'l) act" where
  "get_local = (\<lambda>(l, s). (Inr l, (l, s)))"

definition set_local :: "'l \<Rightarrow> ('l \<times> 's, unit) act" where
  "set_local l' = (\<lambda>(l, s). (Inr (), (l', s)))"

lemmas act_defs = act_ret_def act_throw_def act_bind_def on_rest_def with_local_def
  get_local_def set_local_def

text \<open>A callback that neither changes the state nor throws.\<close>

definition pure_it :: "('a \<Rightarrow> nat \<Rightarrow> 'b) \<Rightarrow> 'a \<Rightarrow> nat \<Rightarrow> ('s, 'b) act" where
  "pure_it f v i = act_ret (f v i)"

end
