(* ===== verification/Enumerable.thy ===== *)
theory Enumerable
  imports JS_Value "HOL-Library.Multiset"
begin

text \<open>
  The mixin Enumerable of \<^verbatim>\<open>htdocs/prototype.js\<close>.  Its methods are functions of the
  \<^verbatim>\<open>_each\<close> of the object they are mixed into: an operation that calls an iterator on one
  value after the other, stopping when it throws.  An iterator is a computation on an
  arbitrary state that may throw; the local variables that the closures of the source
  share are the first part of that state.
\<close>

type_synonym ('s, 'v) each = "('v \<Rightarrow> ('s, unit) act) \<Rightarrow> ('s, unit) act"
type_synonym ('s, 'v, 'r) iter = "'v \<Rightarrow> nat \<Rightarrow> ('s, 'r) act"

section \<open>The methods\<close>

text \<open>\<^verbatim>\<open>Array.prototype._each\<close>\<close>

fun Array_each :: "'v list \<Rightarrow> ('s, 'v) each" where
  "Array_each [] iterator = act_ret ()"
| "Array_each (v # vs) iterator = act_bind (iterator v) (\<lambda>_. Array_each vs iterator)"

text \<open>
  The closure \<^verbatim>\<open>each\<close> hands to \<^verbatim>\<open>_each\<close> numbers the calls; a \<^verbatim>\<open>$break\<close> thrown by the
  callback ends the iteration normally.
\<close>

definition count_calls :: "('s, 'v, 'r) iter \<Rightarrow> 'v \<Rightarrow> (nat \<times> 's, unit) act" where
  "count_calls iterator value = (\<lambda>(index, t). case iterator value index t of
     (Inl e, t') \<Rightarrow> (Inl e, (Suc index, t'))
   | (Inr _, t') \<Rightarrow> (Inr (), (Suc index, t')))"

definition catch_break :: "(exn + unit) \<times> nat \<times> 's \<Rightarrow> (exn + unit) \<times> 's" where
  "catch_break r = (case r of
     (Inl e, (_, t)) \<Rightarrow> (if e = Break then (Inr (), t) else (Inl e, t))
   | (Inr _, (_, t)) \<Rightarrow> (Inr (), t))"

definition Enumerable_each :: "(nat \<times> 's, 'v) each \<Rightarrow> ('s, 'v, 'r) iter \<Rightarrow> ('s, unit) act" where
  "Enumerable_each E iterator s = catch_break (E (count_calls iterator) (0, s))"

text \<open>\<^verbatim>\<open>iterator || Prototype.K\<close>\<close>

definition or_K :: "('s, 'v, 'v) iter option \<Rightarrow> ('s, 'v, 'v) iter" where
  "or_K iterator = (case iterator of Some f \<Rightarrow> f | None \<Rightarrow> (\<lambda>x _. act_ret x))"

definition Enumerable_all :: "(nat \<times> bool \<times> 's, jsval) each \<Rightarrow> ('s, jsval, jsval) iter option
    \<Rightarrow> ('s, bool) act" where
  "Enumerable_all E iterator = with_local True (Enumerable_each E (\<lambda>value index.
     act_bind get_local (\<lambda>result.
     act_bind (if result then act_bind (on_rest (or_K iterator value index))
                 (\<lambda>v. act_ret (truthy v)) else act_ret False) (\<lambda>result'.
     act_bind (set_local result') (\<lambda>_. if \<not> result' then act_throw Break else act_ret ())))))"

definition Enumerable_any :: "(nat \<times> bool \<times> 's, jsval) each \<Rightarrow> ('s, jsval, jsval) iter option
    \<Rightarrow> ('s, bool) act" where
  "Enumerable_any E iterator = with_local False (Enumerable_each E (\<lambda>value index.
     act_bind (on_rest (or_K iterator value index)) (\<lambda>v.
     act_bind (set_local (truthy v)) (\<lambda>_. if truthy v then act_throw Break else act_ret ()))))"

definition push_local :: "'r \<Rightarrow> ('r list \<times> 's, unit) act" where
  "push_local v = act_bind get_local (\<lambda>results. set_local (results @ [v]))"

definition Enumerable_collect :: "(nat \<times> 'r list \<times> 's, 'v) each \<Rightarrow> ('s, 'v, 'r) iter
    \<Rightarrow> ('s, 'r list) act" where
  "Enumerable_collect E iterator = with_local [] (Enumerable_each E (\<lambda>value index.
     act_bind (on_rest (iterator value index)) push_local))"

definition Enumerable_detect :: "(nat \<times> jsval \<times> 's, jsval) each \<Rightarrow> ('s, jsval, jsval) iter
    \<Rightarrow> ('s, jsval) act" where
  "Enumerable_detect E iterator = with_local Undefined (Enumerable_each E (\<lambda>value index.
     act_bind (on_rest (iterator value index)) (\<lambda>b.
     if truthy b then act_bind (set_local value) (\<lambda>_. act_throw Break) else act_ret ())))"

definition Enumerable_findAll :: "(nat \<times> 'v list \<times> 's, 'v) each \<Rightarrow> ('s, 'v, jsval) iter
    \<Rightarrow> ('s, 'v list) act" where
  "Enumerable_findAll E iterator = with_local [] (Enumerable_each E (\<lambda>value index.
     act_bind (on_rest (iterator value index)) (\<lambda>b.
     if truthy b then push_local value else act_ret ())))"

text \<open>\<^verbatim>\<open>grep\<close> tests the text of each value; \<open>matches\<close> is \<^verbatim>\<open>match(pattern)\<close>.\<close>

definition Enumerable_grep :: "(nat \<times> jsval list \<times> 's, jsval) each \<Rightarrow> (string \<Rightarrow> bool)
    \<Rightarrow> ('s, jsval, jsval) iter option \<Rightarrow> ('s, jsval list) act" where
  "Enumerable_grep E matches iterator = with_local [] (Enumerable_each E (\<lambda>value index.
     if is_nullish value then act_throw TypeError
     else if matches (to_str value)
       then act_bind (on_rest (or_K iterator value index)) push_local else act_ret ()))"

definition Enumerable_include :: "(nat \<times> bool \<times> 's, jsval) each \<Rightarrow> jsval \<Rightarrow> ('s, bool) act" where
  "Enumerable_include E object = with_local False (Enumerable_each E (\<lambda>value index.
     if loose_eq value object then act_bind (set_local True) (\<lambda>_. act_throw Break)
     else act_ret ()))"

definition Enumerable_inject :: "(nat \<times> 'm \<times> 's, 'v) each \<Rightarrow> 'm
    \<Rightarrow> ('m \<Rightarrow> 'v \<Rightarrow> nat \<Rightarrow> ('s, 'm) act) \<Rightarrow> ('s, 'm) act" where
  "Enumerable_inject E memo iterator = with_local memo (Enumerable_each E (\<lambda>value index.
     act_bind get_local (\<lambda>m. act_bind (on_rest (iterator m value index)) set_local)))"

text \<open>\<^verbatim>\<open>invoke\<close>: \<open>call\<close> is the application of the named method, with its arguments, to a value.\<close>

definition Enumerable_invoke :: "(nat \<times> 'r list \<times> 's, 'v) each \<Rightarrow> ('v \<Rightarrow> ('s, 'r) act)
    \<Rightarrow> ('s, 'r list) act" where
  "Enumerable_invoke E call = Enumerable_collect E (\<lambda>value _. call value)"

definition Enumerable_max :: "(nat \<times> jsval \<times> 's, jsval) each \<Rightarrow> ('s, jsval, jsval) iter option
    \<Rightarrow> ('s, jsval) act" where
  "Enumerable_max E iterator = with_local Undefined (Enumerable_each E (\<lambda>value index.
     act_bind (on_rest (or_K iterator value index)) (\<lambda>v. act_bind get_local (\<lambda>result.
     if loose_eq result Undefined \<or> js_le result v then set_local v else act_ret ()))))"

definition Enumerable_min :: "(nat \<times> jsval \<times> 's, jsval) each \<Rightarrow> ('s, jsval, jsval) iter option
    \<Rightarrow> ('s, jsval) act" where
  "Enumerable_min E iterator = with_local Undefined (Enumerable_each E (\<lambda>value index.
     act_bind (on_rest (or_K iterator value index)) (\<lambda>v. act_bind get_local (\<lambda>result.
     if loose_eq result Undefined \<or> js_lt v result then set_local v else act_ret ()))))"

definition Enumerable_partition :: "(nat \<times> (jsval list \<times> jsval list) \<times> 's, jsval) each
    \<Rightarrow> ('s, jsval, jsval) iter option \<Rightarrow> ('s, jsval list \<times> jsval list) act" where
  "Enumerable_partition E iterator = with_local ([], []) (Enumerable_each E (\<lambda>value index.
     act_bind (on_rest (or_K iterator value index)) (\<lambda>b. act_bind get_local (\<lambda>(trues, falses).
     if truthy b then set_local (trues @ [value], falses)
     else set_local (trues, falses @ [value])))))"

definition of_res :: "exn + 'a \<Rightarrow> ('s, 'a) act" where
  "of_res r s = (r, s)"

definition Enumerable_pluck :: "(nat \<times> jsval list \<times> 's, jsval) each \<Rightarrow> key
    \<Rightarrow> ('s, jsval list) act" where
  "Enumerable_pluck E property = with_local [] (Enumerable_each E (\<lambda>value index.
     act_bind (of_res (get value property)) push_local))"

definition Enumerable_reject :: "(nat \<times> 'v list \<times> 's, 'v) each \<Rightarrow> ('s, 'v, jsval) iter
    \<Rightarrow> ('s, 'v list) act" where
  "Enumerable_reject E iterator = with_local [] (Enumerable_each E (\<lambda>value index.
     act_bind (on_rest (iterator value index)) (\<lambda>b.
     if \<not> truthy b then push_local value else act_ret ())))"

text \<open>
  A stable insertion sort: an element goes in front of the first one that is not less.
\<close>

fun insert_by :: "('a \<Rightarrow> 'a \<Rightarrow> bool) \<Rightarrow> 'a \<Rightarrow> 'a list \<Rightarrow> 'a list" where
  "insert_by lt x [] = [x]"
| "insert_by lt x (y # ys) = (if lt y x then y # insert_by lt x ys else x # y # ys)"

definition sort_by :: "('a \<Rightarrow> 'a \<Rightarrow> bool) \<Rightarrow> 'a list \<Rightarrow> 'a list" where
  "sort_by lt xs = foldr (insert_by lt) xs []"

text \<open>
  The built-in \<^verbatim>\<open>sort(compare)\<close> is a parameter of \<^verbatim>\<open>sortBy\<close>: the standard leaves the algorithm open, and did not
  ask for a stable one when the code was written.  The function it is given compares in three ways.
\<close>

type_synonym 'a array_sort = "('a \<Rightarrow> 'a \<Rightarrow> jsnum) \<Rightarrow> 'a list \<Rightarrow> 'a list"

definition sortBy_compare :: "jsval \<times> jsval \<Rightarrow> jsval \<times> jsval \<Rightarrow> jsnum" where
  "sortBy_compare left right =
     (let a = snd left; b = snd right in if js_lt a b then Fin (- 1) else if js_lt b a then Fin 1 else Fin 0)"

definition Enumerable_sortBy :: "(jsval \<times> jsval) array_sort \<Rightarrow> (nat \<times> (jsval \<times> jsval) list \<times> 's, jsval) each
    \<Rightarrow> ('s, jsval, jsval) iter \<Rightarrow> ('s, jsval list) act" where
  "Enumerable_sortBy sort0 E iterator =
     act_bind (Enumerable_collect E (\<lambda>value index.
       act_bind (iterator value index) (\<lambda>criteria. act_ret (value, criteria))))
     (\<lambda>pairs. act_ret (map fst (sort0 sortBy_compare pairs)))"

definition Enumerable_toArray :: "(nat \<times> 'v list \<times> 's, 'v) each \<Rightarrow> ('s, 'v list) act" where
  "Enumerable_toArray E = Enumerable_collect E (\<lambda>value _. act_ret value)"

text \<open>\<^verbatim>\<open>zip\<close>: \<open>args\<close> are the other collections, already arrays.\<close>

definition Enumerable_zip :: "(nat \<times> jsval list \<times> 's, jsval) each \<Rightarrow>
    (nat \<times> 'r list \<times> 's, jsval) each \<Rightarrow> jsval list list \<Rightarrow> (jsval list \<Rightarrow> ('s, 'r) act)
    \<Rightarrow> ('s, 'r list) act" where
  "Enumerable_zip E E' args iterator =
     act_bind (Enumerable_toArray E) (\<lambda>this.
       Enumerable_collect E' (\<lambda>value index.
         iterator (map (\<lambda>c. elem c index) (this # args))))"

definition Enumerable_size :: "(nat \<times> 'v list \<times> 's, 'v) each \<Rightarrow> ('s, nat) act" where
  "Enumerable_size E = act_bind (Enumerable_toArray E) (\<lambda>xs. act_ret (length xs))"

text \<open>
  The loop of \<^verbatim>\<open>eachSlice\<close>: it does not end when \<open>number\<close> is not positive and the
  position stays below the length.
\<close>

partial_function (option) slices_from :: "int \<Rightarrow> 'v list \<Rightarrow> int \<Rightarrow> 'v list list
    \<Rightarrow> 'v list list option" where
  "slices_from number xs index slices =
     (let index' = index + number in
      if index' < int (length xs)
      then slices_from number xs index' (slices @ [slice xs index' (index' + number)])
      else Some slices)"

declare slices_from.simps [code]

definition Enumerable_eachSlice :: "int \<Rightarrow> 'v list \<Rightarrow> ('s, 'v list, 'r) iter
    \<Rightarrow> ('s, 'r list) act option" where
  "Enumerable_eachSlice number xs iterator =
     map_option (\<lambda>slices. Enumerable_collect (Array_each slices) iterator)
       (slices_from number xs (- number) [])"

text \<open>The inner loop of \<^verbatim>\<open>inGroupsOf\<close> fills a slice up to \<open>number\<close> elements.\<close>

definition Enumerable_inGroupsOf :: "int \<Rightarrow> jsval \<Rightarrow> jsval list
    \<Rightarrow> ('s, jsval list list) act option" where
  "Enumerable_inGroupsOf number fillWith xs =
     (let fill = (if strict_eq fillWith Undefined then Null else fillWith) in
      Enumerable_eachSlice number xs
        (\<lambda>sl _. act_ret (sl @ replicate (nat number - length sl) fill)))"

lemmas enum_method_defs =
  Enumerable_all_def Enumerable_any_def Enumerable_collect_def Enumerable_detect_def
  Enumerable_findAll_def Enumerable_grep_def Enumerable_include_def Enumerable_inject_def
  Enumerable_max_def Enumerable_min_def Enumerable_partition_def Enumerable_pluck_def
  Enumerable_reject_def

section \<open>The loop of each\<close>

text \<open>What \<^verbatim>\<open>each\<close> does on the values \<open>vs\<close>, numbered from \<open>i\<close>.\<close>

fun each_loop :: "nat \<Rightarrow> 'v list \<Rightarrow> ('s, 'v, 'r) iter \<Rightarrow> ('s, unit) act" where
  "each_loop i [] f s = (Inr (), s)"
| "each_loop i (v # vs) f s = (case f v i s of
     (Inl e, t) \<Rightarrow> (if e = Break then (Inr (), t) else (Inl e, t))
   | (Inr _, t) \<Rightarrow> each_loop (Suc i) vs f t)"

lemma Array_each_loop:
  "catch_break (Array_each vs (count_calls f) (i, s)) = each_loop i vs f s"
proof (induction vs arbitrary: i s)
  case Nil
  then show ?case by (simp add: act_defs catch_break_def)
next
  case (Cons v vs)
  obtain r t where "f v i s = (r, t)" by force
  then show ?case using Cons.IH [of "Suc i" t]
    by (cases r) (simp_all add: act_defs count_calls_def catch_break_def)
qed

lemma Enumerable_each_Array: "Enumerable_each (Array_each vs) f s = each_loop 0 vs f s"
  unfolding Enumerable_each_def by (rule Array_each_loop)

text \<open>Every loop step with a callback that returns normally is one step of a fold.\<close>

lemma each_loop_fold:
  "(\<And>v i l. f v i (l, s) = (Inr (), (g v i l, s))) \<Longrightarrow>
   each_loop i vs f (l, s) = (Inr (), (fold (\<lambda>(i, v). g v i) (enumerate i vs) l, s))"
  by (induction vs arbitrary: i l) auto

lemma fold_snoc_map: "fold (\<lambda>x acc. acc @ [h x]) xs acc = acc @ map h xs"
  by (induction xs arbitrary: acc) auto

lemma fold_snoc_filter:
  "fold (\<lambda>x acc. if P x then acc @ [h x] else acc) xs acc = acc @ map h (filter P xs)"
  by (induction xs arbitrary: acc) auto

section \<open>Callbacks whose result does not depend on the state\<close>

text \<open>
  A callback that returns \<open>f v i\<close> and changes the state by \<open>g v i\<close>.  With a log as the state,
  \<open>g\<close> records the calls, so the facts below say which calls are made and in which order.
\<close>

definition st_it :: "('v \<Rightarrow> nat \<Rightarrow> 'r) \<Rightarrow> ('v \<Rightarrow> nat \<Rightarrow> 's \<Rightarrow> 's) \<Rightarrow> ('s, 'v, 'r) iter" where
  "st_it f g v i s = (Inr (f v i), g v i s)"

text \<open>The numbered values, and those up to and including the first that satisfies \<open>P\<close>.\<close>

fun upto_first :: "('a \<Rightarrow> bool) \<Rightarrow> 'a list \<Rightarrow> 'a list" where
  "upto_first P [] = []"
| "upto_first P (x # xs) = (if P x then [x] else x # upto_first P xs)"

definition effects :: "('v \<Rightarrow> nat \<Rightarrow> 's \<Rightarrow> 's) \<Rightarrow> (nat \<times> 'v) list \<Rightarrow> 's \<Rightarrow> 's" where
  "effects g ivs s = fold (\<lambda>(i, v). g v i) ivs s"

lemma effects_simps [simp]:
  "effects g [] s = s" "effects g ((i, v) # ivs) s = effects g ivs (g v i s)"
  by (simp_all add: effects_def)

lemma effects_log: "effects (\<lambda>v i s. s @ [(i, v)]) ivs s = s @ ivs"
  by (induction ivs arbitrary: s) auto

lemma each_loop_all:
  "each_loop i vs (\<lambda>value index.
     act_bind get_local (\<lambda>result.
     act_bind (if result then act_bind (on_rest (st_it f g value index))
                 (\<lambda>v. act_ret (truthy v)) else act_ret False) (\<lambda>result'.
     act_bind (set_local result') (\<lambda>_. if \<not> result' then act_throw Break else act_ret ()))))
     (True, s) =
   (Inr (), (list_all (\<lambda>(i, v). truthy (f v i)) (enumerate i vs),
             effects g (upto_first (\<lambda>(i, v). \<not> truthy (f v i)) (enumerate i vs)) s))"
  by (induction vs arbitrary: i s) (auto simp: act_defs st_it_def)

lemma each_loop_any:
  "each_loop i vs (\<lambda>value index.
     act_bind (on_rest (st_it f g value index)) (\<lambda>v.
     act_bind (set_local (truthy v)) (\<lambda>_. if truthy v then act_throw Break else act_ret ())))
     (False, s) =
   (Inr (), (list_ex (\<lambda>(i, v). truthy (f v i)) (enumerate i vs),
             effects g (upto_first (\<lambda>(i, v). truthy (f v i)) (enumerate i vs)) s))"
  by (induction vs arbitrary: i s) (auto simp: act_defs st_it_def)

lemma each_loop_collect:
  "each_loop i vs (\<lambda>value index. act_bind (on_rest (st_it f g value index)) push_local) (rs, s) =
   (Inr (), (rs @ map (\<lambda>(i, v). f v i) (enumerate i vs), effects g (enumerate i vs) s))"
  by (induction vs arbitrary: i rs s) (auto simp: act_defs st_it_def push_local_def)

lemma each_loop_detect:
  "each_loop i vs (\<lambda>value index.
     act_bind (on_rest (st_it f g value index)) (\<lambda>b.
     if truthy b then act_bind (set_local value) (\<lambda>_. act_throw Break) else act_ret ())) (d, s) =
   (Inr (), (case find (\<lambda>(i, v). truthy (f v i)) (enumerate i vs) of Some (_, v) \<Rightarrow> v | None \<Rightarrow> d,
             effects g (upto_first (\<lambda>(i, v). truthy (f v i)) (enumerate i vs)) s))"
  by (induction vs arbitrary: i s) (auto simp: act_defs st_it_def)

lemma each_loop_findAll:
  "each_loop i vs (\<lambda>value index.
     act_bind (on_rest (st_it f g value index)) (\<lambda>b.
     if truthy b then push_local value else act_ret ())) (rs, s) =
   (Inr (), (rs @ map snd (filter (\<lambda>(i, v). truthy (f v i)) (enumerate i vs)),
             effects g (enumerate i vs) s))"
  by (induction vs arbitrary: i rs s) (auto simp: act_defs st_it_def push_local_def)

lemma each_loop_reject:
  "each_loop i vs (\<lambda>value index.
     act_bind (on_rest (st_it f g value index)) (\<lambda>b.
     if \<not> truthy b then push_local value else act_ret ())) (rs, s) =
   (Inr (), (rs @ map snd (filter (\<lambda>(i, v). \<not> truthy (f v i)) (enumerate i vs)),
             effects g (enumerate i vs) s))"
  by (induction vs arbitrary: i rs s) (auto simp: act_defs st_it_def push_local_def)

lemma each_loop_include:
  "each_loop i vs (\<lambda>value index.
     if loose_eq value object then act_bind (set_local True) (\<lambda>_. act_throw Break)
     else act_ret ()) (False, s) = (Inr (), (list_ex (\<lambda>v. loose_eq v object) vs, s))"
  by (induction vs arbitrary: i) (auto simp: act_defs)

lemma each_loop_inject:
  "each_loop i vs (\<lambda>value index.
     act_bind get_local (\<lambda>m. act_bind (on_rest (st_it (h m) g value index)) set_local)) (m, s) =
   (Inr (), (fold (\<lambda>(i, v) m. h m v i) (enumerate i vs) m, effects g (enumerate i vs) s))"
  by (induction vs arbitrary: i m s) (auto simp: act_defs st_it_def)

lemma each_loop_partition:
  "each_loop i vs (\<lambda>value index.
     act_bind (on_rest (st_it f g value index)) (\<lambda>b. act_bind get_local (\<lambda>(trues, falses).
     if truthy b then set_local (trues @ [value], falses)
     else set_local (trues, falses @ [value])))) ((ts, fs), s) =
   (Inr (), ((ts @ map snd (filter (\<lambda>(i, v). truthy (f v i)) (enumerate i vs)),
              fs @ map snd (filter (\<lambda>(i, v). \<not> truthy (f v i)) (enumerate i vs))),
             effects g (enumerate i vs) s))"
  by (induction vs arbitrary: i ts fs s) (auto simp: act_defs st_it_def)

lemma each_loop_pluck:
  "(\<And>v. v \<in> set vs \<Longrightarrow> get v k = Inr (p v)) \<Longrightarrow>
   each_loop i vs (\<lambda>value index. act_bind (of_res (get value k)) push_local) (rs, s) =
   (Inr (), (rs @ map p vs, s))"
  by (induction vs arbitrary: i rs) (auto simp: act_defs of_res_def push_local_def)

lemma each_loop_max:
  "each_loop i vs (\<lambda>value index.
     act_bind (on_rest (st_it f g value index)) (\<lambda>v. act_bind get_local (\<lambda>result.
     if loose_eq result Undefined \<or> js_le result v then set_local v else act_ret ()))) (r, s) =
   (Inr (), (fold (\<lambda>(i, v) r. if loose_eq r Undefined \<or> js_le r (f v i) then f v i else r)
              (enumerate i vs) r, effects g (enumerate i vs) s))"
  by (induction vs arbitrary: i r s) (auto simp: act_defs st_it_def)

lemma each_loop_min:
  "each_loop i vs (\<lambda>value index.
     act_bind (on_rest (st_it f g value index)) (\<lambda>v. act_bind get_local (\<lambda>result.
     if loose_eq result Undefined \<or> js_lt v result then set_local v else act_ret ()))) (r, s) =
   (Inr (), (fold (\<lambda>(i, v) r. if loose_eq r Undefined \<or> js_lt (f v i) r then f v i else r)
              (enumerate i vs) r, effects g (enumerate i vs) s))"
  by (induction vs arbitrary: i r s) (auto simp: act_defs st_it_def)

lemma or_K_Some [simp]: "or_K (Some f) = f"
  by (simp add: or_K_def)

lemma K_st_it: "(\<lambda>x (_::nat). act_ret x) = st_it (\<lambda>v _. v) (\<lambda>_ _ s. s)"
  by (simp add: fun_eq_iff act_ret_def st_it_def)

lemma or_K_None [simp]: "or_K None = st_it (\<lambda>v _. v) (\<lambda>_ _ s. s)"
  by (simp add: or_K_def K_st_it)

lemma effects_id [simp]: "effects (\<lambda>_ _ s. s) ivs s = s"
  by (induction ivs) auto

lemma map_value_enumerate: "map (\<lambda>(i, v). v) (enumerate i xs) = xs"
  by (induction xs arbitrary: i) auto

lemma with_local_Inr: "m (l, s) = (Inr (), (l', t)) \<Longrightarrow> with_local l m s = (Inr l', t)"
  by (simp add: with_local_def)

section \<open>The contract of Enumerable\<close>

text \<open>
  What an object that mixes in Enumerable has to provide: its \<^verbatim>\<open>_each\<close> runs the callback
  over a list of values, stopping when it throws.  The parameters are that operation at the
  types of the local variables of the methods; the methods of the second locale test or compare
  the values, so there the values are those of the language.
\<close>

locale iterable =
  fixes items :: "'v list"
    and each_coll :: "(nat \<times> 'r list \<times> 's, 'v) each"
    and each_memo :: "(nat \<times> 'm \<times> 's, 'v) each"
  assumes each_coll: "each_coll = Array_each items"
    and each_memo: "each_memo = Array_each items"
begin

lemma collect_all:
  "Enumerable_collect each_coll (st_it f g) s =
   (Inr (map (\<lambda>(i, v). f v i) (enumerate 0 items)), effects g (enumerate 0 items) s)"
  unfolding Enumerable_collect_def each_coll
  by (rule with_local_Inr) (simp only: Enumerable_each_Array each_loop_collect append_Nil)

lemma invoke_all:
  "Enumerable_invoke each_coll (\<lambda>v s. (Inr (h v), s)) s = (Inr (map h items), s)"
proof -
  have it: "(\<lambda>value (_::nat) s. (Inr (h value), s)) = st_it (\<lambda>v _. h v) (\<lambda>_ _ s. s)"
    by (simp add: fun_eq_iff st_it_def)
  have "map (\<lambda>(i, v). h v) (enumerate i items) = map h items" for i
    by (induction items arbitrary: i) auto
  then show ?thesis unfolding Enumerable_invoke_def it collect_all by simp
qed

lemma inject_all:
  "Enumerable_inject each_memo m (\<lambda>m. st_it (h m) g) s =
   (Inr (fold (\<lambda>(i, v) m. h m v i) (enumerate 0 items) m), effects g (enumerate 0 items) s)"
  unfolding Enumerable_inject_def each_memo
  by (rule with_local_Inr) (simp only: Enumerable_each_Array each_loop_inject)

end

locale enumerable = iterable items each_list each_val
  for items :: "jsval list"
    and each_list :: "(nat \<times> jsval list \<times> 's, jsval) each"
    and each_val :: "(nat \<times> jsval \<times> 's, jsval) each" +
  fixes each_bool :: "(nat \<times> bool \<times> 's, jsval) each"
    and each_pair :: "(nat \<times> (jsval list \<times> jsval list) \<times> 's, jsval) each"
  assumes each_bool: "each_bool = Array_each items"
    and each_pair: "each_pair = Array_each items"
begin

lemmas each_laws = each_bool each_coll each_memo each_pair

lemma all_spec:
  "Enumerable_all each_bool (Some (st_it f g)) s =
   (Inr (list_all (\<lambda>(i, v). truthy (f v i)) (enumerate 0 items)),
    effects g (upto_first (\<lambda>(i, v). \<not> truthy (f v i)) (enumerate 0 items)) s)"
  unfolding Enumerable_all_def each_laws
  by (rule with_local_Inr) (simp only: Enumerable_each_Array or_K_Some each_loop_all)

lemma any_spec:
  "Enumerable_any each_bool (Some (st_it f g)) s =
   (Inr (list_ex (\<lambda>(i, v). truthy (f v i)) (enumerate 0 items)),
    effects g (upto_first (\<lambda>(i, v). truthy (f v i)) (enumerate 0 items)) s)"
  unfolding Enumerable_any_def each_laws
  by (rule with_local_Inr) (simp only: Enumerable_each_Array or_K_Some each_loop_any)

lemma detect_spec:
  "Enumerable_detect each_val (st_it f g) s =
   (Inr (case find (\<lambda>(i, v). truthy (f v i)) (enumerate 0 items) of
          Some (_, v) \<Rightarrow> v | None \<Rightarrow> Undefined),
    effects g (upto_first (\<lambda>(i, v). truthy (f v i)) (enumerate 0 items)) s)"
  unfolding Enumerable_detect_def each_laws
  by (rule with_local_Inr) (simp only: Enumerable_each_Array each_loop_detect)

lemma findAll_spec:
  "Enumerable_findAll each_list (st_it f g) s =
   (Inr (map snd (filter (\<lambda>(i, v). truthy (f v i)) (enumerate 0 items))),
    effects g (enumerate 0 items) s)"
  unfolding Enumerable_findAll_def each_laws
  by (rule with_local_Inr) (simp only: Enumerable_each_Array each_loop_findAll append_Nil)

lemma reject_spec:
  "Enumerable_reject each_list (st_it f g) s =
   (Inr (map snd (filter (\<lambda>(i, v). \<not> truthy (f v i)) (enumerate 0 items))),
    effects g (enumerate 0 items) s)"
  unfolding Enumerable_reject_def each_laws
  by (rule with_local_Inr) (simp only: Enumerable_each_Array each_loop_reject append_Nil)

lemma include_spec:
  "Enumerable_include each_bool object s = (Inr (list_ex (\<lambda>v. loose_eq v object) items), s)"
  unfolding Enumerable_include_def each_laws
  by (rule with_local_Inr) (simp only: Enumerable_each_Array each_loop_include)

lemma partition_spec:
  "Enumerable_partition each_pair (Some (st_it f g)) s =
   (Inr (map snd (filter (\<lambda>(i, v). truthy (f v i)) (enumerate 0 items)),
         map snd (filter (\<lambda>(i, v). \<not> truthy (f v i)) (enumerate 0 items))),
    effects g (enumerate 0 items) s)"
  unfolding Enumerable_partition_def each_laws
  by (rule with_local_Inr)
    (simp only: Enumerable_each_Array or_K_Some each_loop_partition append_Nil)

lemma pluck_spec:
  "(\<And>v. v \<in> set items \<Longrightarrow> get v k = Inr (p v)) \<Longrightarrow>
   Enumerable_pluck each_list k s = (Inr (map p items), s)"
  unfolding Enumerable_pluck_def each_laws
  by (rule with_local_Inr) (simp add: Enumerable_each_Array each_loop_pluck)

lemma toArray_spec: "Enumerable_toArray each_list s = (Inr items, s)"
  unfolding Enumerable_toArray_def K_st_it collect_all
  by (simp add: map_value_enumerate)

lemma size_spec: "Enumerable_size each_list s = (Inr (length items), s)"
  by (simp add: Enumerable_size_def act_defs toArray_spec)

lemma max_spec:
  "Enumerable_max each_val (Some (st_it f g)) s =
   (Inr (fold (\<lambda>(i, v) r. if loose_eq r Undefined \<or> js_le r (f v i) then f v i else r)
     (enumerate 0 items) Undefined), effects g (enumerate 0 items) s)"
  unfolding Enumerable_max_def each_laws
  by (rule with_local_Inr) (simp only: Enumerable_each_Array or_K_Some each_loop_max)

lemma min_spec:
  "Enumerable_min each_val (Some (st_it f g)) s =
   (Inr (fold (\<lambda>(i, v) r. if loose_eq r Undefined \<or> js_lt (f v i) r then f v i else r)
     (enumerate 0 items) Undefined), effects g (enumerate 0 items) s)"
  unfolding Enumerable_min_def each_laws
  by (rule with_local_Inr) (simp only: Enumerable_each_Array or_K_Some each_loop_min)

end

text \<open>Arrays provide the contract.\<close>

interpretation seq: iterable items "Array_each items" "Array_each items" for items
  by unfold_locales simp_all

interpretation arr: enumerable items "Array_each items" "Array_each items"
    "Array_each items" "Array_each items" for items
  by unfold_locales simp_all

end
