(* ===== verification/Prototype_Array.thy ===== *)
theory Prototype_Array
  imports Enumerable
begin

text \<open>
  The extensions of Array, of Number and the ranges of \<^verbatim>\<open>htdocs/prototype.js\<close>, and what the
  slicing methods of Enumerable compute.
\<close>

section \<open>Array\<close>

definition Array_first :: "jsval list \<Rightarrow> jsval" where
  "Array_first this = elem this 0"

text \<open>\<^verbatim>\<open>this[this.length - 1]\<close>: for an empty array the property \<^verbatim>\<open>-1\<close>, which it has not.\<close>

definition Array_last :: "jsval list \<Rightarrow> jsval" where
  "Array_last this = (if this = [] then Undefined else elem this (length this - 1))"

definition Array_clear :: "jsval list \<Rightarrow> jsval list" where
  "Array_clear this = []"

text \<open>
  Methods of Enumerable that take no callback, or one without effects, as functions: they
  cannot throw.
\<close>

definition Array_include :: "jsval list \<Rightarrow> jsval \<Rightarrow> bool" where
  "Array_include this object =
     (case Enumerable_include (Array_each this) object () of (Inr b, _) \<Rightarrow> b | _ \<Rightarrow> False)"

definition Array_select :: "(jsval \<Rightarrow> bool) \<Rightarrow> jsval list \<Rightarrow> jsval list" where
  "Array_select p this =
     (case Enumerable_findAll (Array_each this) (pure_it (\<lambda>v _. Bool (p v))) () of
        (Inr xs, _) \<Rightarrow> xs | _ \<Rightarrow> [])"

definition Array_compact :: "jsval list \<Rightarrow> jsval list" where
  "Array_compact this = Array_select (\<lambda>value. \<not> loose_eq value Null) this"

text \<open>\<^verbatim>\<open>flatten\<close>: the recursion on a nested array, and the \<^verbatim>\<open>inject\<close> over the elements.\<close>

fun flatten_value :: "jsval \<Rightarrow> jsval list" where
  "flatten_value (Arr _ xs) = foldl (\<lambda>array value. array @ flatten_value value) [] xs"
| "flatten_value v = [v]"

definition Array_flatten :: "jsval list \<Rightarrow> jsval list" where
  "Array_flatten this = foldl (\<lambda>array value. array @ flatten_value value) [] this"

definition Array_without :: "jsval list \<Rightarrow> jsval list \<Rightarrow> jsval list" where
  "Array_without values this = Array_select (\<lambda>value. \<not> Array_include values value) this"

fun index_of_from :: "nat \<Rightarrow> jsval \<Rightarrow> jsval list \<Rightarrow> int" where
  "index_of_from i object [] = - 1"
| "index_of_from i object (x # xs) =
     (if loose_eq x object then int i else index_of_from (Suc i) object xs)"

definition Array_indexOf :: "jsval list \<Rightarrow> jsval \<Rightarrow> int" where
  "Array_indexOf this object = index_of_from 0 object this"

text \<open>
  \<^verbatim>\<open>reverse(inline)\<close>: the reversed elements, and what \<^verbatim>\<open>this\<close> holds afterwards; the
  receiver is left alone only when \<^verbatim>\<open>inline === false\<close>.
\<close>

definition Array_reverse :: "jsval \<Rightarrow> jsval list \<Rightarrow> jsval list \<times> jsval list" where
  "Array_reverse inline this =
     (rev this, if \<not> strict_eq inline (Bool False) then rev this else this)"

text \<open>\<^verbatim>\<open>reduce()\<close>; \<open>a\<close> is the address of the array.\<close>

definition Array_reduce :: "nat \<Rightarrow> jsval list \<Rightarrow> jsval" where
  "Array_reduce a this = (if 1 < length this then Arr a this else elem this 0)"

definition Array_uniq :: "bool \<Rightarrow> jsval list \<Rightarrow> jsval list" where
  "Array_uniq is_sorted this = fold (\<lambda>(index, value) array.
     if index = 0 \<or> (if is_sorted then \<not> loose_eq (Array_last array) value
                    else \<not> Array_include array value)
     then array @ [value] else array) (enumerate 0 this) []"

definition Array_clone :: "'v list \<Rightarrow> 'v list" where
  "Array_clone this = [] @ this"

definition Array_size :: "'v list \<Rightarrow> nat" where
  "Array_size this = length this"

section \<open>Number and ranges\<close>

definition Number_succ :: "jsnum \<Rightarrow> jsnum" where
  "Number_succ n = num_add n (Fin 1)"

text \<open>\<^verbatim>\<open>String.prototype.succ\<close>: the last code unit is replaced by the next one.\<close>

definition String_succ :: "string \<Rightarrow> string" where
  "String_succ this = (if this = [] then [char_of (0::nat)]
     else slice this 0 (int (length this) - 1) @ [char_of (code (last this) + 1)])"

definition succ :: "jsval \<Rightarrow> exn + jsval" where
  "succ v = (case v of Num n \<Rightarrow> Inr (Num (Number_succ n)) | Str s \<Rightarrow> Inr (Str (String_succ s))
     | _ \<Rightarrow> Inl TypeError)"

record obj_range =
  range_start :: jsval
  range_end :: jsval
  range_exclusive :: jsval

definition ObjectRange_initialize :: "jsval \<Rightarrow> jsval \<Rightarrow> jsval \<Rightarrow> obj_range" where
  "ObjectRange_initialize start end exclusive =
     \<lparr>range_start = start, range_end = end, range_exclusive = exclusive\<rparr>"

definition ObjectRange_include :: "obj_range \<Rightarrow> jsval \<Rightarrow> bool" where
  "ObjectRange_include r value =
     (if js_lt value (range_start r) then False
      else if truthy (range_exclusive r) then js_lt value (range_end r)
      else js_le value (range_end r))"

text \<open>The loop of \<^verbatim>\<open>_each\<close>; it may not end, as for an infinite end of the range.\<close>

partial_function (option) range_loop :: "obj_range \<Rightarrow> (jsval \<Rightarrow> ('s, unit) act) \<Rightarrow> jsval \<Rightarrow> 's
    \<Rightarrow> ((exn + unit) \<times> 's) option" where
  "range_loop r iterator value s =
     (if ObjectRange_include r value then
        (case iterator value s of
           (Inl e, t) \<Rightarrow> Some (Inl e, t)
         | (Inr _, t) \<Rightarrow> (case succ value of
             Inl e \<Rightarrow> Some (Inl e, t) | Inr value' \<Rightarrow> range_loop r iterator value' t))
      else Some (Inr (), s))"

declare range_loop.simps [code]

definition ObjectRange_each :: "obj_range \<Rightarrow> (jsval \<Rightarrow> ('s, unit) act) \<Rightarrow> 's
    \<Rightarrow> ((exn + unit) \<times> 's) option" where
  "ObjectRange_each r iterator s = range_loop r iterator (range_start r) s"

text \<open>\<^verbatim>\<open>Number.prototype.times\<close>: \<^verbatim>\<open>$R(0, this, true).each(iterator)\<close>.\<close>

definition Number_times :: "jsnum \<Rightarrow> ('s, jsval, 'r) iter \<Rightarrow> 's \<Rightarrow> ((exn + unit) \<times> 's) option" where
  "Number_times n iterator s = map_option catch_break
     (ObjectRange_each (ObjectRange_initialize (Num (Fin 0)) (Num n) (Bool True))
        (count_calls iterator) (0, s))"

section \<open>What the array methods compute\<close>

lemma pure_st_it: "pure_it f = st_it f (\<lambda>_ _ s. s)"
  by (simp add: fun_eq_iff pure_it_def st_it_def act_ret_def)

lemma Array_include_iff: "Array_include this v \<longleftrightarrow> (\<exists>x \<in> set this. loose_eq x v)"
  by (simp add: Array_include_def arr.include_spec list_ex_iff)

lemma filter_enumerate_snd:
  "map snd (filter (\<lambda>(i, v). P v) (enumerate i xs)) = filter P xs"
  by (induction xs arbitrary: i) auto

lemma Array_select_filter: "Array_select p this = filter p this"
  by (simp add: Array_select_def pure_st_it arr.findAll_spec filter_enumerate_snd)

lemma Array_compact_filter: "Array_compact this = filter (\<lambda>v. v \<noteq> Undefined \<and> v \<noteq> Null) this"
proof -
  have "loose_eq v Null \<longleftrightarrow> v = Undefined \<or> v = Null" for v
    by (cases v) (simp_all add: loose_eq_def)
  then show ?thesis by (simp add: Array_compact_def Array_select_filter)
qed

lemma foldl_append_concat: "foldl (\<lambda>a v. a @ h v) acc xs = acc @ concat (map h xs)"
  by (induction xs arbitrary: acc) auto

lemma Array_flatten_concat: "Array_flatten this = concat (map flatten_value this)"
  by (simp add: Array_flatten_def foldl_append_concat)

lemma flatten_value_Arr: "flatten_value (Arr a xs) = concat (map flatten_value xs)"
  by (simp add: foldl_append_concat)

lemma flatten_value_flat: "v \<in> set (flatten_value w) \<Longrightarrow> \<not> is_array v"
proof (induction w arbitrary: v rule: flatten_value.induct)
  case (1 a xs)
  then show ?case unfolding flatten_value_Arr by auto
qed auto

lemma flatten_value_atom: "\<not> is_array v \<Longrightarrow> flatten_value v = [v]"
  by (cases v) auto

lemma concat_map_singleton: "(\<And>x. x \<in> set xs \<Longrightarrow> h x = [x]) \<Longrightarrow> concat (map h xs) = xs"
  by (induction xs) auto

lemma index_of_from_bounds:
  "index_of_from i v xs = - 1 \<or>
   (\<exists>k. index_of_from i v xs = int (i + k) \<and> k < length xs \<and> loose_eq (xs ! k) v \<and>
        (\<forall>j < k. \<not> loose_eq (xs ! j) v))"
proof (induction xs arbitrary: i)
  case (Cons x xs)
  show ?case
  proof (cases "loose_eq x v")
    case True
    then show ?thesis by (intro disjI2 exI [of _ 0]) simp
  next
    case False
    from Cons.IH [of "Suc i"] show ?thesis
    proof (elim disjE exE conjE)
      fix k
      assume k: "index_of_from (Suc i) v xs = int (Suc i + k)" "k < length xs"
        "loose_eq (xs ! k) v" "\<forall>j < k. \<not> loose_eq (xs ! j) v"
      then show ?thesis using False
        by (intro disjI2 exI [of _ "Suc k"]) (auto simp: nth_Cons split: nat.splits)
    qed (simp add: False)
  qed
qed simp

lemma index_of_from_neg: "index_of_from i v xs = - 1 \<longleftrightarrow> (\<forall>x \<in> set xs. \<not> loose_eq x v)"
  by (induction xs arbitrary: i) auto

lemma map_snd_enumerate: "map (\<lambda>(i, v). h v) (enumerate i xs) = map h xs"
  by (induction xs arbitrary: i) auto

lemma mset_filter_split: "mset (filter P xs) + mset (filter (\<lambda>x. \<not> P x) xs) = mset xs"
  by (induction xs) auto

section \<open>Slices\<close>

text \<open>The consecutive blocks of \<open>n\<close> elements of a list.\<close>

fun chunks :: "nat \<Rightarrow> 'a list \<Rightarrow> 'a list list" where
  "chunks n xs = (if n = 0 \<or> xs = [] then [] else take n xs # chunks n (drop n xs))"

declare chunks.simps [simp del]

lemma concat_chunks: "0 < n \<Longrightarrow> concat (chunks n xs) = xs"
  by (induction n xs rule: chunks.induct) (subst chunks.simps, auto)

lemma chunks_filled:
  "0 < n \<Longrightarrow> \<exists>pad < n. concat (map (\<lambda>sl. sl @ replicate (n - length sl) fill) (chunks n xs)) =
     xs @ replicate pad fill"
proof (induction n xs rule: chunks.induct)
  case (1 n xs)
  show ?case
  proof (cases "length xs \<le> n")
    case True
    then have "chunks n xs = (if xs = [] then [] else [xs])"
      using "1.prems" by (simp add: chunks.simps [of n xs] chunks.simps [of n "[]"])
    then show ?thesis using "1.prems" True
      by (intro exI [of _ "if xs = [] then 0 else n - length xs"]) auto
  next
    case False
    then obtain pad where "pad < n" "concat (map (\<lambda>sl. sl @ replicate (n - length sl) fill)
        (chunks n (drop n xs))) = drop n xs @ replicate pad fill"
      using "1.IH" "1.prems" by force
    then show ?thesis using False "1.prems"
      by (intro exI [of _ pad]) (subst chunks.simps, auto simp flip: append_assoc)
  qed
qed

lemma chunks_lengths:
  "0 < n \<Longrightarrow> c \<in> set (chunks n xs) \<Longrightarrow> 0 < length c \<and> length c \<le> n"
proof (induction n xs rule: chunks.induct)
  case (1 n xs)
  then show ?case by (subst (asm) (2) chunks.simps) (auto split: if_splits)
qed

lemma slice_block: "0 \<le> i \<Longrightarrow> 0 \<le> n \<Longrightarrow> slice xs i (i + n) = take (nat n) (drop (nat i) xs)"
proof -
  assume a: "0 \<le> i" "0 \<le> n"
  have c: "clip (length xs) i = min (length xs) (nat i)"
    "clip (length xs) (i + n) = min (length xs) (nat i + nat n)"
    using a by (auto simp: clip_def nat_add_distrib)
  show ?thesis
  proof (cases "nat i \<le> length xs")
    case True
    then show ?thesis unfolding slice_def c by (simp add: min_def)
  next
    case False
    then show ?thesis unfolding slice_def c by simp
  qed
qed

lemma slices_from_chunks:
  assumes n: "0 < n"
  shows "0 \<le> i + n \<Longrightarrow> slices_from n xs i acc = Some (acc @ chunks (nat n) (drop (nat (i + n)) xs))"
proof (induction "length xs - nat (i + n)" arbitrary: i acc rule: less_induct)
  case less
  let ?j = "i + n"
  show ?case
  proof (cases "?j < int (length xs)")
    case True
    have sl: "slice xs ?j (?j + n) = take (nat n) (drop (nat ?j) xs)"
      using n less.prems by (intro slice_block) auto
    have "slices_from n xs i acc = slices_from n xs ?j (acc @ [take (nat n) (drop (nat ?j) xs)])"
      by (subst slices_from.simps) (simp only: Let_def True if_True sl)
    also have "\<dots> = Some ((acc @ [take (nat n) (drop (nat ?j) xs)]) @
        chunks (nat n) (drop (nat (?j + n)) xs))"
      using True n less.prems by (intro less.hyps) auto
    also have "drop (nat (?j + n)) xs = drop (nat n) (drop (nat ?j) xs)"
      using n less.prems nat_add_distrib [of ?j n] by (simp add: add.commute)
    finally have "slices_from n xs i acc = Some (acc @ take (nat n) (drop (nat ?j) xs) #
        chunks (nat n) (drop (nat n) (drop (nat ?j) xs)))" by simp
    moreover have "nat ?j < length xs" using True less.prems by linarith
    ultimately show ?thesis using n by (subst chunks.simps) simp
  next
    case False
    then show ?thesis using n
      by (subst slices_from.simps, subst chunks.simps) simp
  qed
qed

lemma slices_from_zero_diverges:
  assumes "xs \<noteq> []"
  shows "slices_from 0 xs 0 acc = None"
proof (rule ccontr)
  assume "slices_from 0 xs 0 acc \<noteq> None"
  then obtain r where r: "slices_from 0 xs 0 acc = Some r" by auto
  have "\<not> (0 = (0::int) \<and> xs \<noteq> [] \<and> 0 = (0::int))"
  proof (rule slices_from.raw_induct
      [where P = "\<lambda>n xs i acc r. \<not> (n = 0 \<and> xs \<noteq> [] \<and> i = 0)", OF _ r])
    fix f :: "int \<Rightarrow> 'a list \<Rightarrow> int \<Rightarrow> 'a list list \<Rightarrow> 'a list list option" and n xs i acc r
    assume IH: "\<And>n xs i acc r. f n xs i acc = Some r \<Longrightarrow> \<not> (n = 0 \<and> xs \<noteq> [] \<and> i = 0)"
      and eq: "(let index' = i + n in if index' < int (length xs)
          then f n xs index' (acc @ [slice xs index' (index' + n)]) else Some acc) = Some r"
    show "\<not> (n = 0 \<and> xs \<noteq> [] \<and> i = 0)"
    proof
      assume "n = 0 \<and> xs \<noteq> [] \<and> i = 0"
      then show False using eq IH by (simp add: Let_def) blast
    qed
  qed
  with assms show False by simp
qed

section \<open>Ranges and times\<close>

abbreviation int_val :: "int \<Rightarrow> jsval" where
  "int_val z \<equiv> Num (Fin (of_int z))"

lemma js_cmp_num [simp]:
  "js_lt (Num a) (Num b) = num_lt a b" "js_le (Num a) (Num b) = num_le a b"
  by (simp_all add: js_lt_def js_le_def to_prim_def)

lemma succ_int_val: "\<bar>z + 1\<bar> \<le> 2 ^ 53 \<Longrightarrow> succ (int_val z) = Inr (int_val (z + 1))"
  using fl_of_int [of "z + 1"] by (simp add: succ_def Number_succ_def)

lemma range_loop_int:
  assumes "range_start r = int_val m" and "range_end r = int_val n"
    and "range_exclusive r = Bool True" and "\<bar>n\<bar> \<le> 2 ^ 53" and "- (2 ^ 53) \<le> m"
  shows "m \<le> k \<Longrightarrow>
    range_loop r it (int_val k) s = Some (Array_each (map int_val [k..n - 1]) it s)"
proof (induction "nat (n - k)" arbitrary: k s rule: less_induct)
  case less
  note assms [simp]
  have inc: "ObjectRange_include r (int_val k) \<longleftrightarrow> k < n"
    using less.prems by (simp add: ObjectRange_include_def)
  show ?case
  proof (cases "k < n")
    case True
    have su: "succ (int_val k) = Inr (int_val (k + 1))"
      using True less.prems assms(4,5) by (intro succ_int_val) linarith
    have IH: "range_loop r it (int_val (k + 1)) t =
        Some (Array_each (map int_val [k + 1..n - 1]) it t)" for t
      using True less.prems by (intro less.hyps) auto
    obtain u t where ut: "it (int_val k) s = (u, t)" by force
    show ?thesis
      using True by (subst range_loop.simps, cases u)
        (simp_all add: inc su IH [simplified] ut upto_rec1 act_defs)
  next
    case False
    then show ?thesis by (subst range_loop.simps) (simp add: inc act_defs)
  qed
qed

lemma Number_times_int:
  assumes "0 \<le> n" and "n \<le> 2 ^ 53"
  shows "Number_times (Fin (of_int n)) it s = Some (each_loop 0 (map int_val [0..n - 1]) it s)"
proof -
  let ?r = "ObjectRange_initialize (Num (Fin 0)) (Num (Fin (of_int n))) (Bool True)"
  have "range_loop ?r (count_calls it) (int_val 0) (0, s) =
      Some (Array_each (map int_val [0..n - 1]) (count_calls it) (0, s))"
    using assms by (intro range_loop_int [where m = 0]) (auto simp: ObjectRange_initialize_def)
  then show ?thesis
    by (simp add: Number_times_def ObjectRange_each_def ObjectRange_initialize_def
        Array_each_loop)
qed

lemma Number_times_NaN: "Number_times NaN it s = Some (Inr (), s)"
  by (simp add: Number_times_def ObjectRange_each_def ObjectRange_initialize_def
      range_loop.simps ObjectRange_include_def catch_break_def)

section \<open>Sorting, maxima and duplicates\<close>












lemma loose_eq_Num_Undefined: "\<not> loose_eq (Num n) Undefined"
  by (simp add: loose_eq_def)

lemma fold_max_some:
  "fold (\<lambda>(i, v) r. if loose_eq r Undefined \<or> js_le r (Num (Fin (k v))) then Num (Fin (k v)) else r)
     (enumerate i xs) (Num (Fin m)) = Num (Fin (Max (insert m (k ` set xs))))"
proof (induction xs arbitrary: i m)
  case (Cons x xs)
  have mx: "Max (insert m (insert (k x) (k ` set xs))) = Max (insert (max m (k x)) (k ` set xs))"
    by (cases "xs = []") (simp_all add: max.assoc)
  show ?case
  proof (cases "m \<le> k x")
    case True
    then show ?thesis using Cons.IH [of "Suc i" "k x"] mx
      by (simp add: loose_eq_Num_Undefined max_absorb2 del: Max_insert)
  next
    case False
    then show ?thesis using Cons.IH [of "Suc i" m] mx
      by (simp add: loose_eq_Num_Undefined max_absorb1 del: Max_insert)
  qed
qed simp

lemma fold_max_numbers:
  "fold (\<lambda>(i, v) r. if loose_eq r Undefined \<or> js_le r (Num (Fin (k v))) then Num (Fin (k v)) else r)
     (enumerate 0 xs) Undefined = (if xs = [] then Undefined else Num (Fin (Max (k ` set xs))))"
proof (cases xs)
  case (Cons x ys)
  have "loose_eq Undefined Undefined" by (simp add: loose_eq_def)
  then show ?thesis unfolding Cons by (simp add: fold_max_some)
qed simp

lemma fold_min_some:
  "fold (\<lambda>(i, v) r. if loose_eq r Undefined \<or> js_lt (Num (Fin (k v))) r then Num (Fin (k v)) else r)
     (enumerate i xs) (Num (Fin m)) = Num (Fin (Min (insert m (k ` set xs))))"
proof (induction xs arbitrary: i m)
  case (Cons x xs)
  have mn: "Min (insert m (insert (k x) (k ` set xs))) = Min (insert (min m (k x)) (k ` set xs))"
    by (cases "xs = []") (simp_all add: min.assoc)
  show ?case
  proof (cases "k x < m")
    case True
    then show ?thesis using Cons.IH [of "Suc i" "k x"] mn
      by (simp add: loose_eq_Num_Undefined min_absorb2 del: Min_insert)
  next
    case False
    then show ?thesis using Cons.IH [of "Suc i" m] mn
      by (simp add: loose_eq_Num_Undefined min_absorb1 del: Min_insert)
  qed
qed simp

lemma fold_min_numbers:
  "fold (\<lambda>(i, v) r. if loose_eq r Undefined \<or> js_lt (Num (Fin (k v))) r then Num (Fin (k v)) else r)
     (enumerate 0 xs) Undefined = (if xs = [] then Undefined else Num (Fin (Min (k ` set xs))))"
proof (cases xs)
  case (Cons x ys)
  have "loose_eq Undefined Undefined" by (simp add: loose_eq_def)
  then show ?thesis unfolding Cons by (simp add: fold_min_some)
qed simp

lemma fold_enumerate_map:
  "fold (\<lambda>(i, v). h v) (enumerate i (map g xs)) r = fold (\<lambda>(i, x). h (g x)) (enumerate i xs) r"
  by (induction xs arbitrary: i r) auto

text \<open>The maximum and the minimum of an array of finite numbers.\<close>

lemma max_numbers:
  "Enumerable_max (Array_each (map (\<lambda>q. Num (Fin q)) qs)) None s =
   (Inr (if qs = [] then Undefined else Num (Fin (Max (set qs)))), s)"
proof -
  have "Enumerable_max (Array_each (map (\<lambda>q. Num (Fin q)) qs)) None s =
      Enumerable_max (Array_each (map (\<lambda>q. Num (Fin q)) qs)) (Some (st_it (\<lambda>v _. v) (\<lambda>_ _ s. s))) s"
    by (simp add: Enumerable_max_def)
  then show ?thesis
    using fold_max_numbers [of "\<lambda>q. q" qs]
      fold_enumerate_map [of "\<lambda>v r. if loose_eq r Undefined \<or> js_le r v then v else r" 0 "\<lambda>q. Num (Fin q)" qs Undefined]
    by (simp only: arr.max_spec effects_id image_ident)
qed

lemma min_numbers:
  "Enumerable_min (Array_each (map (\<lambda>q. Num (Fin q)) qs)) None s =
   (Inr (if qs = [] then Undefined else Num (Fin (Min (set qs)))), s)"
proof -
  have "Enumerable_min (Array_each (map (\<lambda>q. Num (Fin q)) qs)) None s =
      Enumerable_min (Array_each (map (\<lambda>q. Num (Fin q)) qs)) (Some (st_it (\<lambda>v _. v) (\<lambda>_ _ s. s))) s"
    by (simp add: Enumerable_min_def)
  then show ?thesis
    using fold_min_numbers [of "\<lambda>q. q" qs]
      fold_enumerate_map [of "\<lambda>v r. if loose_eq r Undefined \<or> js_lt v r then v else r" 0 "\<lambda>q. Num (Fin q)" qs Undefined]
    by (simp only: arr.min_spec effects_id image_ident)
qed

lemma uniq_loop:
  fixes acc :: "jsval list"
  defines "step \<equiv> \<lambda>(index::nat, value) array. if index = 0 \<or> (if False
      then \<not> loose_eq (Array_last array) value else \<not> Array_include array value)
     then array @ [value] else array"
  assumes "i = 0 \<Longrightarrow> acc = []"
    and "\<forall>a b. a < b \<longrightarrow> b < length acc \<longrightarrow> \<not> loose_eq (acc ! a) (acc ! b)"
  shows "(\<forall>v \<in> set acc \<union> set xs. v \<in> set (fold step (enumerate i xs) acc) \<or>
      (\<exists>u \<in> set (fold step (enumerate i xs) acc). loose_eq u v)) \<and>
    set (fold step (enumerate i xs) acc) \<subseteq> set acc \<union> set xs \<and>
    (\<forall>a b. a < b \<longrightarrow> b < length (fold step (enumerate i xs) acc) \<longrightarrow>
      \<not> loose_eq (fold step (enumerate i xs) acc ! a) (fold step (enumerate i xs) acc ! b))"
  using assms(2,3)
proof (induction xs arbitrary: i acc)
  case (Cons x xs)
  let ?acc = "step (i, x) acc"
  let ?r = "fold step (enumerate (Suc i) xs) ?acc"
  have acc: "?acc = (if \<exists>u \<in> set acc. loose_eq u x then acc else acc @ [x])"
    using Cons.prems(1) by (auto simp: step_def Array_include_iff)
  have "\<forall>a b. a < b \<longrightarrow> b < length ?acc \<longrightarrow> \<not> loose_eq (?acc ! a) (?acc ! b)"
    using Cons.prems(2) by (auto simp: acc nth_append less_Suc_eq)
  note IH = Cons.IH [of "Suc i" ?acc, OF _ this, simplified]
  have r: "fold step (enumerate i (x # xs)) acc = ?r" by simp
  have sub: "set acc \<subseteq> set ?acc" "set ?acc \<subseteq> insert x (set acc)" by (auto simp: acc)
  have cover: "x \<in> set ?acc \<or> (\<exists>u \<in> set acc. loose_eq u x)" by (auto simp: acc)
  have "set a \<subseteq> set (step iv a)" for a iv by (auto simp: step_def split: prod.splits)
  then have "set a \<subseteq> set (fold step ivs a)" for a ivs
    by (induction ivs arbitrary: a) (simp_all, blast)
  then have kept: "set ?acc \<subseteq> set ?r" .
  show ?case unfolding r using IH sub cover kept by (simp add: subset_iff) blast
qed auto

section \<open>Properties\<close>

text \<open>
  \<^verbatim>\<open>eachSlice(number)\<close> with a positive number ends; it calls the iterator on consecutive
  slices, in order, that together are the array, none of them empty or longer than the number.
\<close>

theorem eachSlice_slices:
  assumes "0 < number"
  shows "\<exists>slices act. Enumerable_eachSlice number xs (st_it f g) = Some act \<and>
    concat slices = xs \<and> (\<forall>sl \<in> set slices. 0 < length sl \<and> length sl \<le> nat number) \<and>
    (\<forall>s. act s = (Inr (map (\<lambda>(i, sl). f sl i) (enumerate 0 slices)),
                 effects g (enumerate 0 slices) s))"
proof -
  let ?c = "chunks (nat number) xs"
  have "slices_from number xs (- number) [] = Some ?c"
    using slices_from_chunks [OF assms, of "- number" xs "[]"] by simp
  moreover have "Enumerable_collect (Array_each ?c) (st_it f g) s =
      (Inr (map (\<lambda>(i, sl). f sl i) (enumerate 0 ?c)), effects g (enumerate 0 ?c) s)" for s
    by (rule seq.collect_all)
  ultimately show ?thesis
    using assms concat_chunks [of "nat number" xs] chunks_lengths [of "nat number" _ xs]
    by (intro exI [of _ ?c] exI [of _ "Enumerable_collect (Array_each ?c) (st_it f g)"])
      (auto simp: Enumerable_eachSlice_def)
qed

theorem eachSlice_slices_witness:
  "\<exists>slices act. Enumerable_eachSlice 2 [Null, Undefined, Null]
      (st_it (\<lambda>sl _. length sl) (\<lambda>_ _ s. s)) = Some act \<and>
    concat slices = [Null, Undefined, Null] \<and>
    (\<forall>sl \<in> set slices. 0 < length sl \<and> length sl \<le> nat 2) \<and>
    (\<forall>s::unit. act s = (Inr (map (\<lambda>(i, sl). length sl) (enumerate 0 slices)),
       effects (\<lambda>_ _ s. s) (enumerate 0 slices) s))"
  by (rule eachSlice_slices) simp

text \<open>
  \<^verbatim>\<open>eachSlice(0)\<close> on an array that is not empty does not return.
\<close>

theorem eachSlice_zero_diverges:
  assumes "xs \<noteq> []"
  shows "Enumerable_eachSlice 0 xs iterator = None"
  using slices_from_zero_diverges [OF assms] by (simp add: Enumerable_eachSlice_def)

theorem eachSlice_zero_diverges_witness:
  "Enumerable_eachSlice 0 [Null] (\<lambda>sl _. act_ret sl :: (unit, jsval list) act) = None"
  by (rule eachSlice_zero_diverges) simp

text \<open>
  \<^verbatim>\<open>inGroupsOf(number, fillWith)\<close> with a positive number returns groups of exactly that
  many elements whose concatenation is the array followed by fewer than \<open>number\<close> fill values.
\<close>

theorem inGroupsOf_groups:
  assumes "0 < number"
  shows "\<exists>act groups pad. Enumerable_inGroupsOf number fillWith xs = Some act \<and>
    act s = (Inr groups, s) \<and> (\<forall>g \<in> set groups. length g = nat number) \<and>
    concat groups = xs @ replicate pad (if fillWith = Undefined then Null else fillWith) \<and>
    pad < nat number"
proof -
  let ?n = "nat number" and ?fill = "if fillWith = Undefined then Null else fillWith"
  let ?h = "\<lambda>sl. sl @ replicate (?n - length sl) ?fill"
  let ?c = "chunks ?n xs"
  have u: "strict_eq fillWith Undefined \<longleftrightarrow> fillWith = Undefined" by (cases fillWith) auto
  have sl: "slices_from number xs (- number) [] = Some ?c"
    using slices_from_chunks [OF assms, of "- number" xs "[]"] by simp
  have it: "(\<lambda>sl (_::nat). act_ret (?h sl)) = st_it (\<lambda>sl _. ?h sl) (\<lambda>_ _ s. s)"
    by (simp add: fun_eq_iff act_ret_def st_it_def)
  have run: "Enumerable_collect (Array_each ?c) (\<lambda>sl _. act_ret (?h sl)) s = (Inr (map ?h ?c), s)"
    unfolding it by (simp only: seq.collect_all effects_id map_snd_enumerate)
  obtain pad where pad: "concat (map ?h ?c) = xs @ replicate pad ?fill" "pad < ?n"
    using chunks_filled [of ?n ?fill xs] assms by auto
  have "\<forall>g \<in> set (map ?h ?c). length g = ?n"
    using chunks_lengths [of ?n _ xs] assms by auto
  then show ?thesis using pad run sl u
    by (intro exI [of _ "Enumerable_collect (Array_each ?c) (\<lambda>sl _. act_ret (?h sl))"]
        exI [of _ "map ?h ?c"] exI [of _ pad])
      (auto simp: Enumerable_inGroupsOf_def Enumerable_eachSlice_def)
qed

theorem inGroupsOf_groups_witness:
  "\<exists>act groups pad. Enumerable_inGroupsOf 2 Undefined [Bool True, Bool True, Bool False] = Some act \<and>
    act () = (Inr groups, ()) \<and> (\<forall>g \<in> set groups. length g = nat 2) \<and>
    concat groups = [Bool True, Bool True, Bool False] @
      replicate pad (if Undefined = Undefined then Null else Undefined) \<and> pad < nat 2"
  by (rule inGroupsOf_groups) simp



text \<open>
  \<^verbatim>\<open>max\<close> over criteria that are finite numbers is their maximum; on an empty
  collection it is \<^verbatim>\<open>undefined\<close>.
\<close>

theorem max_is_maximum:
  "Enumerable_max (Array_each xs) (Some (st_it (\<lambda>v _. Num (Fin (k v))) g)) s =
   (Inr (if xs = [] then Undefined else Num (Fin (Max (k ` set xs)))),
    effects g (enumerate 0 xs) s)"
  using fold_max_numbers [of k xs] by (simp add: arr.max_spec)

text \<open>
  \<^verbatim>\<open>partition\<close> splits the values into those the test accepts and the others: both parts
  keep the order, and together they are the values.
\<close>

theorem partition_complete:
  "\<exists>trues falses. Enumerable_partition (Array_each xs) (Some (st_it (\<lambda>v _. f v) g)) s =
     (Inr (trues, falses), effects g (enumerate 0 xs) s) \<and>
   trues = filter (\<lambda>v. truthy (f v)) xs \<and> falses = filter (\<lambda>v. \<not> truthy (f v)) xs \<and>
   mset trues + mset falses = mset xs"
  by (simp add: arr.partition_spec filter_enumerate_snd mset_filter_split del: mset_filter)

text \<open>
  \<^verbatim>\<open>detect\<close> returns the first value the test accepts, or \<^verbatim>\<open>undefined\<close>, and calls the test
  on the values up to that one only.
\<close>

theorem detect_first:
  "Enumerable_detect (Array_each xs) (st_it (\<lambda>v _. f v) (\<lambda>v i l. l @ [(i, v)])) l =
   (Inr (case find (\<lambda>v. truthy (f v)) xs of Some v \<Rightarrow> v | None \<Rightarrow> Undefined),
    l @ upto_first (\<lambda>(i, v). truthy (f v)) (enumerate 0 xs))"
proof -
  have "(case find (\<lambda>(i, v). truthy (f v)) (enumerate i xs) of Some (_, v) \<Rightarrow> v | None \<Rightarrow> Undefined) =
      (case find (\<lambda>v. truthy (f v)) xs of Some v \<Rightarrow> v | None \<Rightarrow> Undefined)" for i
    by (induction xs arbitrary: i) auto
  then show ?thesis by (simp add: arr.detect_spec effects_log)
qed

text \<open>
  \<^verbatim>\<open>flatten\<close> leaves no array inside: flattening its result changes nothing.
\<close>

theorem flatten_idempotent: "Array_flatten (Array_flatten xs) = Array_flatten xs"
  unfolding Array_flatten_concat [of "Array_flatten xs"]
  by (rule concat_map_singleton)
    (auto simp: Array_flatten_concat intro!: flatten_value_atom dest: flatten_value_flat)

text \<open>
  \<^verbatim>\<open>uniq(false)\<close> keeps one value of each class of \<^verbatim>\<open>==\<close> that it meets: every value of the
  array equals one of the result, and no later value of the result equals an earlier one.
\<close>

theorem uniq_unsorted:
  "(\<forall>v \<in> set xs. v \<in> set (Array_uniq False xs) \<or> (\<exists>u \<in> set (Array_uniq False xs). loose_eq u v)) \<and>
   set (Array_uniq False xs) \<subseteq> set xs \<and>
   (\<forall>i j. i < j \<longrightarrow> j < length (Array_uniq False xs) \<longrightarrow>
      \<not> loose_eq (Array_uniq False xs ! i) (Array_uniq False xs ! j))"
  using uniq_loop [of 0 "[]" xs] by (simp add: Array_uniq_def)

theorem uniq_unsorted_witness:
  "\<not> loose_eq (Array_uniq False [Bool True, Bool True, Null] ! 0)
     (Array_uniq False [Bool True, Bool True, Null] ! 1)"
proof -
  have "Array_uniq False [Bool True, Bool True, Null] = [Bool True, Null]" by code_simp
  then show ?thesis
    using uniq_unsorted [of "[Bool True, Bool True, Null]", THEN conjunct2, THEN conjunct2,
        rule_format, of 0 1] by simp
qed

text \<open>
  \<^verbatim>\<open>indexOf\<close> returns the first position that holds an equal value, and -1 when none does.
\<close>

theorem indexOf_first:
  "(Array_indexOf xs v = - 1 \<longleftrightarrow> (\<forall>x \<in> set xs. \<not> loose_eq x v)) \<and>
   (Array_indexOf xs v \<noteq> - 1 \<longrightarrow> (\<exists>k < length xs. Array_indexOf xs v = int k \<and>
      loose_eq (xs ! k) v \<and> (\<forall>j < k. \<not> loose_eq (xs ! j) v)))"
  using index_of_from_bounds [of 0 v xs] by (auto simp: Array_indexOf_def index_of_from_neg)

theorem indexOf_first_witness:
  "\<exists>k < length [Null, Bool True]. Array_indexOf [Null, Bool True] (Bool True) = int k \<and>
      loose_eq ([Null, Bool True] ! k) (Bool True) \<and>
      (\<forall>j < k. \<not> loose_eq ([Null, Bool True] ! j) (Bool True))"
proof -
  have "Array_indexOf [Null, Bool True] (Bool True) \<noteq> - 1" by code_simp
  then show ?thesis using indexOf_first [of "[Null, Bool True]" "Bool True"] by blast
qed

text \<open>
  \<^verbatim>\<open>n.times(iterator)\<close> for an integer \<open>n\<close> up to 2^53 returns, and calls the iterator on
  0, 1, ..., n - 1 in this order.
\<close>

theorem times_calls:
  assumes "0 \<le> n" and "n \<le> 2 ^ 53"
  shows "Number_times (Fin (of_int n)) (st_it f (\<lambda>v i l. l @ [v])) l =
    Some (Inr (), l @ map int_val [0..n - 1])"
proof -
  have "each_loop i vs (st_it f (\<lambda>v i l. l @ [v])) l = (Inr (), l @ vs)" for i vs l
    by (induction vs arbitrary: i l) (auto simp: st_it_def)
  then show ?thesis by (simp only: Number_times_int [OF assms])
qed

theorem times_calls_witness:
  "Number_times (Fin (of_int 3)) (st_it (\<lambda>_ _. ()) (\<lambda>v i l. l @ [v])) [] =
    Some (Inr (), [] @ map int_val [0..3 - 1])"
  by (rule times_calls) simp_all

end
