(* ===== verification/JS_Regex.thy ===== *)
theory JS_Regex
  imports JS_Value
begin

text \<open>
  The regular expressions of JavaScript: the pattern constructs the source uses and the
  backtracking matcher of the language standard.  The matcher returns the list of all ways
  to match, in the order in which backtracking tries them, so the first is the match.
\<close>

datatype regex =
    Empty
  | Ch "char \<Rightarrow> bool"
  | Seq regex regex
  | Alt regex regex
  | Star bool regex    \<comment> \<open>\<^verbatim>\<open>r*\<close>, or \<^verbatim>\<open>r*?\<close> when the flag is false\<close>
  | Group nat regex    \<comment> \<open>a capturing parenthesis with its number\<close>
  | Backref nat
  | Bol                \<comment> \<open>\<^verbatim>\<open>^\<close>\<close>
  | Eol                \<comment> \<open>\<^verbatim>\<open>$\<close>\<close>
  | WordB              \<comment> \<open>\<^verbatim>\<open>\b\<close>\<close>
  | Look regex         \<comment> \<open>\<^verbatim>\<open>(?=r)\<close>\<close>

type_synonym caps = "(nat \<times> (nat \<times> nat)) list"

definition Plus :: "regex \<Rightarrow> regex" where
  "Plus r = Seq r (Star True r)"

definition Opt :: "regex \<Rightarrow> regex" where
  "Opt r = Alt r Empty"

definition Lit :: "string \<Rightarrow> regex" where
  "Lit s = foldr (\<lambda>c r. Seq (Ch (\<lambda>x. x = c)) r) s Empty"

fun groups :: "regex \<Rightarrow> nat list" where
  "groups (Seq a b) = groups a @ groups b"
| "groups (Alt a b) = groups a @ groups b"
| "groups (Star _ r) = groups r"
| "groups (Group n r) = n # groups r"
| "groups (Look r) = groups r"
| "groups _ = []"

text \<open>Each iteration of a quantifier forgets the captures of its body.\<close>

definition forget :: "nat list \<Rightarrow> caps \<Rightarrow> caps" where
  "forget ns c = filter (\<lambda>(n, _). n \<notin> set ns) c"

definition word_at :: "string \<Rightarrow> int \<Rightarrow> bool" where
  "word_at s i \<longleftrightarrow> 0 \<le> i \<and> i < int (length s) \<and> is_word (s ! nat i)"

function (sequential) ways :: "string \<Rightarrow> regex \<Rightarrow> nat \<Rightarrow> caps \<Rightarrow> (nat \<times> caps) list" where
  "ways s Empty i c = [(i, c)]"
| "ways s (Ch p) i c = (if i < length s \<and> p (s ! i) then [(Suc i, c)] else [])"
| "ways s (Seq a b) i c = concat (map (\<lambda>(j, d). ways s b j d) (ways s a i c))"
| "ways s (Alt a b) i c = ways s a i c @ ways s b i c"
| "ways s (Star greedy r) i c =
     (let more = concat (map (\<lambda>(j, d). if i < j \<and> j \<le> length s then ways s (Star greedy r) j d else [])
                   (ways s r i (forget (groups r) c)))
      in if greedy then more @ [(i, c)] else (i, c) # more)"
| "ways s (Group n r) i c = map (\<lambda>(j, d). (j, (n, (i, j)) # forget [n] d)) (ways s r i c)"
| "ways s (Backref n) i c = (case map_of c n of None \<Rightarrow> [(i, c)]
     | Some (a, b) \<Rightarrow> (let t = take (b - a) (drop a s) in
         if starts t (drop i s) then [(i + length t, c)] else []))"
| "ways s Bol i c = (if i = 0 then [(i, c)] else [])"
| "ways s Eol i c = (if i = length s then [(i, c)] else [])"
| "ways s WordB i c = (if word_at s (int i - 1) \<noteq> word_at s (int i) then [(i, c)] else [])"
| "ways s (Look r) i c = (case ways s r i c of [] \<Rightarrow> [] | (_, d) # _ \<Rightarrow> [(i, d)])"
  by pat_completeness auto
termination
  by (relation "measures [\<lambda>(s, r, i, c). size r, \<lambda>(s, r, i, c). length s - i]") auto

declare ways.simps(5) [simp del]

text \<open>
  \<^verbatim>\<open>s.match(r)\<close> without the global flag: the match at the first position that has one.  It
  gives the position, the end, and the captures.
\<close>

fun search :: "string \<Rightarrow> regex \<Rightarrow> nat \<Rightarrow> nat \<Rightarrow> (nat \<times> nat \<times> caps) option" where
  "search s r 0 i = None"
| "search s r (Suc k) i = (case ways s r i [] of
     (j, c) # _ \<Rightarrow> Some (i, j, c) | [] \<Rightarrow> search s r k (Suc i))"

record match =
  m_index :: nat
  m_text :: string
  m_groups :: "(nat \<times> string) list"

definition regex_match :: "regex \<Rightarrow> string \<Rightarrow> match option" where
  "regex_match r s = map_option (\<lambda>(i, j, c).
     \<lparr>m_index = i, m_text = take (j - i) (drop i s),
      m_groups = map (\<lambda>(n, (a, b)). (n, take (b - a) (drop a s))) c\<rparr>)
     (search s r (Suc (length s)) 0)"

definition regex_test :: "regex \<Rightarrow> string \<Rightarrow> bool" where
  "regex_test r s \<longleftrightarrow> regex_match r s \<noteq> None"

text \<open>\<^verbatim>\<open>match[n]\<close>: the text of a group, \<^verbatim>\<open>undefined\<close> when it took no part in the match.\<close>

definition group :: "match \<Rightarrow> nat \<Rightarrow> jsval" where
  "group m n = (if n = 0 then Str (m_text m)
     else case map_of (m_groups m) n of Some t \<Rightarrow> Str t | None \<Rightarrow> Undefined)"

section \<open>Where a match lies\<close>

lemma starts_length: "starts t u \<Longrightarrow> length t \<le> length u"
  by (induction t u rule: starts.induct) auto

lemma in_if_D: "x \<in> set (if P then xs else []) \<Longrightarrow> P \<and> x \<in> set xs"
  by (cases P) auto

lemma ways_forward: "(j, d) \<in> set (ways s r i c) \<Longrightarrow> i \<le> length s \<Longrightarrow> i \<le> j \<and> j \<le> length s"
proof (induction s r i c arbitrary: j d rule: ways.induct)
  case (3 s a b i c)
  then obtain k e where k: "(k, e) \<in> set (ways s a i c)" "(j, d) \<in> set (ways s b k e)" by auto
  then have "i \<le> k \<and> k \<le> length s" using "3.IH"(1) "3.prems"(2) by auto
  moreover from this have "k \<le> j \<and> j \<le> length s"
    using "3.IH"(2) [OF k(1) refl k(2)] by simp
  ultimately show ?case by simp
next
  case (5 s greedy r i c)
  show ?case
  proof (cases "(j, d) = (i, c)")
    case True
    then show ?thesis using "5.prems" by simp
  next
    case False
    with "5.prems"(1) have "(j, d) \<in> set (concat (map (\<lambda>(k, e).
        if i < k \<and> k \<le> length s then ways s (Star greedy r) k e else [])
        (ways s r i (forget (groups r) c))))"
      by (simp add: ways.simps(5) [of s greedy r i c] Let_def del: set_concat split: if_splits)
        (blast+)
    then obtain k e where ke: "(k, e) \<in> set (ways s r i (forget (groups r) c))"
      "(j, d) \<in> set (if i < k \<and> k \<le> length s then ways s (Star greedy r) k e else [])"
      by (simp only: set_concat set_map UN_iff image_iff bex_simps) (auto simp only: prod.case)
    note k = ke(1) in_if_D [OF ke(2)]
    from k(2) have "k \<le> j \<and> j \<le> length s"
      using "5.IH"(2) [OF k(1) refl, of j d] by blast
    then show ?thesis using k(2) by linarith
  qed
next
  case (7 s n i c)
  show ?case
  proof (cases "map_of c n")
    case None
    then show ?thesis using 7 by simp
  next
    case (Some ab)
    let ?t = "take (snd ab - fst ab) (drop (fst ab) s)"
    have st: "starts ?t (drop i s)" and "j = i + length ?t"
      using "7.prems"(1) Some by (simp_all add: Let_def case_prod_beta del: length_take split: if_splits)
    then show ?thesis using starts_length [OF st] "7.prems"(2)
      by (simp del: length_take)
  qed
next
  case (11 s r i c)
  then show ?case by (auto split: list.splits)
next
  case (4 s a b i c)
  from "4.prems"(1) have "(j, d) \<in> set (ways s a i c) \<or> (j, d) \<in> set (ways s b i c)" by simp
  then show ?case using "4.IH"(1) [of j d] "4.IH"(2) [of j d] "4.prems"(2) by blast
next
  case (6 s n r i c)
  then show ?case by auto
qed (simp_all split: if_splits)

lemma search_bounds:
  "search s r k i = Some (a, j, c) \<Longrightarrow> k + i = Suc (length s) \<Longrightarrow>
   i \<le> a \<and> a \<le> j \<and> j \<le> length s"
proof (induction s r k i rule: search.induct)
  case (2 s r k i)
  show ?case
  proof (cases "ways s r i []")
    case Nil
    then have "Suc i \<le> a \<and> a \<le> j \<and> j \<le> length s" using 2 by auto
    then show ?thesis by simp
  next
    case (Cons w ws)
    then have "(j, c) \<in> set (ways s r i [])" "a = i" using "2.prems"(1) by (auto split: prod.splits)
    then show ?thesis using ways_forward [of j c s r i "[]"] "2.prems"(2) by auto
  qed
qed simp

lemma regex_match_bounds:
  "regex_match r s = Some m \<Longrightarrow> m_index m + length (m_text m) \<le> length s"
  by (auto simp: regex_match_def simp del: search.simps dest!: search_bounds)

section \<open>Patterns of one character\<close>

lemma ways_Ch: "ways s (Ch p) i c = (if i < length s \<and> p (s ! i) then [(Suc i, c)] else [])"
  by simp

lemma search_Ch:
  "k + i = Suc (length s) \<Longrightarrow> search s (Ch p) k i =
   (case dropWhile (\<lambda>x. \<not> p x) (drop i s) of [] \<Rightarrow> None
    | _ # rest \<Rightarrow> Some (length s - Suc (length rest), length s - length rest, []))"
proof (induction k arbitrary: i)
  case 0
  then show ?case by simp
next
  case (Suc k)
  show ?case
  proof (cases "i < length s")
    case True
    then have d: "drop i s = s ! i # drop (Suc i) s" by (simp add: Cons_nth_drop_Suc)
    have [simp]: "length s - Suc (length s - Suc i) = i" "length s - (length s - Suc i) = Suc i"
      using True by auto
    show ?thesis using True Suc by (simp add: d)
  next
    case False
    then have "i = length s" "k = 0" using Suc.prems by auto
    then show ?thesis by simp
  qed
qed

lemma search_skip:
  "(\<And>j. i \<le> j \<Longrightarrow> j < i + k \<Longrightarrow> ways s r j [] = []) \<Longrightarrow> search s r (k + n) i = search s r n (i + k)"
proof (induction k arbitrary: i)
  case (Suc k)
  have "ways s r i [] = []" by (rule Suc.prems) simp_all
  moreover have "search s r (k + n) (Suc i) = search s r n (Suc i + k)"
    by (rule Suc.IH) (simp add: Suc.prems)
  ultimately show ?case by simp
qed simp

lemma regex_match_Ch:
  "regex_match (Ch p) s =
   (case dropWhile (\<lambda>x. \<not> p x) s of [] \<Rightarrow> None
    | x # rest \<Rightarrow> Some \<lparr>m_index = length (takeWhile (\<lambda>x. \<not> p x) s), m_text = [x], m_groups = []\<rparr>)"
proof (cases "dropWhile (\<lambda>x. \<not> p x) s")
  case Nil
  then have "search s (Ch p) (Suc (length s)) 0 = None"
    using search_Ch [of "Suc (length s)" 0 s p] by (simp only: drop_0 list.case)
  then show ?thesis unfolding Nil by (simp only: regex_match_def option.map list.case)
next
  case (Cons x rest)
  let ?t = "takeWhile (\<lambda>x. \<not> p x) s"
  have s: "s = ?t @ x # rest" using Cons by (metis takeWhile_dropWhile_id)
  have l: "length s = Suc (length ?t + length rest)" by (subst s) simp
  have "search s (Ch p) (Suc (length s)) 0 = Some (length ?t, Suc (length ?t), [])"
    using search_Ch [of "Suc (length s)" 0 s p] Cons l by (simp del: search.simps)
  moreover have "take 1 (drop (length ?t) s) = [x]" by (subst (2) s) simp
  ultimately show ?thesis using Cons by (simp add: regex_match_def del: search.simps)
qed

end
