(* ===== verification/Prototype_String.thy ===== *)
theory Prototype_String
  imports Prototype_Array JS_Regex
begin

text \<open>
  The extensions of String and Number, the class Template and the JSON output of
  \<^verbatim>\<open>htdocs/prototype.js\<close>.  The values given to \<^verbatim>\<open>toJSON\<close> are not elements of a document, and objects have no
  \<^verbatim>\<open>toJSON\<close> of their own.
\<close>

section \<open>Substitution\<close>

definition String_interpret :: "jsval \<Rightarrow> string" where
  "String_interpret value = (if loose_eq value Null then [] else to_str value)"

text \<open>
  The loop of \<^verbatim>\<open>gsub\<close>.  The callback may change a state and throw.  A match of the empty
  text at the start of the rest makes no progress, and the loop does not end.
\<close>

partial_function (option) gsub_loop :: "regex \<Rightarrow> (match \<Rightarrow> ('s, jsval) act) \<Rightarrow> string \<Rightarrow> string
    \<Rightarrow> 's \<Rightarrow> ((exn + string) \<times> 's) option" where
  "gsub_loop pattern replacement result source s =
     (if source = [] then Some (Inr result, s)
      else case regex_match pattern source of
        None \<Rightarrow> Some (Inr (result @ source), s)
      | Some m \<Rightarrow> (case replacement m s of
          (Inl e, t) \<Rightarrow> Some (Inl e, t)
        | (Inr v, t) \<Rightarrow> gsub_loop pattern replacement
            (result @ take (m_index m) source @ String_interpret v)
            (drop (m_index m + length (m_text m)) source) t))"

declare gsub_loop.simps [code]

definition String_gsub :: "regex \<Rightarrow> (match \<Rightarrow> ('s, jsval) act) \<Rightarrow> string \<Rightarrow> 's
    \<Rightarrow> ((exn + string) \<times> 's) option" where
  "String_gsub pattern replacement this s = gsub_loop pattern replacement [] this s"

text \<open>A callback that has no effect, and the text \<^verbatim>\<open>gsub\<close> then returns.\<close>

definition gsub_text :: "regex \<Rightarrow> (match \<Rightarrow> jsval) \<Rightarrow> string \<Rightarrow> string option" where
  "gsub_text pattern f this =
     (case String_gsub pattern (\<lambda>m. act_ret (f m)) this () of Some (Inr r, _) \<Rightarrow> Some r | _ \<Rightarrow> None)"

text \<open>The characters other than a line end, and \<^verbatim>\<open>Template.Pattern\<close>.\<close>

definition dot :: regex where
  "dot = Ch (\<lambda>c. code c \<noteq> 10 \<and> code c \<noteq> 13)"

definition Template_Pattern :: regex where
  "Template_Pattern =
     Seq (Group 1 (Alt Bol (Alt dot (Alt (Ch (\<lambda>c. code c = 13)) (Ch (\<lambda>c. code c = 10))))))
         (Group 2 (Seq (Lit ''#{'') (Seq (Group 3 (Star False dot)) (Lit ''}''))))"

text \<open>\<open>lookup k\<close> is \<^verbatim>\<open>object[k]\<close> for the object the template is evaluated on.\<close>

definition Template_evaluate :: "string \<Rightarrow> regex \<Rightarrow> (string \<Rightarrow> jsval) \<Rightarrow> string option" where
  "Template_evaluate template pattern lookup = gsub_text pattern (\<lambda>m.
     (let prefix = to_str (group m 1) in
      if prefix = [CHR 0x5C] then group m 2
      else Str (prefix @ String_interpret (lookup (to_str (group m 3)))))) template"


text \<open>\<^verbatim>\<open>match[k]\<close> for a match: the groups, by their number as a text.\<close>

definition match_prop :: "match \<Rightarrow> string \<Rightarrow> jsval" where
  "match_prop m k = (if k \<noteq> [] \<and> list_all is_digit k \<and> digits 10 (digits_val 0 k) = k
     then group m (nat (digits_val 0 k))
     else if k = ''index'' then Num (Fin (of_nat (m_index m))) else Undefined)"

text \<open>\<^verbatim>\<open>gsub.prepareReplacement\<close> for a text: a template evaluated on the match.\<close>

definition template_replacement :: "string \<Rightarrow> match \<Rightarrow> jsval" where
  "template_replacement replacement m =
     (case Template_evaluate replacement Template_Pattern (match_prop m) of
        Some r \<Rightarrow> Str r | None \<Rightarrow> Undefined)"

text \<open>\<^verbatim>\<open>sub\<close>: the counter is a local variable of the closure.\<close>

definition String_sub :: "regex \<Rightarrow> (match \<Rightarrow> ('s, jsval) act) \<Rightarrow> int option \<Rightarrow> string \<Rightarrow> 's
    \<Rightarrow> ((exn + string) \<times> 's) option" where
  "String_sub pattern replacement cnt this s =
     map_option (\<lambda>(r, (_, t)). (r, t))
       (String_gsub pattern (\<lambda>m.
          act_bind get_local (\<lambda>n. act_bind (set_local (n - 1)) (\<lambda>_.
            if n - 1 < 0 then act_ret (group m 0) else on_rest (replacement m))))
        this ((case cnt of None \<Rightarrow> 1 | Some c \<Rightarrow> c), s))"

text \<open>\<^verbatim>\<open>scan\<close> runs the callback on every match and returns the receiver.\<close>

definition String_scan :: "regex \<Rightarrow> (match \<Rightarrow> ('s, jsval) act) \<Rightarrow> string \<Rightarrow> 's
    \<Rightarrow> ((exn + string) \<times> 's) option" where
  "String_scan pattern iterator this s =
     map_option (\<lambda>(r, t). (case r of Inl e \<Rightarrow> Inl e | Inr _ \<Rightarrow> Inr this, t))
       (String_gsub pattern iterator this s)"

section \<open>Texts\<close>

text \<open>\<^verbatim>\<open>truncate(length, truncation)\<close>; \<open>None\<close> is an argument left out.\<close>

definition String_truncate :: "int option \<Rightarrow> string option \<Rightarrow> string \<Rightarrow> string" where
  "String_truncate len truncation this =
     (let n = (case len of None \<Rightarrow> 30 | Some l \<Rightarrow> if l = 0 then 30 else l);
          tr = (case truncation of None \<Rightarrow> ''...'' | Some t \<Rightarrow> t)
      in if n < int (length this) then slice this 0 (n - int (length tr)) @ tr else this)"

text \<open>\<^verbatim>\<open>replace(r, t)\<close> without the global flag, for a text \<open>t\<close> without \<^verbatim>\<open>$\<close>.\<close>

definition replace_first :: "regex \<Rightarrow> string \<Rightarrow> string \<Rightarrow> string" where
  "replace_first r t s = (case regex_match r s of None \<Rightarrow> s
     | Some m \<Rightarrow> take (m_index m) s @ t @ drop (m_index m + length (m_text m)) s)"

text \<open>
  \<^verbatim>\<open>replace(r, t)\<close> with the global flag: matches from the end of the previous one on, or one
  position further after an empty match.  Every round moves on, so \<open>length s + 1\<close> rounds do.
\<close>

fun replace_from :: "nat \<Rightarrow> regex \<Rightarrow> string \<Rightarrow> string \<Rightarrow> nat \<Rightarrow> string" where
  "replace_from 0 r t s i = drop i s"
| "replace_from (Suc k) r t s i = (case search s r (Suc (length s) - i) i of
     None \<Rightarrow> drop i s
   | Some (a, b, _) \<Rightarrow> take (a - i) (drop i s) @ t @
       (if a < b then replace_from k r t s b
        else take 1 (drop a s) @ replace_from k r t s (Suc a)))"

definition replace_global :: "regex \<Rightarrow> string \<Rightarrow> string \<Rightarrow> string" where
  "replace_global r t s = replace_from (Suc (length s)) r t s 0"

definition String_strip :: "string \<Rightarrow> string" where
  "String_strip this = replace_first (Seq (Plus (Ch is_space)) Eol) []
     (replace_first (Seq Bol (Plus (Ch is_space))) [] this)"

definition String_stripTags :: "string \<Rightarrow> string" where
  "String_stripTags this = replace_global
     (Seq (Lit ''<'') (Seq (Opt (Lit ''/'')) (Seq (Plus (Ch (\<lambda>c. c \<noteq> CHR ''>''))) (Lit ''>'')))) [] this"

text \<open>\<^verbatim>\<open>Prototype.ScriptFragment\<close>, with the flag that ignores case.\<close>

definition LitI :: "string \<Rightarrow> regex" where
  "LitI s = foldr (\<lambda>c r. Seq (Ch (\<lambda>x. lower_char x = lower_char c)) r) s Empty"

definition ScriptFragment :: regex where
  "ScriptFragment = Seq (LitI ''<script'') (Seq (Star True (Ch (\<lambda>c. c \<noteq> CHR ''>'')))
     (Seq (Lit ''>'') (Seq (Group 1 (Star False (Ch (\<lambda>c. 1 \<le> code c)))) (LitI ''</script>''))))"

definition String_stripScripts :: "string \<Rightarrow> string" where
  "String_stripScripts this = replace_global ScriptFragment [] this"

text \<open>\<^verbatim>\<open>match\<close> with the global flag: the texts of all matches.\<close>

fun matches_from :: "nat \<Rightarrow> regex \<Rightarrow> string \<Rightarrow> nat \<Rightarrow> string list" where
  "matches_from 0 r s i = []"
| "matches_from (Suc k) r s i = (case search s r (Suc (length s) - i) i of
     None \<Rightarrow> []
   | Some (a, b, _) \<Rightarrow> take (b - a) (drop a s) #
       matches_from k r s (if a < b then b else Suc a))"

definition String_extractScripts :: "string \<Rightarrow> string list" where
  "String_extractScripts this =
     map (\<lambda>scriptTag. case regex_match ScriptFragment scriptTag of
            Some m \<Rightarrow> to_str (group m 1) | None \<Rightarrow> [])
       (matches_from (Suc (length this)) ScriptFragment this 0)"

text \<open>The versions of \<^verbatim>\<open>escapeHTML\<close> and \<^verbatim>\<open>unescapeHTML\<close> for WebKit and Internet Explorer.\<close>

definition String_escapeHTML :: "string \<Rightarrow> string" where
  "String_escapeHTML this =
     replace_chr (CHR ''>'') ''&gt;'' (replace_chr (CHR ''<'') ''&lt;''
       (replace_chr (CHR ''&'') ''&amp;'' this))"

definition String_unescapeHTML :: "string \<Rightarrow> string" where
  "String_unescapeHTML this =
     replace_all ''&gt;'' ''>'' (replace_all ''&lt;'' ''<'' (replace_all ''&amp;'' ''&'' this))"

definition String_toArray :: "string \<Rightarrow> string list" where
  "String_toArray this = map (\<lambda>c. [c]) this"

definition String_times :: "int \<Rightarrow> string \<Rightarrow> string" where
  "String_times cnt this = concat (replicate (nat cnt) this)"

definition capital :: "string \<Rightarrow> string" where
  "capital part = toUpperCase (charAt part 0) @ substring part 1 (int (length part))"

definition String_camelize :: "string \<Rightarrow> string" where
  "String_camelize this =
     (let parts = split_chr (CHR ''-'') this in
      if length parts = 1 then hd parts
      else (if charAt this 0 = ''-'' then capital (hd parts) else hd parts) @
           concat (map capital (tl parts)))"

definition String_capitalize :: "string \<Rightarrow> string" where
  "String_capitalize this = toUpperCase (charAt this 0) @
     toLowerCase (substring this 1 (int (length this)))"

definition upper_re :: regex where
  "upper_re = Ch is_upper"

definition String_underscore :: "string \<Rightarrow> string option" where
  "String_underscore this =
     Option.bind (gsub_text (Lit ''::'') (template_replacement ''/'') this) (\<lambda>a.
     Option.bind (gsub_text (Seq (Group 1 (Plus upper_re)) (Group 2 (Seq upper_re (Ch is_lower))))
       (template_replacement ''#{1}_#{2}'') a) (\<lambda>b.
     Option.bind (gsub_text (Seq (Group 1 (Ch (\<lambda>c. is_lower c \<or> is_digit c))) (Group 2 upper_re))
       (template_replacement ''#{1}_#{2}'') b) (\<lambda>c.
     map_option toLowerCase (gsub_text (Lit ''-'') (template_replacement ''_'') c))))"

definition String_dasherize :: "string \<Rightarrow> string option" where
  "String_dasherize this = gsub_text (Ch (\<lambda>c. c = CHR ''_'')) (template_replacement ''-'') this"

definition String_include :: "string \<Rightarrow> string \<Rightarrow> bool" where
  "String_include this pattern \<longleftrightarrow> indexOf this pattern > - 1"

definition String_startsWith :: "string \<Rightarrow> string \<Rightarrow> bool" where
  "String_startsWith this pattern \<longleftrightarrow> indexOf this pattern = 0"

definition String_endsWith :: "string \<Rightarrow> string \<Rightarrow> bool" where
  "String_endsWith this pattern =
     (let d = int (length this) - int (length pattern) in d \<ge> 0 \<and> lastIndexOf this pattern = d)"

definition String_empty :: "string \<Rightarrow> bool" where
  "String_empty this \<longleftrightarrow> this = []"

definition String_blank :: "string \<Rightarrow> bool" where
  "String_blank this \<longleftrightarrow> regex_test (Seq Bol (Seq (Star True (Ch is_space)) Eol)) this"

section \<open>Numbers as text and JSON\<close>

text \<open>\<^verbatim>\<open>toPaddedString(length, radix)\<close>; an omitted radix is 10.\<close>

definition Number_toPaddedString :: "int \<Rightarrow> int option \<Rightarrow> jsnum \<Rightarrow> string" where
  "Number_toPaddedString len radix this =
     (let s = num_to_radix (case radix of None \<Rightarrow> 10 | Some r \<Rightarrow> r) this
      in String_times (len - int (length s)) ''0'' @ s)"

definition Number_toColorPart :: "jsnum \<Rightarrow> string" where
  "Number_toColorPart this = Number_toPaddedString 2 (Some 16) this"

definition Number_toJSON :: "jsnum \<Rightarrow> string" where
  "Number_toJSON this = (if is_finite this then num_to_string this else ''null'')"

definition specialChar :: "(char \<times> string) list" where
  "specialChar = [(CHR 0x08, [CHR 0x5C, CHR ''b'']), (CHR 0x09, [CHR 0x5C, CHR ''t'']),
     (CHR 0x0A, [CHR 0x5C, CHR ''n'']), (CHR 0x0C, [CHR 0x5C, CHR ''f'']),
     (CHR 0x0D, [CHR 0x5C, CHR ''r'']), (CHR 0x5C, [CHR 0x5C, CHR 0x5C])]"

definition inspect_char :: "match \<Rightarrow> jsval" where
  "inspect_char m = (let c = hd (m_text m) in case map_of specialChar c of
     Some character \<Rightarrow> Str character
   | None \<Rightarrow> Str ([CHR 0x5C] @ ''u00'' @ Number_toPaddedString 2 (Some 16) (Fin (of_nat (code c)))))"

definition String_inspect :: "bool \<Rightarrow> string \<Rightarrow> string" where
  "String_inspect useDoubleQuotes this =
     (let escapedString = (case gsub_text (Ch (\<lambda>c. code c < 32 \<or> c = CHR 0x5C)) inspect_char this of
            Some r \<Rightarrow> r | None \<Rightarrow> [])
      in if useDoubleQuotes
         then [CHR 0x22] @ replace_chr (CHR 0x22) [CHR 0x5C, CHR 0x22] escapedString @ [CHR 0x22]
         else [CHR 0x27] @ replace_chr (CHR 0x27) [CHR 0x5C, CHR 0x27] escapedString @ [CHR 0x27])"

definition String_toJSON :: "string \<Rightarrow> string" where
  "String_toJSON this = String_inspect True this"

text \<open>
  \<^verbatim>\<open>Object.toJSON\<close>, \<^verbatim>\<open>Array.prototype.toJSON\<close> and \<^verbatim>\<open>Number.prototype.toJSON\<close>: \<open>None\<close> is the
  result \<^verbatim>\<open>undefined\<close>, which arrays and objects leave out.
\<close>

fun Object_toJSON :: "jsval \<Rightarrow> string option" where
  "Object_toJSON Undefined = None"
| "Object_toJSON (Func _ _) = None"
| "Object_toJSON (Bool b) = Some (to_str (Bool b))"
| "Object_toJSON Null = Some ''null''"
| "Object_toJSON (Num n) = Some (Number_toJSON n)"
| "Object_toJSON (Str s) = Some (String_toJSON s)"
| "Object_toJSON (Arr _ xs) = Some (''['' @ join '', '' (concat (map (\<lambda>v.
     case Object_toJSON v of None \<Rightarrow> [] | Some value \<Rightarrow> [value]) xs)) @ '']'')"
| "Object_toJSON (Obj _ ps) = Some (''{'' @ join '', '' (concat (map (\<lambda>(property, v).
     case Object_toJSON v of None \<Rightarrow> []
     | Some value \<Rightarrow> [String_toJSON property @ '': '' @ value]) ps)) @ ''}'')"

section \<open>Searching\<close>

lemma starts_iff: "starts p s \<longleftrightarrow> (\<exists>r. s = p @ r)"
  by (induction p s rule: starts.induct) auto

lemma index_from_cases: "index_from i p s = - 1 \<or> int i \<le> index_from i p s"
  by (induction i p s rule: index_from.induct) auto

lemma index_from_found: "index_from i p s \<noteq> - 1 \<longleftrightarrow> (\<exists>a b. s = a @ p @ b)"
proof (induction i p s rule: index_from.induct)
  case (1 i p)
  then show ?case by auto
next
  case (2 i p c s)
  have "(\<exists>a b. c # s = a @ p @ b) \<longleftrightarrow> (\<exists>b. c # s = p @ b) \<or> (\<exists>a b. s = a @ p @ b)"
    by (metis append_Cons append_Nil list.exhaust list.inject)
  then show ?case using 2 by (auto simp: starts_iff)
qed

lemma index_from_first: "index_from i p s = int i \<longleftrightarrow> starts p s"
proof (cases s)
  case (Cons c t)
  then show ?thesis using index_from_cases [of "Suc i" p t] by auto
qed (auto simp: starts_iff)

section \<open>Loops of gsub\<close>


lemma gsub_loop_stuck:
  assumes "regex_match pattern source = Some m" and "m_text m = []" and "m_index m = 0"
    and "source \<noteq> []"
  shows "gsub_loop pattern (\<lambda>m. act_ret (f m)) acc source s = None"
proof (rule ccontr)
  assume "gsub_loop pattern (\<lambda>m. act_ret (f m)) acc source s \<noteq> None"
  then obtain r where r: "gsub_loop pattern (\<lambda>m. act_ret (f m)) acc source s = Some r" by auto
  have "\<not> (pattern = pattern \<and> (\<lambda>m. act_ret (f m)) = (\<lambda>m. act_ret (f m) :: ('a, jsval) act) \<and> source = source)"
  proof (rule gsub_loop.raw_induct [where P = "\<lambda>p g acc t s r.
        \<not> (p = pattern \<and> g = (\<lambda>m. act_ret (f m)) \<and> t = source)", OF _ r])
    fix h :: "regex \<Rightarrow> (match \<Rightarrow> ('a, jsval) act) \<Rightarrow> string \<Rightarrow> string \<Rightarrow> 'a
        \<Rightarrow> ((exn + string) \<times> 'a) option" and p g acc t s r
    assume IH: "\<And>p g acc t s r. h p g acc t s = Some r \<Longrightarrow>
        \<not> (p = pattern \<and> g = (\<lambda>m. act_ret (f m)) \<and> t = source)"
      and eq: "(if t = [] then Some (Inr acc, s) else case regex_match p t of
          None \<Rightarrow> Some (Inr (acc @ t), s)
        | Some m \<Rightarrow> (case g m s of (Inl e, u) \<Rightarrow> Some (Inl e, u)
          | (Inr v, u) \<Rightarrow> h p g (acc @ take (m_index m) t @ String_interpret v)
              (drop (m_index m + length (m_text m)) t) u)) = Some r"
    show "\<not> (p = pattern \<and> g = (\<lambda>m. act_ret (f m)) \<and> t = source)"
    proof
      assume "p = pattern \<and> g = (\<lambda>m. act_ret (f m)) \<and> t = source"
      then show False using eq IH assms by (simp add: act_ret_def) blast
    qed
  qed
  then show False by simp
qed

text \<open>A pattern of one character: every such character is replaced on its own.\<close>

lemma gsub_loop_Ch:
  assumes "\<And>m. f m = g (m_text m)"
  shows "gsub_loop (Ch p) (\<lambda>m. act_ret (f m)) acc source s =
    Some (Inr (acc @ concat (map (\<lambda>c. if p c then String_interpret (g [c]) else [c]) source)), s)"
proof (induction "length source" arbitrary: acc source rule: less_induct)
  case less
  let ?h = "\<lambda>c. if p c then String_interpret (g [c]) else [c]"
  let ?t = "takeWhile (\<lambda>x. \<not> p x) source"
  have t: "concat (map ?h ?t) = ?t"
    by (rule concat_map_singleton) (auto dest: set_takeWhileD)
  show ?case
  proof (cases "dropWhile (\<lambda>x. \<not> p x) source")
    case Nil
    have eq: "?t = source" using Nil by (metis append_Nil2 takeWhile_dropWhile_id)
    have "concat (map ?h source) = source" using t unfolding eq .
    moreover have "regex_match (Ch p) source = None" unfolding regex_match_Ch Nil by simp
    ultimately show ?thesis by (subst gsub_loop.simps) simp
  next
    case (Cons x rest)
    have sp: "source = ?t @ x # rest" using Cons by (metis takeWhile_dropWhile_id)
    have px: "p x" using Cons by (metis dropWhile_eq_Cons_conv)
    have tk: "take (length ?t) source = ?t" "drop (Suc (length ?t)) source = rest"
      by (subst (2) sp, simp)+
    have "length (?t @ x # rest) = Suc (length ?t + length rest)" by simp
    then have lt: "length rest < length source" unfolding sp [symmetric] by linarith
    have "gsub_loop (Ch p) (\<lambda>m. act_ret (f m)) (acc @ ?t @ String_interpret (g [x])) rest s =
        Some (Inr ((acc @ ?t @ String_interpret (g [x])) @ concat (map ?h rest)), s)"
      by (rule less [OF lt])
    moreover have "concat (map ?h source) = ?t @ String_interpret (g [x]) @ concat (map ?h rest)"
      by (subst sp) (simp add: t px)
    moreover have "source \<noteq> []" using sp by auto
    ultimately show ?thesis
      by (subst gsub_loop.simps) (simp add: regex_match_Ch Cons tk assms act_ret_def)
  qed
qed

lemma gsub_text_Ch:
  "(\<And>m. f m = g (m_text m)) \<Longrightarrow> gsub_text (Ch p) f this =
   Some (concat (map (\<lambda>c. if p c then String_interpret (g [c]) else [c]) this))"
  by (simp add: gsub_text_def String_gsub_def gsub_loop_Ch)

section \<open>Two hexadecimal digits\<close>

lemma digits_hex1: "0 \<le> n \<Longrightarrow> n < 16 \<Longrightarrow> digits 16 n = [digit_char n]"
  by (subst digits.simps) simp

lemma digits_hex2:
  "16 \<le> n \<Longrightarrow> n < 256 \<Longrightarrow> digits 16 n = [digit_char (n div 16), digit_char (n mod 16)]"
  by (subst digits.simps) (simp add: digits_hex1)

lemma toColorPart_hex:
  assumes "0 \<le> n" and "n < 256"
  shows "Number_toColorPart (Fin (of_int n)) = [digit_char (n div 16), digit_char (n mod 16)]"
proof (cases "n < 16")
  case True
  then show ?thesis using assms
    by (simp add: Number_toColorPart_def Number_toPaddedString_def String_times_def
        digits_hex1 digit_char_0 div_pos_pos_trivial mod_pos_pos_trivial)
next
  case False
  then show ?thesis using assms
    by (simp add: Number_toColorPart_def Number_toPaddedString_def String_times_def digits_hex2)
qed

section \<open>JSON texts of strings\<close>

text \<open>A reader of string literals, after ECMAScript: the body up to the closing quote.\<close>

definition simple_escapes :: "(char \<times> char) list" where
  "simple_escapes = [(CHR ''b'', CHR 0x08), (CHR ''t'', CHR 0x09), (CHR ''n'', CHR 0x0A),
     (CHR ''f'', CHR 0x0C), (CHR ''r'', CHR 0x0D), (CHR 0x5C, CHR 0x5C), (CHR 0x22, CHR 0x22)]"

fun read_body :: "string \<Rightarrow> string option" where
  "read_body [] = None"
| "read_body (c # s) =
     (if c = CHR 0x22 then (if s = [] then Some [] else None)
      else if c = CHR 0x5C then (case s of [] \<Rightarrow> None | e # t \<Rightarrow>
        (if e = CHR ''u'' then (case t of v # w # x # y # u \<Rightarrow>
             (case (hex_val x, hex_val y) of
                (Some a, Some b) \<Rightarrow> if v = CHR ''0'' \<and> w = CHR ''0''
                  then map_option (Cons (char_of (nat (16 * a + b)))) (read_body u) else None
              | _ \<Rightarrow> None)
           | _ \<Rightarrow> None)
         else case map_of simple_escapes e of
           Some d \<Rightarrow> map_option (Cons d) (read_body t) | None \<Rightarrow> None))
      else if code c < 32 then None
      else map_option (Cons c) (read_body s))"

definition read_string :: "string \<Rightarrow> string option" where
  "read_string s = (case s of q # t \<Rightarrow> if q = CHR 0x22 then read_body t else None | [] \<Rightarrow> None)"

definition json_char :: "char \<Rightarrow> string" where
  "json_char c = (case map_of specialChar c of Some t \<Rightarrow> t
   | None \<Rightarrow> if code c < 32
       then [CHR 0x5C] @ ''u00'' @ [digit_char (int (code c) div 16), digit_char (int (code c) mod 16)]
       else if c = CHR 0x22 then [CHR 0x5C, CHR 0x22] else [c])"

lemma padded_hex:
  "Number_toPaddedString 2 (Some 16) (Fin (of_nat (code c))) =
   [digit_char (int (code c) div 16), digit_char (int (code c) mod 16)]"
  using toColorPart_hex [of "int (code c)"] code_less_256 [of c]
  by (simp add: Number_toColorPart_def)

lemma hex_parts: "0 \<le> int (code c) div 16" "int (code c) div 16 < 16"
    "0 \<le> int (code c) mod 16" "int (code c) mod 16 < 16"
proof -
  have "0 \<le> int (code c)" "int (code c) < 256" using code_less_256 [of c] by linarith+
  then show "0 \<le> int (code c) div 16" "int (code c) div 16 < 16"
    "0 \<le> int (code c) mod 16" "int (code c) mod 16 < 16" by presburger+
qed

lemma hex_digit_not_quote: "0 \<le> d \<Longrightarrow> d < 16 \<Longrightarrow> digit_char d \<noteq> CHR 0x22"
proof
  assume d: "0 \<le> d" "d < 16" and "digit_char d = CHR 0x22"
  then have "code (digit_char d) = 34" by simp
  then show False using d by (simp add: code_digit_char split: if_splits)
qed

lemma replace_chr_concat: "replace_chr q r (concat xs) = concat (map (replace_chr q r) xs)"
  by (induction xs) (simp_all add: replace_chr_def)

lemma String_toJSON_chars:
  "String_toJSON this = [CHR 0x22] @ concat (map json_char this) @ [CHR 0x22]"
proof -
  let ?p = "\<lambda>c. code c < 32 \<or> c = CHR 0x5C"
  let ?g = "\<lambda>t. case map_of specialChar (hd t) of Some character \<Rightarrow> Str character
   | None \<Rightarrow> Str ([CHR 0x5C] @ ''u00'' @ Number_toPaddedString 2 (Some 16) (Fin (of_nat (code (hd t)))))"
  have "inspect_char m = ?g (m_text m)" for m
    by (simp add: inspect_char_def Let_def)
  then have "gsub_text (Ch ?p) inspect_char this =
      Some (concat (map (\<lambda>c. if ?p c then String_interpret (?g [c]) else [c]) this))"
    by (rule gsub_text_Ch)
  moreover have "replace_chr (CHR 0x22) [CHR 0x5C, CHR 0x22]
      (if ?p c then String_interpret (?g [c]) else [c]) = json_char c" for c
    using hex_digit_not_quote [OF hex_parts(1,2), of c] hex_digit_not_quote [OF hex_parts(3,4), of c]
    by (auto simp: json_char_def specialChar_def String_interpret_def loose_eq_def padded_hex
        replace_chr_def)
  ultimately show ?thesis
    by (simp add: String_toJSON_def String_inspect_def replace_chr_concat comp_def)
qed

lemma char_of_hex_parts: "char_of (nat (16 * (int (code c) div 16) + int (code c) mod 16)) = c"
  by simp

lemma read_body_json_char: "read_body (json_char c @ t) = map_option (Cons c) (read_body t)"
  using hex_val_digit_char [OF hex_parts(1,2), of c] hex_val_digit_char [OF hex_parts(3,4), of c]
  by (auto simp: json_char_def specialChar_def simple_escapes_def)

lemma read_body_json: "read_body (concat (map json_char s) @ [CHR 0x22]) = Some s"
  by (induction s) (simp_all add: read_body_json_char)

section \<open>Replacing entities\<close>

lemma replace_chr_simps [simp]:
  "replace_chr c d [] = []"
  "replace_chr c d (x # s) = (if x = c then d else [x]) @ replace_chr c d s"
  by (simp_all add: replace_chr_def)

lemma replace_all_skip: "a \<notin> set u \<Longrightarrow> replace_all (a # p) r (u @ s) = u @ replace_all (a # p) r s"
  by (induction u) auto

lemma starts_append [simp]: "starts p (p @ s)"
  by (induction p) auto

lemma replace_all_hit: "replace_all (a # p) r (a # p @ s) = r @ replace_all (a # p) r s"
  by simp

text \<open>Inserting entities creates no match of a text that has no ampersand.\<close>

lemma starts_replace_chr:
  "a \<notin> set q \<Longrightarrow> c \<notin> set q \<Longrightarrow> starts q (replace_chr c (a # d) s) \<longleftrightarrow> starts q s"
proof (induction q s rule: starts.induct)
  case (3 p ps x s)
  then show ?case by auto
qed auto

lemma replace_chr_prefix:
  "c \<notin> set p \<Longrightarrow> replace_chr c d (p @ s) = p @ replace_chr c d s"
  by (induction p) auto

lemma starts_split: "starts p s \<longleftrightarrow> s = p @ drop (length p) s"
  unfolding starts_iff by (metis append_eq_conv_conj)

lemma replace_all_own:
  assumes "a \<notin> set q" and "c \<notin> set (a # q)"
  shows "replace_all (a # q) [c] (replace_chr c (a # q) s) = replace_all (a # q) [c] s"
proof (induction "length s" arbitrary: s rule: less_induct)
  case less
  show ?case
  proof (cases s)
    case (Cons x t)
    show ?thesis
    proof (cases "starts (a # q) s")
      case True
      then obtain u where u: "s = a # q @ u" by (auto simp: starts_iff)
      then have "replace_chr c (a # q) s = a # q @ replace_chr c (a # q) u"
        using assms replace_chr_prefix [of c "a # q"] by simp
      then show ?thesis using less [of u] by (simp only: u replace_all_hit) simp
    next
      case False
      show ?thesis
      proof (cases "x = c")
        case True
        then have "replace_all (a # q) [c] (replace_chr c (a # q) s) =
            c # replace_all (a # q) [c] (replace_chr c (a # q) t)"
          using replace_all_hit [of a q "[c]"] by (simp add: Cons)
        moreover have "replace_all (a # q) [c] s = c # replace_all (a # q) [c] t"
          using True assms by (auto simp: Cons)
        ultimately show ?thesis using less [of t] by (simp add: Cons)
      next
        case x: False
        have "\<not> starts (a # q) (x # replace_chr c (a # q) t)"
          using False assms starts_replace_chr [of a q c q t] by (auto simp: Cons)
        then show ?thesis using x False less [of t] by (simp add: Cons)
      qed
    qed
  qed simp
qed

lemma replace_all_other:
  assumes "a \<notin> set q" and "c \<notin> set (a # q)" and "c \<notin> set r" and "a \<notin> set (y # d)" and "q = x # q'" and "x \<noteq> y"
  shows "replace_all (a # q) r (replace_chr c (a # y # d) s) =
    replace_chr c (a # y # d) (replace_all (a # q) r s)"
proof (induction "length s" arbitrary: s rule: less_induct)
  case less
  let ?d = "a # y # d"
  show ?case
  proof (cases s)
    case (Cons z t)
    show ?thesis
    proof (cases "starts (a # q) s")
      case True
      then obtain u where u: "s = a # q @ u" by (auto simp: starts_iff)
      then have "replace_chr c ?d s = a # q @ replace_chr c ?d u"
        using assms replace_chr_prefix [of c "a # q"] by simp
      moreover have "replace_all (a # q) r (replace_chr c ?d u) =
          replace_chr c ?d (replace_all (a # q) r u)"
        using u by (intro less) simp
      ultimately show ?thesis
        by (simp only: u replace_all_hit replace_chr_prefix [OF assms(3)])
    next
      case False
      show ?thesis
      proof (cases "z = c")
        case True
        have "replace_all (a # q) r (a # (y # d) @ replace_chr c ?d t) =
            a # replace_all (a # q) r ((y # d) @ replace_chr c ?d t)"
          using assms(5,6) by simp
        then have "replace_all (a # q) r (replace_chr c ?d s) =
            ?d @ replace_all (a # q) r (replace_chr c ?d t)"
          using True replace_all_skip [OF assms(4), of q r] by (simp add: Cons)
        moreover have "replace_all (a # q) r s = c # replace_all (a # q) r t"
          using True assms(2) by (auto simp: Cons)
        ultimately show ?thesis using less [of t] by (simp add: Cons)
      next
        case z: False
        have "\<not> starts (a # q) (z # replace_chr c ?d t)"
          using False assms starts_replace_chr [of a q c "y # d" t] by (auto simp: Cons)
        then show ?thesis using z False less [of t] by (auto simp: Cons)
      qed
    qed
  qed simp
qed

lemma replace_all_self:
  assumes "a \<notin> set q"
  shows "replace_all (a # q) [a] (replace_chr a (a # q) s) = s"
  by (induction s) (use replace_all_hit [of a q "[a]"] in \<open>auto\<close>)

section \<open>Runs of characters\<close>

lemma ways_Star_Ch:
  "i \<le> length s \<Longrightarrow> ways s (Star True (Ch p)) i c =
   map (\<lambda>j. (j, c)) (rev [i..<Suc (i + length (takeWhile p (drop i s)))])"
proof (induction "length s - i" arbitrary: i)
  case 0
  then show ?case by (simp add: ways.simps(5) forget_def)
next
  case (Suc n)
  have d: "drop i s = s ! i # drop (Suc i) s" using Suc.hyps(2) by (simp add: Cons_nth_drop_Suc)
  show ?case
  proof (cases "p (s ! i)")
    case True
    have "ways s (Star True (Ch p)) (Suc i) c =
        map (\<lambda>j. (j, c)) (rev [Suc i..<Suc (Suc i + length (takeWhile p (drop (Suc i) s)))])"
      using Suc by (intro Suc.hyps(1)) auto
    moreover have "[i..<Suc (i + length (takeWhile p (drop i s)))] =
        i # [Suc i..<Suc (Suc i + length (takeWhile p (drop (Suc i) s)))]"
      using True by (subst upt_rec) (simp add: d)
    ultimately show ?thesis using True Suc.hyps(2)
      by (subst ways.simps(5)) (simp add: forget_def del: upt_Suc)
  next
    case False
    then show ?thesis by (subst ways.simps(5)) (simp add: d)
  qed
qed

lemma ways_Plus_Ch:
  "i \<le> length s \<Longrightarrow> ways s (Plus (Ch p)) i c =
   map (\<lambda>j. (j, c)) (rev [Suc i..<Suc (i + length (takeWhile p (drop i s)))])"
proof (cases "i < length s \<and> p (s ! i)")
  case True
  then have "drop i s = s ! i # drop (Suc i) s" by (simp add: Cons_nth_drop_Suc)
  then show ?thesis using True by (simp add: Plus_def ways_Star_Ch)
next
  case False
  assume "i \<le> length s"
  then have "takeWhile p (drop i s) = []" using False
    by (metis drop_all Cons_nth_drop_Suc not_le takeWhile.simps)
  then show ?thesis using False by (auto simp: Plus_def)
qed

section \<open>White space at the ends\<close>

lemma search_Bol: "0 < i \<Longrightarrow> search s (Seq Bol r) k i = None"
  by (induction k arbitrary: i) auto

lemma strip_left: "replace_first (Seq Bol (Plus (Ch p))) [] s = dropWhile p s"
proof -
  let ?n = "length (takeWhile p s)"
  have w: "ways s (Seq Bol (Plus (Ch p))) 0 [] = map (\<lambda>j. (j, [])) (rev [Suc 0..<Suc ?n])"
    by (simp add: ways_Plus_Ch del: upt_Suc)
  show ?thesis
  proof (cases "takeWhile p s = []")
    case True
    then show ?thesis
      by (auto simp: replace_first_def regex_match_def w search_Bol simp del: ways.simps upt_Suc
          simp flip: dropWhile_eq_self_iff split: list.splits)
        (metis append_Nil takeWhile_dropWhile_id)
  next
    case False
    then have "regex_match (Seq Bol (Plus (Ch p))) s =
        Some \<lparr>m_index = 0, m_text = take ?n s, m_groups = []\<rparr>"
      by (simp add: regex_match_def w Suc_le_eq del: ways.simps)
    then show ?thesis
      by (simp add: replace_first_def dropWhile_eq_drop min_def length_takeWhile_le)
  qed
qed

lemma ways_trailing:
  "i \<le> length s \<Longrightarrow> ways s (Seq (Plus (Ch p)) Eol) i [] =
   (if i < length s \<and> list_all p (drop i s) then [(length s, [])] else [])"
proof -
  assume i: "i \<le> length s"
  let ?n = "length (takeWhile p (drop i s))"
  have n: "?n = length s - i \<longleftrightarrow> list_all p (drop i s)"
    using takeWhile_eq_all_conv [of p "drop i s"] length_takeWhile_le [of p "drop i s"]
    by (metis length_drop list_all_iff takeWhile_eq_take take_all_iff nle_le)
  have le: "i + ?n \<le> length s" using length_takeWhile_le [of p "drop i s"] i by simp
  have none: "concat (map (\<lambda>j. if j = length s then [(j, [])] else []) (rev [a..<b])) = []"
    if "b \<le> length s" for a b :: nat using that by auto
  have "ways s (Seq (Plus (Ch p)) Eol) i [] =
      concat (map (\<lambda>j. if j = length s then [(j, [])] else []) (rev [Suc i..<Suc (i + ?n)]))"
    by (simp add: ways_Plus_Ch [OF i] comp_def del: upt_Suc)
  also have "\<dots> = (if Suc i \<le> i + ?n \<and> i + ?n = length s then [(length s, [])] else [])"
    using none le by (cases ?n) (simp_all del: upt_Suc add: upt_Suc_append none)
  also have "\<dots> = (if i < length s \<and> list_all p (drop i s) then [(length s, [])] else [])"
    using n i by auto
  finally show ?thesis .
qed

lemma trim_right_le: "length (trim_right s) \<le> length s"
  using length_dropWhile_le [of is_space "rev s"] by (simp add: trim_right_def)

lemma trim_right_split:
  "s = trim_right s @ drop (length (trim_right s)) s" "list_all is_space (drop (length (trim_right s)) s)"
  "trim_right s \<noteq> [] \<Longrightarrow> \<not> is_space (last (trim_right s))"
proof -
  have e: "s = trim_right s @ rev (takeWhile is_space (rev s))"
    unfolding trim_right_def by (metis rev_append rev_rev_ident takeWhile_dropWhile_id)
  then have d: "drop (length (trim_right s)) s = rev (takeWhile is_space (rev s))"
    by (metis append_eq_conv_conj)
  show "s = trim_right s @ drop (length (trim_right s)) s" using e by (simp only: d)
  show "list_all is_space (drop (length (trim_right s)) s)"
    by (auto simp: d list_all_iff dest: set_takeWhileD)
  show "trim_right s \<noteq> [] \<Longrightarrow> \<not> is_space (last (trim_right s))"
    unfolding trim_right_def by (simp add: last_rev hd_dropWhile)
qed

lemma search_trailing:
  "k + i = Suc (length s) \<Longrightarrow> i \<le> length (trim_right s) \<Longrightarrow>
   search s (Seq (Plus (Ch is_space)) Eol) k i =
   (if length (trim_right s) < length s then Some (length (trim_right s), length s, []) else None)"
proof (induction k arbitrary: i)
  case 0
  then show ?case using trim_right_le [of s] by simp
next
  case (Suc k)
  let ?t = "trim_right s"
  have il: "i \<le> length s" and k0: "i = length s \<Longrightarrow> k = 0" using Suc.prems(1) by auto
  show ?case
  proof (cases "i = length ?t")
    case True
    then show ?thesis using trim_right_split(2) [of s] ways_trailing [OF il, of is_space] k0 il
      by (cases "i < length s") (simp_all del: ways.simps)
  next
    case False
    then have lt: "i < length ?t" using Suc.prems(2) by simp
    then have l: "last (drop i ?t) = last ?t" "drop i ?t \<noteq> []" by simp_all
    have "drop i s = drop i ?t @ drop (length ?t) s"
      using lt arg_cong [OF trim_right_split(1) [of s], of "drop i"] by (simp only: drop_append) simp
    then have "last ?t \<in> set (drop i s)"
      using last_in_set [OF l(2)] by (simp only: l(1) set_append Un_iff simp_thms)
    then have "\<not> list_all is_space (drop i s)"
      using trim_right_split(3) [of s] lt by (force simp: list_all_iff)
    then show ?thesis using Suc.IH [of "Suc i"] Suc.prems lt ways_trailing [OF il, of is_space]
      by (simp del: ways.simps)
  qed
qed

lemma strip_right: "replace_first (Seq (Plus (Ch is_space)) Eol) [] s = trim_right s"
proof -
  have "take (length (trim_right s)) s = trim_right s"
    using trim_right_split(1) [of s] by (metis append_eq_conv_conj)
  then show ?thesis using trim_right_split(1) [of s]
    by (auto simp: replace_first_def regex_match_def search_trailing simp del: search.simps ways.simps)
qed

section \<open>Dashes\<close>

lemma split_chr_free: "part \<in> set (split_chr sep s) \<Longrightarrow> sep \<notin> set part"
proof (induction s arbitrary: part)
  case (Cons c s)
  have "split_chr sep s \<noteq> []" by (cases s) auto
  then show ?case using Cons by (auto split: if_splits dest: list.set_sel(2) hd_in_set)
qed simp

lemma upper_char_no_dash: "c \<noteq> CHR ''-'' \<Longrightarrow> CHR ''-'' \<notin> set (upper_char c)"
proof
  assume c: "c \<noteq> CHR ''-''" and "CHR ''-'' \<in> set (upper_char c)"
  then have e: "CHR ''-'' = char_of (code c - 32)" and l: "97 \<le> code c"
    by (auto simp: upper_char_def is_lower_def split: if_splits)
  from e have "code (CHR ''-'') = (code c - 32) mod 256"
    by (metis of_char_of of_nat_id)
  then show False using l code_less_256 [of c] by simp
qed

lemma capital_no_dash: "CHR ''-'' \<notin> set part \<Longrightarrow> CHR ''-'' \<notin> set (capital part)"
proof -
  assume p: "CHR ''-'' \<notin> set part"
  have "CHR ''-'' \<notin> set (toUpperCase (charAt part 0))"
    using p upper_char_no_dash [of "hd part"]
    by (cases part) (auto simp: toUpperCase_def charAt_def)
  moreover have "set (substring part 1 (int (length part))) \<subseteq> set part"
    by (auto simp: substring_def Let_def dest: in_set_takeD in_set_dropD)
  ultimately show ?thesis using p by (auto simp: capital_def)
qed

section \<open>Properties of texts\<close>

text \<open>
  C22: reading the JSON text of a string as a string literal gives the string back, for every
  string, control characters, quotes and backslashes included.
\<close>

theorem toJSON_reads_back: "read_string (String_toJSON this) = Some this"
  by (simp add: String_toJSON_chars read_string_def read_body_json)


text \<open>
  C38: \<^verbatim>\<open>s.escapeHTML().unescapeHTML()\<close> is not always \<open>s\<close>: it is \<open>s\<close> with the entities for less-than and
  greater-than replaced, because \<^verbatim>\<open>unescapeHTML\<close> replaces the ampersand entity first.  A text
  without these two entities comes back unchanged, the text of the entity itself does not.
\<close>

theorem unescape_escape:
  "String_unescapeHTML (String_escapeHTML this) =
     replace_all ''&gt;'' ''>'' (replace_all ''&lt;'' ''<'' this) \<and>
   String_unescapeHTML (String_escapeHTML ''&lt;'') = ''<''"
proof -
  have amp: "replace_all ''&amp;'' ''&'' (replace_chr c (CHR ''&'' # y # d) t) =
      replace_chr c (CHR ''&'' # y # d) (replace_all ''&amp;'' ''&'' t)"
    if "c \<notin> {CHR ''&'', CHR ''a'', CHR ''m'', CHR ''p'', CHR '';''}" "CHR ''&'' \<notin> set (y # d)" "y \<noteq> CHR ''a''"
    for c y d t using that by (intro replace_all_other [where x = "CHR ''a''"]) auto
  have e: "String_unescapeHTML (String_escapeHTML s) =
     replace_all ''&gt;'' ''>'' (replace_all ''&lt;'' ''<'' s)" for s
    unfolding String_unescapeHTML_def String_escapeHTML_def
    using replace_all_self [of "CHR ''&''" "''amp;''" s] replace_all_own [of "CHR ''&''" "''lt;''" "CHR ''<''" s]
      replace_all_own [of "CHR ''&''" "''gt;''" "CHR ''>''" "replace_all ''&lt;'' ''<'' s"]
      replace_all_other [of "CHR ''&''" "''lt;''" "CHR ''>''" "''<''" "CHR ''g''" "''t;''" "CHR ''l''" "''t;''"
        "replace_chr (CHR ''<'') ''&lt;'' s"]
    by (simp add: amp)
  show ?thesis by (simp add: e)
qed

text \<open>
  \<^verbatim>\<open>truncate(length, truncation)\<close> with a length that has room for the truncation text returns
  at most \<open>length\<close> characters; a shorter text is returned as it is.
\<close>

theorem truncate_length:
  assumes "0 < n" and "int (length t) \<le> n"
  shows "length (String_truncate (Some n) (Some t) this) = min (length this) (nat n) \<and>
    (length this \<le> nat n \<longrightarrow> String_truncate (Some n) (Some t) this = this)"
  using assms by (auto simp: String_truncate_def slice_def clip_def Let_def)

theorem truncate_length_witness:
  "length (String_truncate (Some 5) (Some ''..'') ''abcdefgh'') = min (length ''abcdefgh'') (nat 5) \<and>
    (length ''abcdefgh'' \<le> nat 5 \<longrightarrow> String_truncate (Some 5) (Some ''..'') ''abcdefgh'' = ''abcdefgh'')"
  by (rule truncate_length) simp_all

text \<open>
  \<^verbatim>\<open>truncate\<close> with a length below that of the truncation text can return a text that is
  longer than asked for, and even longer than the receiver.
\<close>

theorem truncate_too_long:
  "String_truncate (Some 2) None ''hello world'' = ''hello worl...'' \<and>
   length (String_truncate (Some 2) None ''hello world'') > length ''hello world''"
  by (simp add: String_truncate_def slice_def clip_def Let_def)

text \<open>
  \<^verbatim>\<open>strip\<close>, two searches with regular expressions, removes exactly the white space at the start
  and at the end of the text.
\<close>

theorem strip_trims: "String_strip this = trim_right (dropWhile is_space this)"
  by (simp add: String_strip_def strip_left strip_right)

text \<open>
  \<^verbatim>\<open>startsWith\<close>, \<^verbatim>\<open>endsWith\<close> and \<^verbatim>\<open>include\<close> decide whether the pattern is a prefix, a suffix, or
  occurs in the text.
\<close>

theorem text_tests:
  "(String_startsWith this pattern \<longleftrightarrow> (\<exists>r. this = pattern @ r)) \<and>
   (String_endsWith this pattern \<longleftrightarrow> (\<exists>r. this = r @ pattern)) \<and>
   (String_include this pattern \<longleftrightarrow> (\<exists>a b. this = a @ pattern @ b))"
proof (intro conjI)
  show "String_startsWith this pattern \<longleftrightarrow> (\<exists>r. this = pattern @ r)"
    using index_from_first [of 0 pattern this]
    by (simp add: String_startsWith_def indexOf_def starts_iff)
  show "String_include this pattern \<longleftrightarrow> (\<exists>a b. this = a @ pattern @ b)"
    using index_from_found [of 0 pattern this] index_from_cases [of 0 pattern this]
    by (auto simp: String_include_def indexOf_def)
  have "lastIndexOf this pattern = int (length this) - int (length pattern) \<longleftrightarrow>
      (\<exists>r. this = r @ pattern)" if "length pattern \<le> length this"
    using that index_from_first [of 0 "rev pattern" "rev this"]
      index_from_cases [of 0 "rev pattern" "rev this"]
    by (auto simp: lastIndexOf_def Let_def starts_iff) (metis rev_append rev_rev_ident)+
  then show "String_endsWith this pattern \<longleftrightarrow> (\<exists>r. this = r @ pattern)"
    by (cases "length pattern \<le> length this") (auto simp: String_endsWith_def Let_def)
qed



text \<open>
  C40: \<^verbatim>\<open>gsub\<close> does not return when the pattern matches the empty text at the start of the
  receiver, as \<^verbatim>\<open>/x*/\<close> does on a text that does not start with an x.
\<close>

theorem gsub_diverges:
  assumes "regex_match pattern this = Some m" and "m_text m = []" and "m_index m = 0"
    and "this \<noteq> []"
  shows "String_gsub pattern (\<lambda>m. act_ret (f m)) this s = None"
  using gsub_loop_stuck [OF assms, of f "[]" s] by (simp add: String_gsub_def)

theorem gsub_diverges_witness:
  "String_gsub (Star True (Ch (\<lambda>c. c = CHR ''x''))) (\<lambda>m. act_ret Null) ''abc'' () = None"
  by (rule gsub_diverges [where m = "\<lparr>m_index = 0, m_text = [], m_groups = []\<rparr>"])
    (simp_all add: regex_match_def ways.simps(5))

text \<open>
  \<^verbatim>\<open>camelize\<close> removes every dash.
\<close>

theorem camelize_no_dash: "CHR ''-'' \<notin> set (String_camelize this)"
proof -
  have p: "CHR ''-'' \<notin> set part" if "part \<in> set (split_chr (CHR ''-'') this)" for part
    using that split_chr_free by blast
  have c: "CHR ''-'' \<notin> set (capital part)" if "part \<in> set (split_chr (CHR ''-'') this)" for part
    using p [OF that] by (rule capital_no_dash)
  have "split_chr (CHR ''-'') this \<noteq> []" by (cases this) auto
  then show ?thesis using p c
    by (auto simp: String_camelize_def Let_def hd_in_set dest: list.set_sel(2))
qed

end
