(* ===== verification/Prototype_Hash.thy ===== *)
theory Prototype_Hash
  imports Prototype_String
begin

text \<open>
  Objects, the class Hash and query strings of \<^verbatim>\<open>htdocs/prototype.js\<close>.  A hash is the list of
  its own properties in the order \<^verbatim>\<open>for (key in this)\<close> visits them.  \<open>proto k\<close> is
  \<^verbatim>\<open>Hash.prototype[k]\<close>, the method a hash inherits under the name \<open>k\<close>, or \<^verbatim>\<open>undefined\<close>; \<open>inherited k\<close> is
  what a plain object inherits under that name, such as \<^verbatim>\<open>toString\<close>.
\<close>

section \<open>Objects\<close>

definition Object_extend :: "('k \<times> 'v) list \<Rightarrow> ('k \<times> 'v) list \<Rightarrow> ('k \<times> 'v) list" where
  "Object_extend destination source = foldl (\<lambda>d (property, v). set_prop property v d) destination source"

definition Object_keys :: "('k \<times> 'v) list \<Rightarrow> 'k list" where
  "Object_keys object = map fst object"

definition Object_values :: "('k \<times> 'v) list \<Rightarrow> 'v list" where
  "Object_values object = map snd object"

definition Object_clone :: "('k \<times> 'v) list \<Rightarrow> ('k \<times> 'v) list" where
  "Object_clone object = Object_extend [] object"

section \<open>Hash\<close>

text \<open>
  \<^verbatim>\<open>Hash.prototype._each\<close>: every own property, less those whose value is the inherited method
  of the same name.  The inherited methods themselves are skipped by the same test.
\<close>

definition Hash_items :: "(string \<Rightarrow> jsval) \<Rightarrow> props \<Rightarrow> (string \<times> jsval) list" where
  "Hash_items proto this = filter (\<lambda>(key, value). \<not> (truthy value \<and> loose_eq value (proto key))) this"

definition Hash_each :: "(string \<Rightarrow> jsval) \<Rightarrow> props \<Rightarrow> ('s, string \<times> jsval) each" where
  "Hash_each proto this iterator = Array_each (Hash_items proto this) iterator"

definition Hash_keys :: "(string \<Rightarrow> jsval) \<Rightarrow> props \<Rightarrow> ('s, string list) act" where
  "Hash_keys proto this = Enumerable_collect (Hash_each proto this) (\<lambda>pair _. act_ret (fst pair))"

definition Hash_values :: "(string \<Rightarrow> jsval) \<Rightarrow> props \<Rightarrow> ('s, jsval list) act" where
  "Hash_values proto this = Enumerable_collect (Hash_each proto this) (\<lambda>pair _. act_ret (snd pair))"

text \<open>\<^verbatim>\<open>merge\<close>: an \<^verbatim>\<open>inject\<close> over the argument, whose memo is the receiver.\<close>

definition Hash_merge :: "(string \<Rightarrow> jsval) \<Rightarrow> props \<Rightarrow> props \<Rightarrow> ('s, props) act" where
  "Hash_merge proto hash this = Enumerable_inject (Hash_each proto hash) this
     (\<lambda>mergedHash pair _. act_ret (set_prop (fst pair) (snd pair) mergedHash))"

text \<open>\<^verbatim>\<open>new Hash(object)\<close>, of another hash or of a plain object.\<close>

definition Hash_new :: "(string \<Rightarrow> jsval) \<Rightarrow> bool \<Rightarrow> props \<Rightarrow> ('s, props) act" where
  "Hash_new proto is_hash object =
     (if is_hash then Hash_merge proto object [] else act_ret (Object_extend [] object))"

definition hash_get :: "(string \<Rightarrow> jsval) \<Rightarrow> props \<Rightarrow> string \<Rightarrow> jsval" where
  "hash_get proto this k = (case map_of this k of Some v \<Rightarrow> v | None \<Rightarrow> proto k)"

text \<open>
  One round of \<^verbatim>\<open>remove\<close>: the value, when there is one, becomes the result or is appended to an
  array of results; \<open>a\<close> is the address of that array.  Reading \<^verbatim>\<open>constructor\<close> of a result \<^verbatim>\<open>null\<close> throws.
\<close>

definition remove_step :: "(string \<Rightarrow> jsval) \<Rightarrow> nat \<Rightarrow> string \<Rightarrow> jsval \<Rightarrow> (props, jsval) act" where
  "remove_step proto a k result this =
     (let value = hash_get proto this k; this' = del_prop k this in
      if strict_eq value Undefined then (Inr result, this')
      else if strict_eq result Undefined then (Inr value, this')
      else case result of
        Null \<Rightarrow> (Inl TypeError, this)
      | Arr b rs \<Rightarrow> (Inr (Arr b (rs @ [value])), this')
      | _ \<Rightarrow> (Inr (Arr a [result, value]), this'))"

fun remove_loop :: "(string \<Rightarrow> jsval) \<Rightarrow> nat \<Rightarrow> string list \<Rightarrow> jsval \<Rightarrow> (props, jsval) act" where
  "remove_loop proto a [] result = act_ret result"
| "remove_loop proto a (k # ks) result = act_bind (remove_step proto a k result) (remove_loop proto a ks)"

definition Hash_remove :: "(string \<Rightarrow> jsval) \<Rightarrow> nat \<Rightarrow> string list \<Rightarrow> (props, jsval) act" where
  "Hash_remove proto a ks = remove_loop proto a ks Undefined"

definition Hash_toJSON :: "(string \<Rightarrow> jsval) \<Rightarrow> props \<Rightarrow> string" where
  "Hash_toJSON proto object = ''{'' @ join '', '' (concat (map (\<lambda>(key, v).
     case Object_toJSON v of None \<Rightarrow> []
     | Some value \<Rightarrow> [String_toJSON key @ '': '' @ value]) (Hash_items proto object))) @ ''}''"

section \<open>Query strings\<close>

text \<open>\<^verbatim>\<open>encodeURIComponent\<close>: code units from 128 on become the two octets of their UTF-8 form.\<close>

definition uri_unreserved :: "char \<Rightarrow> bool" where
  "uri_unreserved c \<longleftrightarrow> is_digit c \<or> is_upper c \<or> is_lower c \<or>
     c \<in> {CHR ''-'', CHR ''_'', CHR ''.'', CHR ''!'', CHR ''~'', CHR ''*'', CHR 0x27, CHR ''('', CHR '')''}"

definition hex_upper :: "int \<Rightarrow> char" where
  "hex_upper d = char_of (if d < 10 then 48 + nat d else 55 + nat d)"

definition pct :: "int \<Rightarrow> string" where
  "pct n = [CHR ''%'', hex_upper (n div 16), hex_upper (n mod 16)]"

definition encode_char :: "char \<Rightarrow> string" where
  "encode_char c = (if uri_unreserved c then [c]
     else if code c < 128 then pct (int (code c))
     else pct (192 + int (code c) div 64) @ pct (128 + int (code c) mod 64))"

definition encodeURIComponent :: "string \<Rightarrow> string" where
  "encodeURIComponent s = concat (map encode_char s)"

definition toQueryString_addPair :: "string \<Rightarrow> jsval \<Rightarrow> string" where
  "toQueryString_addPair key value =
     (if strict_eq value Undefined then encodeURIComponent key
      else encodeURIComponent key @ ''='' @
        (if loose_eq value Null then [] else encodeURIComponent (to_str value)))"

definition query_parts :: "string \<times> jsval \<Rightarrow> string list" where
  "query_parts pair = (case pair of (key, value) \<Rightarrow>
     if key = [] then []
     else case value of
       Arr _ vs \<Rightarrow> map (toQueryString_addPair key) vs
     | Obj _ _ \<Rightarrow> []
     | _ \<Rightarrow> [toQueryString_addPair key value])"

definition Hash_toQueryString :: "(string \<Rightarrow> jsval) \<Rightarrow> props \<Rightarrow> string" where
  "Hash_toQueryString proto obj = join ''&'' (concat (map query_parts (Hash_items proto obj)))"

text \<open>
  \<^verbatim>\<open>decodeURIComponent\<close>: percent sequences are read as UTF-8, and throw a URIError when they are
  not well formed.  The result is the list of code points.
\<close>

definition pct_byte :: "string \<Rightarrow> (int \<times> string) option" where
  "pct_byte s = (case s of p # x # y # t \<Rightarrow> (if p = CHR ''%'' then
       (case (hex_val x, hex_val y) of (Some a, Some b) \<Rightarrow> Some (16 * a + b, t) | _ \<Rightarrow> None)
     else None) | _ \<Rightarrow> None)"

fun continuation :: "nat \<Rightarrow> int \<Rightarrow> string \<Rightarrow> (int \<times> string) option" where
  "continuation 0 v s = Some (v, s)"
| "continuation (Suc n) v s = (case pct_byte s of None \<Rightarrow> None
     | Some (b, t) \<Rightarrow> if 128 \<le> b \<and> b < 192 then continuation n (64 * v + (b - 128)) t else None)"

definition decode_point :: "string \<Rightarrow> (int \<times> string) option" where
  "decode_point s = (case pct_byte s of None \<Rightarrow> None
     | Some (b, t) \<Rightarrow>
       if b < 128 then Some (b, t)
       else if 194 \<le> b \<and> b < 224 then continuation 1 (b - 192) t
       else if 224 \<le> b \<and> b < 240 then
         (case continuation 2 (b - 224) t of None \<Rightarrow> None
          | Some (v, u) \<Rightarrow> if 2048 \<le> v \<and> \<not> (55296 \<le> v \<and> v < 57344) then Some (v, u) else None)
       else if 240 \<le> b \<and> b < 245 then
         (case continuation 3 (b - 240) t of None \<Rightarrow> None
          | Some (v, u) \<Rightarrow> if 65536 \<le> v \<and> v < 1114112 then Some (v, u) else None)
       else None)"

lemma pct_byte_shorter: "pct_byte s = Some (b, t) \<Longrightarrow> length t < length s"
  by (auto simp: pct_byte_def split: list.splits option.splits if_splits)

lemma continuation_shorter: "continuation n v s = Some (w, t) \<Longrightarrow> length t \<le> length s"
proof (induction n arbitrary: v s)
  case (Suc n)
  then obtain b u where "pct_byte s = Some (b, u)" "continuation n (64 * v + (b - 128)) u = Some (w, t)"
    by (auto split: option.splits if_splits)
  then show ?case using Suc.IH pct_byte_shorter by fastforce
qed simp

lemma decode_point_shorter: "decode_point s = Some (v, t) \<Longrightarrow> length t < length s"
  by (auto simp: decode_point_def simp del: continuation.simps
      split: option.splits if_splits dest!: pct_byte_shorter continuation_shorter)

function decode_points :: "string \<Rightarrow> int list option" where
  "decode_points s = (case s of [] \<Rightarrow> Some []
     | c # u \<Rightarrow> if c \<noteq> CHR ''%'' then map_option (Cons (int (code c))) (decode_points u)
       else (case decode_point s of None \<Rightarrow> None
             | Some (v, t) \<Rightarrow> map_option (Cons v) (decode_points t)))"
  by pat_completeness auto
termination
  by (relation "measure length") (auto dest: decode_point_shorter)

declare decode_points.simps [simp del]

text \<open>The decoded text, where it lies in Latin-1: \<open>None\<close> is a text the model does not represent.\<close>

definition decodeURIComponent :: "string \<Rightarrow> (exn + string) option" where
  "decodeURIComponent s = (case decode_points s of None \<Rightarrow> Some (Inl URIError)
     | Some vs \<Rightarrow> if list_all (\<lambda>v. v < 256) vs then Some (Inr (map (\<lambda>v. char_of (nat v)) vs)) else None)"

text \<open>
  One \<^verbatim>\<open>name=value\<close> of a query string: the name and the value, decoded.  \<open>None\<close> inside is a part with
  an empty name, which is skipped.
\<close>

definition query_pair :: "string \<Rightarrow> (exn + (string \<times> jsval) option) option" where
  "query_pair pair = (case split_chr (CHR ''='') pair of
     [] \<Rightarrow> Some (Inr None)
   | name # rest \<Rightarrow> if name = [] then Some (Inr None)
     else case decodeURIComponent name of
       None \<Rightarrow> None
     | Some (Inl e) \<Rightarrow> Some (Inl e)
     | Some (Inr key) \<Rightarrow>
         if rest = [] then Some (Inr (Some (key, Undefined)))
         else map_option (map_sum id (\<lambda>v. Some (key, Str v)))
           (decodeURIComponent (if 1 < length rest then join ''='' rest else hd rest)))"

text \<open>
  Storing a value: a name that is already there, or that the object inherits, collects its values
  in an array.  \<open>a\<close> is the address of a new array.
\<close>

definition query_store :: "(string \<Rightarrow> jsval option) \<Rightarrow> nat \<Rightarrow> string \<Rightarrow> jsval \<Rightarrow> props \<Rightarrow> exn + props" where
  "query_store inherited a key value hash =
     (case (case map_of hash key of Some v \<Rightarrow> Some v | None \<Rightarrow> inherited key) of
        None \<Rightarrow> Inr (set_prop key value hash)
      | Some current \<Rightarrow>
          if is_nullish current then Inl TypeError
          else Inr (set_prop key (case current of Arr b vs \<Rightarrow> Arr b (vs @ [value])
                                  | _ \<Rightarrow> Arr a [current, value]) hash))"

fun query_loop :: "(string \<Rightarrow> jsval option) \<Rightarrow> nat \<Rightarrow> string list \<Rightarrow> props \<Rightarrow> (exn + props) option" where
  "query_loop inherited a [] hash = Some (Inr hash)"
| "query_loop inherited a (pair # pairs) hash = (case query_pair pair of
     None \<Rightarrow> None
   | Some (Inl e) \<Rightarrow> Some (Inl e)
   | Some (Inr None) \<Rightarrow> query_loop inherited (Suc a) pairs hash
   | Some (Inr (Some (key, value))) \<Rightarrow> (case query_store inherited a key value hash of
       Inl e \<Rightarrow> Some (Inl e)
     | Inr hash' \<Rightarrow> query_loop inherited (Suc a) pairs hash'))"

definition query_re :: regex where
  "query_re = Seq (Group 1 (Star True (Ch (\<lambda>c. c \<noteq> CHR ''?'' \<and> c \<noteq> CHR ''#''))))
     (Seq (Opt (Group 2 (Seq (Lit ''#'') (Star True dot)))) Eol)"

text \<open>\<^verbatim>\<open>toQueryParams(separator)\<close>, for a separator of one character; new arrays are numbered from \<open>a\<close>.\<close>

definition String_toQueryParams :: "(string \<Rightarrow> jsval option) \<Rightarrow> nat \<Rightarrow> char option \<Rightarrow> string
    \<Rightarrow> (exn + props) option" where
  "String_toQueryParams inherited a separator this =
     (case regex_match query_re (String_strip this) of
        None \<Rightarrow> Some (Inr [])
      | Some m \<Rightarrow> query_loop inherited a
          (split_chr (case separator of None \<Rightarrow> CHR ''&'' | Some c \<Rightarrow> c) (to_str (group m 1))) [])"

section \<open>Merging\<close>

text \<open>Hashes mix in Enumerable.\<close>

interpretation hash: iterable "Hash_items proto this" "Hash_each proto this" "Hash_each proto this"
  for proto this
  by unfold_locales (simp_all add: fun_eq_iff Hash_each_def)

lemma ret_st_it: "(\<lambda>v (i::nat). act_ret (h v)) = st_it (\<lambda>v _. h v) (\<lambda>_ _ s. s)"
  by (simp add: fun_eq_iff act_ret_def st_it_def)

lemma fold_enumerate: "fold (\<lambda>(i, v) m. h v m) (enumerate i xs) m = fold h xs m"
  by (induction xs arbitrary: i m) auto

lemma Hash_keys_spec: "Hash_keys proto this s = (Inr (map fst (Hash_items proto this)), s)"
  unfolding Hash_keys_def ret_st_it hash.collect_all by (simp add: map_snd_enumerate)

lemma Hash_values_spec: "Hash_values proto this s = (Inr (map snd (Hash_items proto this)), s)"
  unfolding Hash_values_def ret_st_it hash.collect_all by (simp add: map_snd_enumerate)

lemma Hash_merge_fold:
  "Hash_merge proto hash this s =
   (Inr (fold (\<lambda>(k, v). set_prop k v) (Hash_items proto hash) this), s)"
proof -
  have it: "(\<lambda>mergedHash pair (_::nat). act_ret (set_prop (fst pair) (snd pair) mergedHash)) =
      (\<lambda>m. st_it (\<lambda>pair _. set_prop (fst pair) (snd pair) m) (\<lambda>_ _ s. s))"
    by (simp add: fun_eq_iff act_ret_def st_it_def)
  show ?thesis unfolding Hash_merge_def it hash.inject_all
    using fold_enumerate [of "\<lambda>pair m. set_prop (fst pair) (snd pair) m" 0 "Hash_items proto hash" this]
    by (simp add: case_prod_unfold)
qed

lemma map_of_fold_set_prop:
  "distinct (map fst ps) \<Longrightarrow> map_of (fold (\<lambda>(k, v). set_prop k v) ps m) = map_of m ++ map_of ps"
proof (induction ps arbitrary: m)
  case (Cons p ps)
  obtain k v where p: "p = (k, v)" by force
  have k: "k \<notin> dom (map_of ps)" using Cons.prems by (simp add: p dom_map_of_conv_image_fst)
  have "map_of (fold (\<lambda>(k, v). set_prop k v) ps (set_prop k v m)) =
      (map_of m)(k \<mapsto> v) ++ map_of ps"
    using Cons by simp
  then show ?case by (simp only: p fold_simps prod.case map_of.simps fst_conv snd_conv
        map_add_upd map_add_upd_left [OF k])
qed simp

lemma distinct_Hash_items: "distinct (map fst this) \<Longrightarrow> distinct (map fst (Hash_items proto this))"
  unfolding Hash_items_def by (induction this) auto

lemma distinct_fold_set_prop:
  "distinct (map fst m) \<Longrightarrow> distinct (map fst (fold (\<lambda>(k, v). set_prop k v) ps m))"
  by (induction ps arbitrary: m) (auto intro: distinct_set_prop)

lemma Object_extend_fold: "Object_extend d ps = fold (\<lambda>(k, v). set_prop k v) ps d"
  by (simp add: Object_extend_def foldl_conv_fold case_prod_unfold)

section \<open>Decoding what was encoded\<close>

lemma hex_val_hex_upper: "0 \<le> d \<Longrightarrow> d < 16 \<Longrightarrow> hex_val (hex_upper d) = Some d"
  by (auto simp: hex_val_def is_digit_def hex_upper_def)

lemma pct_byte_pct: "0 \<le> n \<Longrightarrow> n < 256 \<Longrightarrow> pct_byte (pct n @ s) = Some (n, s)"
proof -
  assume "0 \<le> n" "n < 256"
  then have "0 \<le> n div 16" "n div 16 < 16" "0 \<le> n mod 16" "n mod 16 < 16" by presburger+
  then show ?thesis by (simp add: pct_byte_def pct_def hex_val_hex_upper)
qed

lemma decode_points_pct:
  "decode_points (pct n @ s) = (case decode_point (pct n @ s) of None \<Rightarrow> None
     | Some (v, t) \<Rightarrow> map_option (Cons v) (decode_points t))"
  by (subst decode_points.simps) (simp add: pct_def)

lemma decode_point_high:
  assumes "128 \<le> n" and "n < 256"
  shows "decode_point (pct (192 + n div 64) @ pct (128 + n mod 64) @ s) = Some (n, s)"
proof -
  have b: "2 \<le> n div 64" "n div 64 < 4" "0 \<le> n mod 64" "n mod 64 < 64"
    using assms by (presburger+)
  then have "pct_byte (pct (192 + n div 64) @ pct (128 + n mod 64) @ s) =
      Some (192 + n div 64, pct (128 + n mod 64) @ s)"
    and "pct_byte (pct (128 + n mod 64) @ s) = Some (128 + n mod 64, s)"
    by (simp_all add: pct_byte_pct)
  then show ?thesis using b by (simp add: decode_point_def)
qed

lemma decode_points_encode_char:
  "decode_points (encode_char c @ s) = map_option (Cons (int (code c))) (decode_points s)"
proof (cases "uri_unreserved c")
  case True
  then have "c \<noteq> CHR ''%''" by (auto simp: uri_unreserved_def is_digit_def is_upper_def is_lower_def)
  then show ?thesis using True by (subst decode_points.simps) (simp add: encode_char_def)
next
  case False
  have c: "int (code c) < 256" using code_less_256 [of c] by simp
  show ?thesis
  proof (cases "code c < 128")
    case True
    then have "decode_point (pct (int (code c)) @ s) = Some (int (code c), s)"
      by (simp add: decode_point_def pct_byte_pct)
    then show ?thesis using False True by (simp add: encode_char_def decode_points_pct)
  next
    case high: False
    let ?n = "int (code c)"
    have "decode_point (pct (192 + ?n div 64) @ pct (128 + ?n mod 64) @ s) = Some (?n, s)"
      using high c by (intro decode_point_high) auto
    then show ?thesis using False high
      using decode_points_pct [of "192 + ?n div 64" "pct (128 + ?n mod 64) @ s"]
      by (simp add: encode_char_def)
  qed
qed

lemma decode_points_encode: "decode_points (encodeURIComponent s) = Some (map (\<lambda>c. int (code c)) s)"
proof (induction s)
  case Nil
  show ?case by (subst decode_points.simps) (simp add: encodeURIComponent_def)
next
  case (Cons c s)
  then show ?case
    using decode_points_encode_char [of c "encodeURIComponent s"] by (simp add: encodeURIComponent_def)
qed

lemma decode_encode: "decodeURIComponent (encodeURIComponent s) = Some (Inr s)"
proof -
  have "list_all (\<lambda>v. v < 256) (map (\<lambda>c. int (code c)) s)"
    using code_less_256 by (induction s) (simp_all add: order_less_le_trans)
  then show ?thesis by (simp add: decodeURIComponent_def decode_points_encode comp_def)
qed

text \<open>What an encoded text consists of.\<close>

definition uri_char :: "char \<Rightarrow> bool" where
  "uri_char c \<longleftrightarrow> uri_unreserved c \<or> c = CHR ''%''"

lemma hex_upper_uri: "0 \<le> d \<Longrightarrow> d < 16 \<Longrightarrow> uri_char (hex_upper d)"
  by (auto simp: uri_char_def uri_unreserved_def is_digit_def is_upper_def hex_upper_def)

lemma pct_uri: "0 \<le> n \<Longrightarrow> n < 256 \<Longrightarrow> c \<in> set (pct n) \<Longrightarrow> uri_char c"
proof -
  assume "0 \<le> n" "n < 256" "c \<in> set (pct n)"
  moreover from this have "0 \<le> n div 16" "n div 16 < 16" "0 \<le> n mod 16" "n mod 16 < 16"
    by presburger+
  ultimately show ?thesis by (auto simp: pct_def hex_upper_uri) (simp add: uri_char_def)
qed

lemma encode_char_uri: "d \<in> set (encode_char c) \<Longrightarrow> uri_char d"
proof -
  assume d: "d \<in> set (encode_char c)"
  have "0 \<le> int (code c)" "int (code c) < 256" using code_less_256 [of c] by simp_all
  then have "0 \<le> 192 + int (code c) div 64" "192 + int (code c) div 64 < 256"
    "0 \<le> 128 + int (code c) mod 64" "128 + int (code c) mod 64 < 256" by presburger+
  note p = pct_uri [OF this(1,2), of d] pct_uri [OF this(3,4), of d]
    pct_uri [OF \<open>0 \<le> int (code c)\<close> \<open>int (code c) < 256\<close>, of d]
  show ?thesis using d p by (auto simp: encode_char_def uri_char_def [of c] split: if_splits)
qed

lemma encode_uri: "d \<in> set (encodeURIComponent s) \<Longrightarrow> uri_char d"
  by (auto simp: encodeURIComponent_def dest: encode_char_uri)

lemma uri_char_plain:
  "uri_char c \<Longrightarrow> c \<noteq> CHR ''&'' \<and> c \<noteq> CHR ''='' \<and> c \<noteq> CHR ''?'' \<and> c \<noteq> CHR ''#'' \<and> \<not> is_space c"
  by (auto simp: uri_char_def uri_unreserved_def is_digit_def is_upper_def is_lower_def is_space_def)

lemma encode_nonempty: "s \<noteq> [] \<Longrightarrow> encodeURIComponent s \<noteq> []"
  by (cases s) (auto simp: encodeURIComponent_def encode_char_def pct_def)

lemma split_chr_none: "sep \<notin> set x \<Longrightarrow> split_chr sep x = [x]"
  by (induction x) auto

lemma split_chr_append: "sep \<notin> set x \<Longrightarrow> split_chr sep (x @ sep # y) = x # split_chr sep y"
  by (induction x) auto

lemma split_join:
  "xs \<noteq> [] \<Longrightarrow> (\<And>x. x \<in> set xs \<Longrightarrow> sep \<notin> set x) \<Longrightarrow> split_chr sep (join [sep] xs) = xs"
proof (induction xs rule: induct_list012)
  case (3 x y xs)
  then show ?case using split_chr_append [of sep x] by simp
qed (simp_all add: split_chr_none)

text \<open>Without \<^verbatim>\<open>#\<close>, the pattern of \<^verbatim>\<open>toQueryParams\<close> matches where the rest of the text has no \<^verbatim>\<open>?\<close>.\<close>

lemma query_re_ways:
  assumes "CHR ''#'' \<notin> set t" "i \<le> length t"
  shows "ways t query_re i [] = (if CHR ''?'' \<in> set (drop i t) then [] else [(length t, [(1, (i, length t))])])"
proof -
  let ?p = "\<lambda>c. c \<noteq> CHR ''?'' \<and> c \<noteq> CHR ''#''"
  let ?n = "i + length (takeWhile ?p (drop i t))"
  have o: "ways t (Opt (Group 2 (Seq (Lit ''#'') (Star True dot)))) j c = [(j, c)]" for j c
  proof -
    have "t ! j \<noteq> CHR ''#''" if "j < length t" using assms(1) that by (metis nth_mem)
    then show ?thesis by (auto simp: Opt_def Lit_def)
  qed
  have w: "ways t query_re i [] = concat (map (\<lambda>j. if j = length t then [(j, [(1, (i, j))])] else []) (rev [i..<Suc ?n]))"
    using ways_Star_Ch [OF assms(2), of ?p "[]"]
    by (simp add: query_re_def o forget_def comp_def case_prod_unfold cong: if_cong del: upt_Suc)
  have h: "CHR ''#'' \<notin> set (drop i t)" using assms(1) by (meson in_set_dropD)
  show ?thesis
  proof (cases "CHR ''?'' \<in> set (drop i t)")
    case True
    then have "takeWhile ?p (drop i t) \<noteq> drop i t" by (auto simp: takeWhile_eq_all_conv)
    then have "length (takeWhile ?p (drop i t)) < length (drop i t)"
      using takeWhile_eq_take [of ?p "drop i t"] take_all [of "drop i t"] by (metis linorder_not_le)
    then have "?n < length t" using assms(2) by simp
    then show ?thesis using True by (simp add: w del: upt_Suc)
  next
    case False
    then have all: "takeWhile ?p (drop i t) = drop i t" using h by (auto simp: takeWhile_eq_all_conv)
    have n: "?n = length t" unfolding all using assms(2) by simp
    have e: "concat (map (\<lambda>j. if j = length t then [(j, [(1, (i, j))])] else []) (rev [i..<length t])) = []"
      by simp
    show ?thesis using False assms(2) e by (simp add: w n)
  qed
qed

lemma query_re_plain:
  assumes "\<And>c. c \<in> set t \<Longrightarrow> c \<noteq> CHR ''?'' \<and> c \<noteq> CHR ''#''"
  shows "\<exists>m. regex_match query_re t = Some m \<and> group m 1 = Str t"
proof -
  have "ways t query_re 0 [] = [(length t, [(1, (0, length t))])]"
    using query_re_ways [of t 0] assms by (metis drop0 le0)
  then show ?thesis by (simp add: regex_match_def group_def)
qed

lemma query_re_address:
  assumes "set u \<inter> {CHR ''?'', CHR ''#''} = {}" "set q \<inter> {CHR ''?'', CHR ''#''} = {}"
  shows "\<exists>m. regex_match query_re (u @ CHR ''?'' # q) = Some m \<and> group m 1 = Str q"
proof -
  let ?t = "u @ CHR ''?'' # q"
  have h: "CHR ''#'' \<notin> set ?t" using assms by auto
  have "search ?t query_re (Suc (length u) + Suc (length q)) 0 = search ?t query_re (Suc (length q)) (0 + Suc (length u))"
  proof (rule search_skip)
    fix j assume "j < 0 + Suc (length u)"
    then show "ways ?t query_re j [] = []" using query_re_ways [OF h, of j] by simp
  qed
  also have "\<dots> = Some (Suc (length u), length ?t, [(1, (Suc (length u), length ?t))])"
    using query_re_ways [OF h, of "Suc (length u)"] assms(2) by simp
  finally show ?thesis by (simp add: regex_match_def group_def del: search.simps)
qed

lemma strip_no_space: "(\<And>c. c \<in> set t \<Longrightarrow> \<not> is_space c) \<Longrightarrow> String_strip t = t"
proof -
  assume n: "\<And>c. c \<in> set t \<Longrightarrow> \<not> is_space c"
  have d: "dropWhile is_space u = u" if "set u \<subseteq> set t" for u
    using n that by (cases u) auto
  show ?thesis by (simp add: String_strip_def strip_left strip_right trim_right_def d)
qed

definition query_value :: "jsval \<Rightarrow> bool" where
  "query_value v \<longleftrightarrow> (case v of Str _ \<Rightarrow> True | Undefined \<Rightarrow> True | _ \<Rightarrow> False)"

lemma addPair_chars:
  "query_value v \<Longrightarrow> c \<in> set (toQueryString_addPair k v) \<Longrightarrow> uri_char c \<or> c = CHR ''=''"
  by (auto simp: query_value_def toQueryString_addPair_def dest: encode_uri split: jsval.splits if_splits)

lemma query_pair_addPair:
  assumes "k \<noteq> []" and "query_value v"
  shows "query_pair (toQueryString_addPair k v) = Some (Inr (Some (k, v)))"
proof -
  have eq: "CHR ''='' \<notin> set (encodeURIComponent s)" for s using encode_uri uri_char_plain by blast
  note simps = query_pair_def toQueryString_addPair_def split_chr_none [OF eq] decode_encode
    encode_nonempty [OF assms(1)] split_chr_append [OF eq]
  show ?thesis using assms(2)
    by (cases v) (simp_all add: query_value_def simps loose_eq_def)
qed

lemma query_parts_value: "k \<noteq> [] \<Longrightarrow> query_value v \<Longrightarrow> query_parts (k, v) = [toQueryString_addPair k v]"
  by (cases v) (simp_all add: query_parts_def query_value_def)

lemma query_string_chars:
  assumes "\<And>k v. (k, v) \<in> set qs \<Longrightarrow> query_value v"
    and "c \<in> set (join ''&'' (map (\<lambda>(k, v). toQueryString_addPair k v) qs))"
  shows "c \<noteq> CHR ''?'' \<and> c \<noteq> CHR ''#'' \<and> \<not> is_space c"
proof -
  have j: "set (join ''&'' xs) \<subseteq> \<Union> (set ` set xs) \<union> {CHR ''&''}" for xs
    by (induction xs rule: induct_list012) auto
  have "uri_char c \<or> c = CHR ''='' \<or> c = CHR ''&''"
    using subsetD [OF j assms(2)] assms(1) addPair_chars by fastforce
  then show ?thesis using uri_char_plain by (auto simp: is_space_def)
qed

lemma toQueryParams_join:
  assumes "\<And>k v. (k, v) \<in> set qs \<Longrightarrow> k \<noteq> [] \<and> query_value v"
  shows "String_toQueryParams inherited a None (join ''&'' (map (\<lambda>(k, v). toQueryString_addPair k v) qs)) =
    query_loop inherited a (if qs = [] then [[]] else map (\<lambda>(k, v). toQueryString_addPair k v) qs) []"
proof -
  let ?xs = "map (\<lambda>(k, v). toQueryString_addPair k v) qs"
  let ?t = "join ''&'' ?xs"
  have x: "CHR ''&'' \<notin> set x" if "x \<in> set ?xs" for x
    using that assms addPair_chars uri_char_plain by fastforce
  have t: "c \<noteq> CHR ''?'' \<and> c \<noteq> CHR ''#'' \<and> \<not> is_space c" if "c \<in> set ?t" for c
    using query_string_chars [OF _ that] assms by blast
  have "String_strip ?t = ?t" by (rule strip_no_space) (use t in blast)
  moreover obtain m where "regex_match query_re ?t = Some m" "group m 1 = Str ?t"
    using query_re_plain [of ?t] t by blast
  moreover have "split_chr (CHR ''&'') ?t = (if qs = [] then [[]] else ?xs)"
    using x split_join [of ?xs "CHR ''&''"] by (cases qs) auto
  ultimately show ?thesis by (simp add: String_toQueryParams_def)
qed

text \<open>An address and a query text: the reader takes the parameters after the question mark.\<close>

lemma toQueryParams_address:
  assumes "\<And>c. c \<in> set u \<Longrightarrow> c \<noteq> CHR ''?'' \<and> c \<noteq> CHR ''#'' \<and> \<not> is_space c"
    and "\<And>c. c \<in> set q \<Longrightarrow> c \<noteq> CHR ''?'' \<and> c \<noteq> CHR ''#'' \<and> \<not> is_space c"
  shows "String_toQueryParams inherited a None (u @ CHR ''?'' # q) = String_toQueryParams inherited a None q"
proof -
  have "String_strip (u @ CHR ''?'' # q) = u @ CHR ''?'' # q" "String_strip q = q"
    by (rule strip_no_space, use assms in \<open>auto simp: is_space_def\<close>)+
  moreover obtain m where "regex_match query_re (u @ CHR ''?'' # q) = Some m" "group m 1 = Str q"
    using query_re_address [of u q] assms by fastforce
  moreover obtain m' where "regex_match query_re q = Some m'" "group m' 1 = Str q"
    using query_re_plain [of q] assms(2) by blast
  ultimately show ?thesis by (simp add: String_toQueryParams_def)
qed

lemma query_loop_fresh:
  assumes "\<And>k v. (k, v) \<in> set qs \<Longrightarrow> k \<noteq> [] \<and> query_value v \<and> inherited k = None"
  shows "distinct (map fst (ps @ qs)) \<Longrightarrow>
    query_loop inherited a (map (\<lambda>(k, v). toQueryString_addPair k v) qs) ps = Some (Inr (ps @ qs))"
  using assms
proof (induction qs arbitrary: a ps)
  case (Cons q qs)
  obtain k v where q: "q = (k, v)" by force
  have k: "k \<noteq> []" "query_value v" "inherited k = None" using Cons.prems(2) q by auto
  have new: "k \<notin> fst ` set ps" using Cons.prems(1) q by auto
  then have "query_store inherited a k v ps = Inr (ps @ [(k, v)])"
    using k by (simp add: query_store_def set_prop_fresh map_of_eq_None_iff [THEN iffD2])
  moreover have "query_loop inherited (Suc a) (map (\<lambda>(k, v). toQueryString_addPair k v) qs)
      (ps @ [(k, v)]) = Some (Inr ((ps @ [(k, v)]) @ qs))"
    using Cons.prems q by (intro Cons.IH) auto
  ultimately show ?case using k by (simp add: q query_pair_addPair)
qed simp

text \<open>Further values of a name that is there are appended to its array.\<close>

lemma query_loop_more:
  assumes "k \<noteq> []" and "inherited k = None" and "\<And>v. v \<in> set vs \<Longrightarrow> query_value v"
  shows "query_loop inherited a (map (toQueryString_addPair k) vs) [(k, Arr b us)] =
    Some (Inr [(k, Arr b (us @ vs))])"
  using assms(3)
  by (induction vs arbitrary: a us) (simp_all add: assms(1,2) query_pair_addPair query_store_def)

section \<open>Removing\<close>

definition results_of :: "nat \<Rightarrow> jsval list \<Rightarrow> jsval" where
  "results_of a vs = (case vs of [] \<Rightarrow> Undefined | [v] \<Rightarrow> v | _ \<Rightarrow> Arr a vs)"

definition plain_value :: "jsval \<Rightarrow> bool" where
  "plain_value v \<longleftrightarrow> v \<noteq> Undefined \<and> v \<noteq> Null \<and> \<not> is_array v"

lemma strict_eq_Undefined [simp]: "strict_eq v Undefined \<longleftrightarrow> v = Undefined"
  by (cases v) auto

lemma remove_step_plain:
  assumes vs: "list_all plain_value vs" and v: "map_of this k = Some v" "plain_value v"
  shows "remove_step (\<lambda>_. Undefined) a k (results_of a vs) this =
    (Inr (results_of a (vs @ [v])), del_prop k this)"
proof -
  consider "vs = []" | w where "vs = [w]" | w x ws where "vs = w # x # ws"
    by (metis list.exhaust)
  then show ?thesis
  proof cases
    case 2
    then show ?thesis using vs v
      by (cases w) (auto simp: remove_step_def hash_get_def results_of_def plain_value_def)
  qed (use vs v in \<open>auto simp: remove_step_def hash_get_def results_of_def plain_value_def\<close>)
qed

lemma remove_loop_plain:
  assumes "list_all plain_value vs" and "distinct ks"
    and "\<And>k v. k \<in> set ks \<Longrightarrow> map_of this k = Some v \<Longrightarrow> plain_value v"
  shows "remove_loop (\<lambda>_. Undefined) a ks (results_of a vs) this =
    (Inr (results_of a (vs @ List.map_filter (map_of this) ks)), filter (\<lambda>(k, _). k \<notin> set ks) this)"
  using assms
proof (induction ks arbitrary: vs this)
  case Nil
  have "filter (\<lambda>(k, _). True) this = this" by (induction this) auto
  then show ?case by (simp add: act_ret_def List.map_filter_def)
next
  case (Cons k ks)
  have others: "List.map_filter (\<lambda>j. if j = k then None else map_of this j) ks = List.map_filter (map_of this) ks"
    using Cons.prems(2) by (induction ks) (auto simp: List.map_filter_simps split: option.splits)
  have fil: "filter (\<lambda>(j, _). j \<notin> set ks) (del_prop k this) =
      filter (\<lambda>(j, _). j \<notin> set (k # ks)) this"
    by (auto simp: del_prop_def intro: filter_cong)
  have pl: "plain_value v" if "j \<in> set ks" "map_of (del_prop k this) j = Some v" for j v
    using that Cons.prems(3) [of j v] by (auto split: if_splits)
  show ?case
  proof (cases "map_of this k")
    case None
    then have "remove_step (\<lambda>_. Undefined) a k (results_of a vs) this =
        (Inr (results_of a vs), del_prop k this)"
      by (simp add: remove_step_def hash_get_def)
    then show ?thesis using None Cons.IH [of vs "del_prop k this"] Cons.prems pl
      by (simp add: act_bind_def others fil List.map_filter_simps)
  next
    case (Some v)
    then have "remove_step (\<lambda>_. Undefined) a k (results_of a vs) this =
        (Inr (results_of a (vs @ [v])), del_prop k this)"
      using Cons.prems by (intro remove_step_plain) auto
    moreover have "plain_value v" using Cons.prems(3) [of k v] Some by simp
    ultimately show ?thesis using Some Cons.IH [of "vs @ [v]" "del_prop k this"] Cons.prems(1,2) pl
      by (simp add: act_bind_def others fil List.map_filter_simps)
  qed
qed

lemma concat_singletons: "concat (map (\<lambda>x. [h x]) xs) = map h xs"
  by (induction xs) auto

lemma Object_clone_distinct: "distinct (map fst ps) \<Longrightarrow> Object_clone ps = ps"
proof -
  have "distinct (map fst (qs @ ps)) \<Longrightarrow> fold (\<lambda>(k, v). set_prop k v) ps qs = qs @ ps" for qs
  proof (induction ps arbitrary: qs)
    case (Cons p ps)
    obtain k v where p: "p = (k, v)" by force
    have "set_prop k v qs = qs @ [(k, v)]" using Cons.prems p by (intro set_prop_fresh) auto
    then show ?case using Cons.IH [of "qs @ [(k, v)]"] Cons.prems p by simp
  qed simp
  from this [of "[]"] show "distinct (map fst ps) \<Longrightarrow> Object_clone ps = ps"
    by (simp add: Object_clone_def Object_extend_fold)
qed

text \<open>The query string of texts.\<close>

lemma query_string:
  assumes "\<And>k v. (k, v) \<in> set ps \<Longrightarrow> k \<noteq> [] \<and> query_value v \<and> proto k = Undefined"
  shows "Hash_toQueryString proto ps = join ''&'' (map (\<lambda>(k, v). toQueryString_addPair k v) ps)"
proof -
  have "\<not> (truthy v \<and> loose_eq v Undefined)" for v by (cases v) (auto simp: loose_eq_def)
  then have "Hash_items proto ps = ps"
    using assms unfolding Hash_items_def by (intro filter_True) auto
  moreover have "map query_parts ps = map (\<lambda>q. [case q of (k, v) \<Rightarrow> toQueryString_addPair k v]) ps"
    using assms by (intro map_cong) (auto simp: query_parts_value)
  then have "concat (map query_parts ps) = map (\<lambda>(k, v). toQueryString_addPair k v) ps"
    by (simp only: concat_singletons)
  ultimately show ?thesis by (simp add: Hash_toQueryString_def)
qed

lemma query_string_nonempty:
  assumes "ps \<noteq> []" and "\<And>k v. (k, v) \<in> set ps \<Longrightarrow> k \<noteq> [] \<and> query_value v \<and> proto k = Undefined"
  shows "Hash_toQueryString proto ps \<noteq> []"
proof -
  obtain k v qs where ps: "ps = (k, v) # qs" using assms(1) by (cases ps) auto
  then have "toQueryString_addPair k v \<noteq> []"
    using assms(2) [of k v] by (auto simp: toQueryString_addPair_def encode_nonempty)
  then show ?thesis using query_string [of ps proto] assms(2) ps by (cases qs) auto
qed

section \<open>Properties of hashes\<close>

text \<open>
  C4: writing a hash as a query string and reading it back gives the hash, for distinct names
  that are not empty and that neither Hash nor Object defines, and values that are texts or
  \<^verbatim>\<open>undefined\<close>; every character of names and values is allowed.
\<close>

theorem query_roundtrip:
  assumes "distinct (map fst ps)"
    and "\<And>k v. (k, v) \<in> set ps \<Longrightarrow>
      k \<noteq> [] \<and> query_value v \<and> inherited k = None \<and> proto k = Undefined"
  shows "String_toQueryParams inherited a None (Hash_toQueryString proto ps) = Some (Inr ps)"
proof -
  have "query_loop inherited a (if ps = [] then [[]]
      else map (\<lambda>(k, v). toQueryString_addPair k v) ps) [] = Some (Inr ps)"
    using query_loop_fresh [of ps inherited "[]" a] assms by (auto simp: query_pair_def)
  then show ?thesis using toQueryParams_join [of ps inherited a] query_string [of ps proto] assms(2) by simp
qed

theorem query_roundtrip_witness:
  "String_toQueryParams (\<lambda>k. if k = ''toString'' then Some (Func 1 ''f'') else None) 0 None
     (Hash_toQueryString (\<lambda>k. if k = ''each'' then Func 2 ''g'' else Undefined)
       [(''SQL'', Str ''select * from a where b = 1 & c''), (''x'', Undefined)]) =
   Some (Inr [(''SQL'', Str ''select * from a where b = 1 & c''), (''x'', Undefined)])"
  by (rule query_roundtrip) (auto simp: query_value_def)

text \<open>
  A name with an array of two or more texts is written once for each element and read back
  as an array of the same elements in the same order.
\<close>

theorem query_roundtrip_array:
  assumes "k \<noteq> []" and "inherited k = None" and "proto k = Undefined"
    and "2 \<le> length vs" and "\<And>v. v \<in> set vs \<Longrightarrow> \<exists>t. v = Str t"
  shows "\<exists>c. String_toQueryParams inherited a None (Hash_toQueryString proto [(k, Arr b vs)]) =
    Some (Inr [(k, Arr c vs)])"
proof -
  obtain u v ws where vs: "vs = u # v # ws" using assms(4)
    by (metis Suc_le_length_iff numeral_2_eq_2)
  have q: "query_value w" if "w \<in> set vs" for w using assms(5) [OF that] by (auto simp: query_value_def)
  have uv: "\<not> is_nullish u" "\<not> is_array u" using assms(5) [of u] vs by auto
  have "Hash_items proto [(k, Arr b vs)] = [(k, Arr b vs)]"
    using assms(3) by (simp add: Hash_items_def loose_eq_def)
  then have s: "Hash_toQueryString proto [(k, Arr b vs)] =
      join ''&'' (map (\<lambda>(k, v). toQueryString_addPair k v) (map (Pair k) vs))"
    using assms(1) by (simp add: Hash_toQueryString_def query_parts_def comp_def)
  have "query_loop inherited a (map (toQueryString_addPair k) vs) [] =
      Some (Inr [(k, Arr (Suc a) ([u, v] @ ws))])"
    using uv q assms(1,2) query_loop_more [of k inherited ws "Suc (Suc a)" "Suc a" "[u, v]"]
    by (cases u) (simp_all add: vs query_pair_addPair query_store_def)
  moreover have "String_toQueryParams inherited a None
      (join ''&'' (map (\<lambda>(k, v). toQueryString_addPair k v) (map (Pair k) vs))) =
      query_loop inherited a (map (toQueryString_addPair k) vs) []"
    using toQueryParams_join [of "map (Pair k) vs" inherited a] q assms(1) vs
    by (auto simp: comp_def)
  ultimately have "String_toQueryParams inherited a None (Hash_toQueryString proto [(k, Arr b vs)]) =
      Some (Inr [(k, Arr (Suc a) ([u, v] @ ws))])" by (simp only: s)
  then show ?thesis using vs by auto
qed

theorem query_roundtrip_array_witness:
  "\<exists>c. String_toQueryParams (\<lambda>_. None) 0 None
      (Hash_toQueryString (\<lambda>_. Undefined) [(''id'', Arr 5 [Str ''1'', Str ''a&b''])]) =
    Some (Inr [(''id'', Arr c [Str ''1'', Str ''a&b''])])"
  by (rule query_roundtrip_array) auto

text \<open>
  A query string that repeats a name without a value cannot be read: the second
  occurrence asks \<^verbatim>\<open>undefined\<close> for its constructor.
\<close>

theorem toQueryParams_repeated_flag:
  "String_toQueryParams (\<lambda>_. None) a None ''a&a'' = Some (Inl TypeError)"
  by code_simp

text \<open>
  \<^verbatim>\<open>merge\<close> sets every entry of the argument and keeps the others of the receiver, and the names
  stay distinct.
\<close>

theorem merge_overrides:
  assumes "distinct (map fst this)" and "distinct (map fst hash)"
  shows "\<exists>r. Hash_merge proto hash this s = (Inr r, s) \<and>
    map_of r = map_of this ++ map_of (Hash_items proto hash) \<and> distinct (map fst r)"
  using assms
  by (simp add: Hash_merge_fold map_of_fold_set_prop distinct_Hash_items distinct_fold_set_prop)

theorem merge_overrides_witness:
  "\<exists>r. Hash_merge (\<lambda>_. Undefined) [(''a'', Null)] [(''a'', Bool True), (''b'', Null)] () = (Inr r, ()) \<and>
    map_of r = map_of [(''a'', Bool True), (''b'', Null)] ++
      map_of (Hash_items (\<lambda>_. Undefined) [(''a'', Null)]) \<and> distinct (map fst r)"
  by (rule merge_overrides) simp_all

text \<open>
  \<^verbatim>\<open>remove(k1, ..., kn)\<close> deletes exactly these names and returns the values they had, in the order
  of the arguments: nothing, the one value, or an array of two or more.
\<close>

theorem remove_names:
  assumes "distinct ks" and "\<And>k v. k \<in> set ks \<Longrightarrow> map_of this k = Some v \<Longrightarrow> plain_value v"
  shows "Hash_remove (\<lambda>_. Undefined) a ks this =
    (Inr (results_of a (List.map_filter (map_of this) ks)), filter (\<lambda>(k, _). k \<notin> set ks) this)"
  using remove_loop_plain [of "[]" ks this a] assms by (simp add: Hash_remove_def results_of_def)

theorem remove_names_witness:
  "Hash_remove (\<lambda>_. Undefined) 7 [''b'', ''x'', ''a''] [(''a'', Bool True), (''b'', Str ''t''), (''c'', Null)] =
    (Inr (results_of 7 (List.map_filter
       (map_of [(''a'', Bool True), (''b'', Str ''t''), (''c'', Null)]) [''b'', ''x'', ''a''])),
     filter (\<lambda>(k, _). k \<notin> set [''b'', ''x'', ''a'']) [(''a'', Bool True), (''b'', Str ''t''), (''c'', Null)])"
  by (rule remove_names) (auto simp: plain_value_def)

end
