(* ===== verification/JS_Prog.thy ===== *)
theory JS_Prog
  imports JS_Value
begin

text \<open>
  Operations that change a state, may throw, and may not return, with the rules by which the proofs
  about them are composed: what an operation leaves unchanged (\<open>keeps\<close>), and that it returns
  or throws (\<open>ends\<close>).
\<close>

section \<open>Operations on a state\<close>

type_synonym ('s, 'a) prog = "'s \<Rightarrow> ((exn + 'a) \<times> 's) option"

definition p_ret :: "'a \<Rightarrow> ('s, 'a) prog" where
  "p_ret a s = Some (Inr a, s)"

definition p_throw :: "exn \<Rightarrow> ('s, 'a) prog" where
  "p_throw e s = Some (Inl e, s)"

definition p_bind :: "('s, 'a) prog \<Rightarrow> ('a \<Rightarrow> ('s, 'b) prog) \<Rightarrow> ('s, 'b) prog" where
  "p_bind m f s = (case m s of None \<Rightarrow> None | Some (Inl e, t) \<Rightarrow> Some (Inl e, t) | Some (Inr a, t) \<Rightarrow> f a t)"

definition p_then :: "('s, unit) prog \<Rightarrow> ('s, 'b) prog \<Rightarrow> ('s, 'b) prog" where
  "p_then m n = p_bind m (\<lambda>_. n)"

definition p_get :: "('s \<Rightarrow> 'a) \<Rightarrow> ('s, 'a) prog" where
  "p_get f s = Some (Inr (f s), s)"

definition p_mod :: "('s \<Rightarrow> 's) \<Rightarrow> ('s, unit) prog" where
  "p_mod f s = Some (Inr (), f s)"

text \<open>A computation without access to the object.\<close>

definition p_lift :: "(exn + 'a) option \<Rightarrow> ('s, 'a) prog" where
  "p_lift r s = map_option (\<lambda>x. (x, s)) r"

fun p_each :: "('v \<Rightarrow> ('s, unit) prog) \<Rightarrow> 'v list \<Rightarrow> ('s, unit) prog" where
  "p_each f [] = p_ret ()"
| "p_each f (v # vs) = p_then (f v) (p_each f vs)"

lemmas prog_defs = p_ret_def p_throw_def p_bind_def p_then_def p_get_def p_mod_def p_lift_def

lemma p_then_assoc: "p_then (p_then m n) k = p_then m (p_then n k)"
  by (auto simp: fun_eq_iff p_then_def p_bind_def split: option.splits sum.splits)

lemma p_then_Inr:
  "p_then m n s = Some (Inr a, t) \<longleftrightarrow> (\<exists>s1. m s = Some (Inr (), s1) \<and> n s1 = Some (Inr a, t))"
  by (auto simp: p_then_def p_bind_def split: option.splits sum.splits)

text \<open>A part \<open>f\<close> of the object that an operation leaves as it is, also when it throws.\<close>

definition keeps :: "('s \<Rightarrow> 'x) \<Rightarrow> ('s, 'a) prog \<Rightarrow> bool" where
  "keeps f m \<longleftrightarrow> (\<forall>s r t. m s = Some (r, t) \<longrightarrow> f t = f s)"

named_theorems keeps

lemma keepsD: "keeps f m \<Longrightarrow> m s = Some (r, t) \<Longrightarrow> f t = f s"
  by (simp add: keeps_def)

lemma keeps_ret [keeps]: "keeps f (p_ret a)"
  and keeps_throw [keeps]: "keeps f (p_throw e)"
  and keeps_get [keeps]: "keeps f (p_get g)"
  and keeps_lift [keeps]: "keeps f (p_lift r)"
  by (auto simp: keeps_def prog_defs)

lemma keeps_mod [keeps]: "(\<And>s. f (g s) = f s) \<Longrightarrow> keeps f (p_mod g)"
  by (simp add: keeps_def p_mod_def)

lemma keeps_bind [keeps]: "keeps f m \<Longrightarrow> (\<And>a. keeps f (n a)) \<Longrightarrow> keeps f (p_bind m n)"
  unfolding keeps_def p_bind_def by (fastforce split: option.splits sum.splits)

lemma keeps_then [keeps]: "keeps f m \<Longrightarrow> keeps f n \<Longrightarrow> keeps f (p_then m n)"
  unfolding p_then_def by (rule keeps_bind)

lemma keeps_each [keeps]: "(\<And>v. keeps f (g v)) \<Longrightarrow> keeps f (p_each g vs)"
  by (induction vs) (auto intro: keeps)

lemma keeps_at: "(\<And>s. keeps f (m s)) \<Longrightarrow> keeps f (\<lambda>s. m s s)"
  by (simp add: keeps_def)

lemma keeps_if [keeps]: "keeps f m \<Longrightarrow> keeps f n \<Longrightarrow> keeps f (if b then m else n)"
  by simp

text \<open>An operation that returns or throws on every object with \<open>P\<close>, and leaves an object with \<open>P\<close>.\<close>

definition ends :: "('s \<Rightarrow> bool) \<Rightarrow> ('s, 'a) prog \<Rightarrow> bool" where
  "ends P m \<longleftrightarrow> (\<forall>s. P s \<longrightarrow> (\<exists>r t. m s = Some (r, t) \<and> P t))"

named_theorems ends

lemma endsD: "ends P m \<Longrightarrow> P s \<Longrightarrow> \<exists>r t. m s = Some (r, t) \<and> P t"
  by (simp add: ends_def)

lemma ends_ret [ends]: "ends P (p_ret a)"
  and ends_throw [ends]: "ends P (p_throw e)"
  and ends_get [ends]: "ends P (p_get g)"
  by (auto simp: ends_def prog_defs)

lemma ends_mod [ends]: "(\<And>s. P s \<Longrightarrow> P (g s)) \<Longrightarrow> ends P (p_mod g)"
  by (simp add: ends_def p_mod_def)

lemma ends_bind [ends]: "ends P m \<Longrightarrow> (\<And>a. ends P (n a)) \<Longrightarrow> ends P (p_bind m n)"
  unfolding ends_def p_bind_def by (fastforce split: sum.splits)

lemma ends_then [ends]: "ends P m \<Longrightarrow> ends P n \<Longrightarrow> ends P (p_then m n)"
  unfolding p_then_def by (rule ends_bind)

lemma ends_each [ends]: "(\<And>v. ends P (g v)) \<Longrightarrow> ends P (p_each g vs)"
  by (induction vs) (auto intro: ends)

lemma ends_at: "(\<And>s. ends P (m s)) \<Longrightarrow> ends P (\<lambda>s. m s s)"
  by (simp add: ends_def)

lemma ends_if [ends]: "ends P m \<Longrightarrow> ends P n \<Longrightarrow> ends P (if b then m else n)"
  by simp

text \<open>\<^verbatim>\<open>try { m } catch (e) { h(e) }\<close>\<close>

definition p_catch :: "('s, 'a) prog \<Rightarrow> (exn \<Rightarrow> ('s, 'a) prog) \<Rightarrow> ('s, 'a) prog" where
  "p_catch m h s = (case m s of Some (Inl e, t) \<Rightarrow> h e t | r \<Rightarrow> r)"

lemma keeps_catch [keeps]: "keeps f m \<Longrightarrow> (\<And>e. keeps f (h e)) \<Longrightarrow> keeps f (p_catch m h)"
  unfolding keeps_def p_catch_def by (fastforce split: option.splits sum.splits)

lemma ends_catch [ends]: "ends P m \<Longrightarrow> (\<And>e. ends P (h e)) \<Longrightarrow> ends P (p_catch m h)"
  unfolding ends_def p_catch_def by (fastforce split: sum.splits)

end
