(* ===== verification/Prototype_Ajax.thy ===== *)
theory Prototype_Ajax
  imports Prototype_Hash JS_Prog
begin

text \<open>
  Timers, \<^verbatim>\<open>Try.these\<close> and the Ajax classes of \<^verbatim>\<open>htdocs/prototype.js\<close>.  The state is the record of what
  the classes keep: the responders, the count of active requests and the requests; a request
  is named by its place in the list.  Functions that the user passes are named by numbers, and \<open>uf\<close>
  gives what they do to the state \<open>'u\<close> of the rest of the page; they do not change the responders or the requests.  The transport is an object of the browser: what it
  reports, and whether its \<^verbatim>\<open>open\<close> and \<^verbatim>\<open>send\<close> throw, is part of its record; \<^verbatim>\<open>setRequestHeader\<close> does not throw.
\<close>

section \<open>Try.these and PeriodicalExecuter\<close>

fun Try_these :: "('s, 'a) prog list \<Rightarrow> ('s, 'a option) prog" where
  "Try_these [] = p_ret None"
| "Try_these (lambda # lambdas) =
     p_catch (p_bind lambda (\<lambda>returnValue. p_ret (Some returnValue))) (\<lambda>_. Try_these lambdas)"

text \<open>The executer, with the state of the page that its callback changes.\<close>

record 'u executer =
  timer :: bool
  currentlyExecuting :: bool
  ex_page :: 'u

definition Executer_initialize :: "'u \<Rightarrow> 'u executer" where
  "Executer_initialize u = \<lparr>timer = True, currentlyExecuting = False, ex_page = u\<rparr>"

definition Executer_stop :: "('u executer, unit) prog" where
  "Executer_stop = p_mod (\<lambda>e. if \<not> timer e then e else e\<lparr>timer := False\<rparr>)"

text \<open>\<^verbatim>\<open>try { m } finally { f }\<close>\<close>

definition p_finally :: "('s, 'a) prog \<Rightarrow> ('s \<Rightarrow> 's) \<Rightarrow> ('s, 'a) prog" where
  "p_finally m f s = map_option (\<lambda>(r, t). (r, f t)) (m s)"

definition onTimerEvent :: "('u executer, unit) prog \<Rightarrow> ('u executer, unit) prog" where
  "onTimerEvent callback e =
     (if \<not> currentlyExecuting e
      then p_finally (p_then (p_mod (\<lambda>e. e\<lparr>currentlyExecuting := True\<rparr>)) callback)
             (\<lambda>e. e\<lparr>currentlyExecuting := False\<rparr>) e
      else p_ret () e)"

section \<open>The state\<close>

text \<open>Function values: the two of the library's own responder, and those of the user.\<close>

datatype handler = CountUp | CountDown | User nat

record responder =
  rid :: nat
  handlers :: "(string \<times> handler) list"

text \<open>
  What a transport reports: its state and status, its response, the exceptions of \<^verbatim>\<open>open\<close> and \<^verbatim>\<open>send\<close>, whether
  it has \<^verbatim>\<open>overrideMimeType\<close>; and what was done to it.
\<close>

record transport =
  readyState :: nat
  t_status :: nat
  responseHeaders :: "(string \<times> string) list"
  responseText :: string
  overrideMimeType :: bool
  openError :: "exn option"
  sendError :: "exn option"
  opened :: "(string \<times> string \<times> bool) option"
  sentHeaders :: "(string \<times> string) list"
  sentBody :: "string option"
  onreadystatechange :: bool

datatype header_option = NoHeaders | HeaderArray "string list" | HeaderObject "(string \<times> string) list"

datatype parameter_option = ParamText string | ParamObject props

record ajax_options =
  opt_method :: string
  asynchronous :: bool
  contentType :: string
  encoding :: string
  opt_parameters :: parameter_option
  requestHeaders :: header_option
  postBody :: string
  opt_handlers :: "(string \<times> handler) list"

text \<open>A property of the options that the user passes.\<close>

datatype ajax_setting =
    SetMethod string | SetAsynchronous bool | SetContentType string | SetEncoding string
  | SetParameters parameter_option | SetRequestHeaders header_option | SetPostBody string
  | SetHandler string handler

record request =
  rq_options :: ajax_options
  rq_url :: string
  rq_method :: string
  rq_parameters :: props
  rq_complete :: bool
  rq_timer :: bool
  rq_transport :: transport

record 'u net =
  responders :: "responder list"
  activeRequestCount :: int
  user :: 'u
  requests :: "request list"

text \<open>What a browser has: the inherited properties of objects and hashes, and its name.\<close>

record browser =
  inherited_prop :: "string \<Rightarrow> jsval option"
  hash_proto :: "string \<Rightarrow> jsval"
  userAgent :: string

type_synonym 'u user_functions = "nat \<Rightarrow> 'u \<Rightarrow> (exn + unit) \<times> 'u"

section \<open>Responders\<close>

definition call :: "'u user_functions \<Rightarrow> handler \<Rightarrow> ('u net, unit) prog" where
  "call uf h s = (case h of
     CountUp \<Rightarrow> Some (Inr (), s\<lparr>activeRequestCount := activeRequestCount s + 1\<rparr>)
   | CountDown \<Rightarrow> Some (Inr (), s\<lparr>activeRequestCount := activeRequestCount s - 1\<rparr>)
   | User n \<Rightarrow> (case uf n (user s) of (r, u) \<Rightarrow> Some (r, s\<lparr>user := u\<rparr>)))"

definition Responders_register :: "responder \<Rightarrow> 'u net \<Rightarrow> 'u net" where
  "Responders_register r s =
     (if r \<in> set (responders s) then s else s\<lparr>responders := responders s @ [r]\<rparr>)"

definition Responders_unregister :: "responder \<Rightarrow> 'u net \<Rightarrow> 'u net" where
  "Responders_unregister r s = s\<lparr>responders := filter (\<lambda>q. q \<noteq> r) (responders s)\<rparr>"

definition Responders_dispatch :: "'u user_functions \<Rightarrow> string \<Rightarrow> ('u net, unit) prog" where
  "Responders_dispatch uf callback s =
     p_each (\<lambda>r. case map_of (handlers r) callback of
         None \<Rightarrow> p_ret ()
       | Some h \<Rightarrow> p_catch (call uf h) (\<lambda>_. p_ret ())) (responders s) s"

definition counter :: responder where
  "counter = \<lparr>rid = 0, handlers = [(''onCreate'', CountUp), (''onComplete'', CountDown)]\<rparr>"

definition new_net :: "'u \<Rightarrow> 'u net" where
  "new_net u = Responders_register counter \<lparr>responders = [], activeRequestCount = 0, user = u, requests = []\<rparr>"

section \<open>Options\<close>

definition default_ajax_options :: ajax_options where
  "default_ajax_options =
     \<lparr>opt_method = ''post'', asynchronous = True, contentType = ''application/x-www-form-urlencoded'',
      encoding = ''UTF-8'', opt_parameters = ParamText [], requestHeaders = NoHeaders, postBody = [], opt_handlers = []\<rparr>"

fun ajax_extend :: "ajax_options \<Rightarrow> ajax_setting \<Rightarrow> ajax_options" where
  "ajax_extend opts (SetMethod v) = opts\<lparr>opt_method := v\<rparr>"
| "ajax_extend opts (SetAsynchronous v) = opts\<lparr>asynchronous := v\<rparr>"
| "ajax_extend opts (SetContentType v) = opts\<lparr>contentType := v\<rparr>"
| "ajax_extend opts (SetEncoding v) = opts\<lparr>encoding := v\<rparr>"
| "ajax_extend opts (SetParameters v) = opts\<lparr>opt_parameters := v\<rparr>"
| "ajax_extend opts (SetRequestHeaders v) = opts\<lparr>requestHeaders := v\<rparr>"
| "ajax_extend opts (SetPostBody v) = opts\<lparr>postBody := v\<rparr>"
| "ajax_extend opts (SetHandler n h) = opts\<lparr>opt_handlers := set_prop n h (opt_handlers opts)\<rparr>"

text \<open>\<^verbatim>\<open>setOptions\<close>; reading the parameters from a text may throw.  Arrays in them are numbered from \<open>a\<close>.\<close>

definition Ajax_setOptions :: "browser \<Rightarrow> nat \<Rightarrow> ajax_setting list \<Rightarrow> (exn + ajax_options) option" where
  "Ajax_setOptions br a settings =
     (let o1 = foldl ajax_extend default_ajax_options settings;
          o2 = o1\<lparr>opt_method := toLowerCase (opt_method o1)\<rparr>
      in case opt_parameters o2 of
           ParamObject _ \<Rightarrow> Some (Inr o2)
         | ParamText t \<Rightarrow> map_option (map_sum id (\<lambda>ps. o2\<lparr>opt_parameters := ParamObject ps\<rparr>))
             (String_toQueryParams (inherited_prop br) a None t))"

section \<open>Requests\<close>

definition rq :: "nat \<Rightarrow> 'u net \<Rightarrow> request" where
  "rq i s = requests s ! i"

definition set_rq :: "nat \<Rightarrow> (request \<Rightarrow> request) \<Rightarrow> ('u net, unit) prog" where
  "set_rq i f = p_mod (\<lambda>s. s\<lparr>requests := (requests s)[i := f (requests s ! i)]\<rparr>)"

definition set_transport :: "nat \<Rightarrow> (transport \<Rightarrow> transport) \<Rightarrow> ('u net, unit) prog" where
  "set_transport i f = set_rq i (\<lambda>r. r\<lparr>rq_transport := f (rq_transport r)\<rparr>)"

text \<open>\<^verbatim>\<open>(this.options[name] || Prototype.emptyFunction)()\<close>\<close>

definition call_option :: "'u user_functions \<Rightarrow> nat \<Rightarrow> string \<Rightarrow> ('u net, unit) prog" where
  "call_option uf i name s = (case map_of (opt_handlers (rq_options (rq i s))) name of
     None \<Rightarrow> p_ret () s | Some h \<Rightarrow> call uf h s)"

definition dispatchException :: "'u user_functions \<Rightarrow> nat \<Rightarrow> exn \<Rightarrow> ('u net, unit) prog" where
  "dispatchException uf i e = p_then (call_option uf i ''onException'') (Responders_dispatch uf ''onException'')"

definition success :: "transport \<Rightarrow> bool" where
  "success t \<longleftrightarrow> t_status t = 0 \<or> 200 \<le> t_status t \<and> t_status t < 300"

text \<open>The transport ignores the case of the names of headers.\<close>

definition getHeader :: "string \<Rightarrow> transport \<Rightarrow> string option" where
  "getHeader name t = map_of (map (\<lambda>(n, v). (toLowerCase n, v)) (responseHeaders t)) (toLowerCase name)"

definition Request_Events :: "string list" where
  "Request_Events = [''Uninitialized'', ''Loading'', ''Loaded'', ''Interactive'', ''Complete'']"

definition JSONFilter :: regex where
  "JSONFilter = Seq Bol (Seq (Lit ''/*-secure-'') (Seq (Star True (Ch is_space)) (Seq (Group 1 (Star True dot))
     (Seq (Star True (Ch is_space)) (Seq (Lit ''*/'') (Seq (Star True (Ch is_space)) Eol))))))"

definition String_unfilterJSON :: "string \<Rightarrow> string option" where
  "String_unfilterJSON this =
     (case String_sub JSONFilter (\<lambda>m. act_ret (template_replacement ''#{1}'' m)) None this () of
        Some (Inr t, _) \<Rightarrow> Some t | _ \<Rightarrow> None)"

definition script_type :: regex where
  "script_type = Seq Bol (Seq (Alt (LitI ''text'') (LitI ''application'')) (Seq (Lit ''/'') (Seq (Opt (LitI ''x-''))
     (Seq (Alt (LitI ''java'') (LitI ''ecma'')) (Seq (LitI ''script'') (Seq (Opt (Seq (Lit '';'') (Star True dot))) Eol))))))"

text \<open>\<^verbatim>\<open>evalResponse\<close>: \<open>ev\<close> runs a text as a program.\<close>

definition evalResponse :: "'u user_functions \<Rightarrow> (string \<Rightarrow> 'u \<Rightarrow> (exn + unit) \<times> 'u) \<Rightarrow> nat \<Rightarrow> ('u net, unit) prog" where
  "evalResponse uf ev i =
     p_catch (\<lambda>s. case String_unfilterJSON (responseText (rq_transport (rq i s))) of
         None \<Rightarrow> None
       | Some t \<Rightarrow> (case ev t (user s) of (r, u) \<Rightarrow> Some (r, s\<lparr>user := u\<rparr>)))
       (dispatchException uf i)"

text \<open>The handler of the outcome: by status, by success or failure, or none.\<close>

definition outcome_handler :: "request \<Rightarrow> handler option" where
  "outcome_handler r =
     (let hs = opt_handlers (rq_options r); t = rq_transport r in
      case map_of hs (''on'' @ digits 10 (int (t_status t))) of
        Some h \<Rightarrow> Some h
      | None \<Rightarrow> map_of hs (if success t then ''onSuccess'' else ''onFailure''))"

definition respondToReadyState :: "'u user_functions \<Rightarrow> (string \<Rightarrow> 'u \<Rightarrow> (exn + unit) \<times> 'u) \<Rightarrow> nat \<Rightarrow> nat
    \<Rightarrow> ('u net, unit) prog" where
  "respondToReadyState uf ev i rs =
     (let state = (if rs < 5 then Request_Events ! rs else ''undefined'') in
      p_then
        (if state = ''Complete'' then
           p_then (p_catch (p_then (set_rq i (\<lambda>r. r\<lparr>rq_complete := True\<rparr>))
               (\<lambda>s. case outcome_handler (rq i s) of None \<Rightarrow> p_ret () s | Some h \<Rightarrow> call uf h s))
             (dispatchException uf i))
           (\<lambda>s. case getHeader ''Content-type'' (rq_transport (rq i s)) of
               None \<Rightarrow> p_ret () s
             | Some t \<Rightarrow> if t \<noteq> [] \<and> regex_test script_type (String_strip t) then evalResponse uf ev i s else p_ret () s)
         else p_ret ())
     (p_then
        (p_catch (p_then (call_option uf i (''on'' @ state)) (Responders_dispatch uf (''on'' @ state)))
           (dispatchException uf i))
        (if state = ''Complete'' then set_transport i (\<lambda>t. t\<lparr>onreadystatechange := False\<rparr>) else p_ret ())))"

definition onStateChange :: "'u user_functions \<Rightarrow> (string \<Rightarrow> 'u \<Rightarrow> (exn + unit) \<times> 'u) \<Rightarrow> nat \<Rightarrow> ('u net, unit) prog" where
  "onStateChange uf ev i s =
     (let rs = readyState (rq_transport (rq i s)) in
      if 1 < rs \<and> \<not> (rs = 4 \<and> rq_complete (rq i s)) then respondToReadyState uf ev i rs s else p_ret () s)"

section \<open>Headers\<close>

text \<open>Headers in an array: name, value, name, value; a missing last value is sent as \<^verbatim>\<open>undefined\<close>.\<close>

fun header_pairs :: "string list \<Rightarrow> (string \<times> string) list" where
  "header_pairs [] = []"
| "header_pairs [n] = [(n, ''undefined'')]"
| "header_pairs (n # v # ns) = (n, v) # header_pairs ns"

definition gecko_re :: regex where
  "gecko_re = Seq (Lit ''Gecko/'') (Group 1 (Seq (Ch is_digit) (Seq (Ch is_digit) (Seq (Ch is_digit) (Ch is_digit)))))"

definition old_gecko :: "string \<Rightarrow> bool" where
  "old_gecko ua = (case regex_match gecko_re ua of
     None \<Rightarrow> False | Some m \<Rightarrow> to_num (group m 1) < Fin 2005)"

definition request_headers :: "browser \<Rightarrow> request \<Rightarrow> (string \<times> string) list" where
  "request_headers br r =
     (let o1 = rq_options r;
          h0 = [(''X-Requested-With'', ''XMLHttpRequest''), (''X-Prototype-Version'', ''1.5.1''),
                (''Accept'', ''text/javascript, text/html, application/xml, text/xml, */*'')];
          h1 = (if rq_method r = ''post'' then
                  (let h = set_prop ''Content-type''
                     (contentType o1 @ (if encoding o1 \<noteq> [] then ''; charset='' @ encoding o1 else [])) h0
                   in if overrideMimeType (rq_transport r) \<and> old_gecko (userAgent br)
                      then set_prop ''Connection'' ''close'' h else h)
                else h0)
      in case requestHeaders o1 of
           NoHeaders \<Rightarrow> h1
         | HeaderArray xs \<Rightarrow> Object_extend h1 (header_pairs xs)
         | HeaderObject ps \<Rightarrow> Object_extend h1 ps)"

definition setRequestHeaders :: "browser \<Rightarrow> nat \<Rightarrow> ('u net, unit) prog" where
  "setRequestHeaders br i s = set_transport i
     (\<lambda>t. t\<lparr>sentHeaders := sentHeaders t @ request_headers br (rq i s)\<rparr>) s"

section \<open>Sending\<close>

definition konqueror_re :: regex where
  "konqueror_re = Alt (Lit ''Konqueror'') (Alt (Lit ''Safari'') (Lit ''KHTML''))"

text \<open>The method, the parameters, the address and the query text of a request.\<close>

record sending =
  snd_method :: string
  snd_parameters :: props
  snd_url :: string
  snd_query :: string

definition prepare :: "browser \<Rightarrow> ajax_options \<Rightarrow> string \<Rightarrow> sending" where
  "prepare br o1 url =
     (let ps = Object_clone (case opt_parameters o1 of ParamObject ps \<Rightarrow> ps | ParamText _ \<Rightarrow> []);
          simulated = opt_method o1 \<notin> {''get'', ''post''};
          method = (if simulated then ''post'' else opt_method o1);
          params = (if simulated then set_prop ''_method'' (Str (opt_method o1)) ps else ps);
          query = Hash_toQueryString (hash_proto br) params
      in \<lparr>snd_method = method, snd_parameters = params,
          snd_url = (if query \<noteq> [] \<and> method = ''get'' then url @ (if String_include url ''?'' then ''&'' else ''?'') @ query
                     else url),
          snd_query = (if query \<noteq> [] \<and> method \<noteq> ''get'' \<and> regex_test konqueror_re (userAgent br) then query @ ''&_=''
                       else query)\<rparr>)"

definition throw_if :: "exn option \<Rightarrow> ('u net, unit) prog" where
  "throw_if e = (case e of None \<Rightarrow> p_ret () | Some x \<Rightarrow> p_throw x)"

definition send_body :: "sending \<Rightarrow> ajax_options \<Rightarrow> string option" where
  "send_body sd o1 = (if snd_method sd = ''post'' then Some (if postBody o1 \<noteq> [] then postBody o1 else snd_query sd) else None)"

definition Request_request :: "browser \<Rightarrow> 'u user_functions \<Rightarrow> (string \<Rightarrow> 'u \<Rightarrow> (exn + unit) \<times> 'u) \<Rightarrow> nat \<Rightarrow> string
    \<Rightarrow> ('u net, unit) prog" where
  "Request_request br uf ev i url s0 =
     (let o1 = rq_options (rq i s0); t0 = rq_transport (rq i s0); sd = prepare br o1 url in
      p_then (set_rq i (\<lambda>r. r\<lparr>rq_url := snd_url sd, rq_method := snd_method sd, rq_parameters := snd_parameters sd\<rparr>))
        (p_catch
          (p_then (call_option uf i ''onCreate'')
          (p_then (Responders_dispatch uf ''onCreate'')
          (p_then (throw_if (openError t0))
          (p_then (set_transport i (\<lambda>t. t\<lparr>opened := Some (toUpperCase (snd_method sd), snd_url sd, asynchronous o1)\<rparr>))
          (p_then (if asynchronous o1 then set_rq i (\<lambda>r. r\<lparr>rq_timer := True\<rparr>) else p_ret ())
          (p_then (set_transport i (\<lambda>t. t\<lparr>onreadystatechange := True\<rparr>))
          (p_then (setRequestHeaders br i)
          (p_then (throw_if (sendError t0))
          (p_then (set_transport i (\<lambda>t. t\<lparr>sentBody := send_body sd o1\<rparr>))
             (if \<not> asynchronous o1 \<and> overrideMimeType t0 then onStateChange uf ev i else p_ret ()))))))))))
          (dispatchException uf i)) s0)"

text \<open>\<^verbatim>\<open>new Ajax.Request(url, options)\<close>: \<open>t\<close> is the transport that the browser gives.\<close>

definition Request_initialize :: "browser \<Rightarrow> 'u user_functions \<Rightarrow> (string \<Rightarrow> 'u \<Rightarrow> (exn + unit) \<times> 'u) \<Rightarrow> transport
    \<Rightarrow> nat \<Rightarrow> string \<Rightarrow> ajax_setting list \<Rightarrow> ('u net, unit) prog" where
  "Request_initialize br uf ev t a url settings s =
     (case Ajax_setOptions br a settings of
        None \<Rightarrow> None
      | Some (Inl e) \<Rightarrow> Some (Inl e, s)
      | Some (Inr o1) \<Rightarrow> Request_request br uf ev (length (requests s)) url
          (s\<lparr>requests := requests s @ [\<lparr>rq_options = o1, rq_url = url, rq_method = opt_method o1, rq_parameters = [],
             rq_complete = False, rq_timer = False, rq_transport = t\<rparr>]\<rparr>))"

section \<open>Updaters\<close>

text \<open>The elements that take the response: one for success and one for failure, when there is one.\<close>

record container =
  ct_success :: string
  ct_failure :: "string option"

text \<open>A container is given as one element, or as an object with a property \<^verbatim>\<open>success\<close> and perhaps \<^verbatim>\<open>failure\<close>.\<close>

datatype container_option = One string | Success string "string option"

definition container_of :: "container_option \<Rightarrow> container" where
  "container_of co = (case co of
     One e \<Rightarrow> \<lparr>ct_success = e, ct_failure = Some e\<rparr>
   | Success s f \<Rightarrow> \<lparr>ct_success = s, ct_failure = f\<rparr>)"

text \<open>
  \<^verbatim>\<open>updateContent\<close>: the change of the page, if any; \<open>dollar\<close> finds an element by its name, and an insertion is named by a number.
  The property \<^verbatim>\<open>onComplete\<close> of an updater is never set, so that its last part does nothing.
\<close>

datatype content_change = Insertion nat string string | Update string string

definition updateContent :: "(string \<Rightarrow> string option) \<Rightarrow> container \<Rightarrow> bool \<Rightarrow> nat option \<Rightarrow> transport \<Rightarrow> content_change option" where
  "updateContent dollar ct evalScripts insertion t =
     (let receiver = (if success t then Some (ct_success ct) else ct_failure ct);
          response = (if \<not> evalScripts then String_stripScripts (responseText t) else responseText t)
      in case Option.bind receiver dollar of
           None \<Rightarrow> None
         | Some e \<Rightarrow> Some (case insertion of Some n \<Rightarrow> Insertion n e response | None \<Rightarrow> Update e response))"

record periodical =
  pu_frequency :: jsnum
  pu_decay_option :: jsnum
  pu_decay :: jsnum
  pu_lastText :: "string option"
  pu_timer :: "jsnum option"

definition Periodical_initialize :: "jsnum \<Rightarrow> jsnum \<Rightarrow> periodical" where
  "Periodical_initialize frequency decay =
     \<lparr>pu_frequency = (if num_truthy frequency then frequency else Fin 2), pu_decay_option = decay,
      pu_decay = (if num_truthy decay then decay else Fin 1), pu_lastText = None, pu_timer = None\<rparr>"

definition updateComplete :: "string \<Rightarrow> periodical \<Rightarrow> periodical" where
  "updateComplete text p =
     (let p1 = (if num_truthy (pu_decay_option p)
                then p\<lparr>pu_decay := (if pu_lastText p = Some text then pu_decay p * pu_decay_option p else Fin 1),
                       pu_lastText := Some text\<rparr>
                else p)
      in p1\<lparr>pu_timer := Some (pu_decay p1 * pu_frequency p1 * Fin 1000)\<rparr>)"


section \<open>Properties of timers\<close>

text \<open>
  \<^verbatim>\<open>Try.these\<close> returns the value of the first function that does not throw, after the effects of those
  before it.
\<close>

theorem Try_these_first:
  assumes "\<And>l. l \<in> set ls \<Longrightarrow> \<forall>s. \<exists>e t. l s = Some (Inl e, t)"
  shows "\<exists>t. \<forall>v u. l t = Some (Inr v, u) \<longrightarrow> Try_these (ls @ l # ls') s = Some (Inr (Some v), u)"
  using assms
proof (induction ls arbitrary: s)
  case Nil
  then show ?case by (intro exI [of _ s]) (simp add: p_catch_def p_bind_def p_ret_def)
next
  case (Cons k ls)
  then obtain e t where k: "k s = Some (Inl e, t)" by (metis list.set_intros(1))
  obtain t' where "\<forall>v u. l t' = Some (Inr v, u) \<longrightarrow> Try_these (ls @ l # ls') t = Some (Inr (Some v), u)"
    using Cons by (meson list.set_intros(2))
  then show ?case by (intro exI [of _ t']) (simp add: p_catch_def p_bind_def k)
qed

text \<open>
  A timer event that comes while the callback runs does nothing, and after the callback, also when
  it throws, the executer is ready for the next event.
\<close>

theorem onTimerEvent_not_reentrant:
  "(currentlyExecuting e \<longrightarrow> onTimerEvent callback e = Some (Inr (), e)) \<and>
   (\<not> currentlyExecuting e \<longrightarrow> onTimerEvent callback e = Some (r, e') \<longrightarrow>
     \<not> currentlyExecuting e' \<and> (\<exists>e1. callback (e\<lparr>currentlyExecuting := True\<rparr>) = Some (r, e1) \<and> e' = e1\<lparr>currentlyExecuting := False\<rparr>))"
  by (auto simp: onTimerEvent_def p_finally_def p_then_def p_bind_def p_mod_def p_ret_def)

section \<open>The count of active requests\<close>

definition user_handlers :: "(string \<times> handler) list \<Rightarrow> bool" where
  "user_handlers hs \<longleftrightarrow> (\<forall>h \<in> snd ` set hs. h \<noteq> CountUp \<and> h \<noteq> CountDown)"

text \<open>What the count depends on: the responders, and of each request its options and whether it is complete.\<close>

definition core :: "request \<Rightarrow> ajax_options \<times> bool" where
  "core r = (rq_options r, rq_complete r)"

definition count_view :: "'u net \<Rightarrow> responder list \<times> int \<times> (ajax_options \<times> bool) list" where
  "count_view s = (responders s, activeRequestCount s, map core (requests s))"

definition users_ok :: "'u net \<Rightarrow> bool" where
  "users_ok s \<longleftrightarrow> (\<exists>rs. responders s = counter # rs \<and> (\<forall>r \<in> set rs. user_handlers (handlers r))) \<and>
     (\<forall>o1 \<in> set (map rq_options (requests s)). user_handlers (opt_handlers o1))"

lemma core_options: "map core a = map core b \<Longrightarrow> map rq_options a = map rq_options b"
  by (drule arg_cong [of _ _ "map fst"]) (simp add: comp_def core_def)

lemma users_ok_view: "count_view t = count_view s \<Longrightarrow> users_ok t = users_ok s"
  using core_options [of "requests t" "requests s"] by (simp add: users_ok_def count_view_def)

text \<open>User functions that do not throw.\<close>

definition quiet :: "'u user_functions \<Rightarrow> bool" where
  "quiet uf \<longleftrightarrow> (\<forall>n u. fst (uf n u) = Inr ())"

text \<open>The responders and the options are the user's, and \<open>i\<close> names a request.\<close>

definition fine :: "nat \<Rightarrow> 'u net \<Rightarrow> bool" where
  "fine i s \<longleftrightarrow> users_ok s \<and> i < length (requests s)"

lemma fine_view: "count_view t = count_view s \<Longrightarrow> fine i t = fine i s"
  using users_ok_view [of t s] by (auto simp: fine_def count_view_def dest: arg_cong [of _ _ length])

text \<open>An operation that returns, if it does, normally and with the count and what it depends on unchanged.\<close>

definition calm :: "nat \<Rightarrow> ('u net, unit) prog \<Rightarrow> bool" where
  "calm i m \<longleftrightarrow> (\<forall>s r t. fine i s \<longrightarrow> m s = Some (r, t) \<longrightarrow> r = Inr () \<and> count_view t = count_view s)"

named_theorems calm

lemma calmD: "calm i m \<Longrightarrow> fine i s \<Longrightarrow> m s = Some (r, t) \<Longrightarrow> r = Inr () \<and> count_view t = count_view s \<and> fine i t"
  using fine_view [of t s i] by (auto simp: calm_def)

lemma calm_ret [calm]: "calm i (p_ret ())"
  by (simp add: calm_def p_ret_def)

lemma calm_then [calm]:
  assumes "calm i m" "calm i n"
  shows "calm i (p_then m n)"
  unfolding calm_def
proof (intro allI impI)
  fix s r t assume s: "fine i s" "p_then m n s = Some (r, t)"
  then obtain r1 s1 where m: "m s = Some (r1, s1)"
    by (auto simp: p_then_def p_bind_def split: option.splits)
  note m1 = calmD [OF assms(1) s(1) m]
  then have "n s1 = Some (r, t)" using s(2) m by (simp add: p_then_def p_bind_def)
  then show "r = Inr () \<and> count_view t = count_view s" using calmD [OF assms(2), of s1] m1 by auto
qed

text \<open>An operation that may throw, with the exception caught.\<close>

lemma calm_catch:
  assumes "\<And>s r t. fine i s \<Longrightarrow> m s = Some (r, t) \<Longrightarrow> count_view t = count_view s" and "\<And>e. calm i (h e)"
  shows "calm i (p_catch m h)"
  unfolding calm_def
proof (intro allI impI)
  fix s r t assume s: "fine i s" "p_catch m h s = Some (r, t)"
  then obtain r1 s1 where m: "m s = Some (r1, s1)"
    by (auto simp: p_catch_def split: option.splits)
  have v: "count_view s1 = count_view s" by (rule assms(1) [OF s(1) m])
  show "r = Inr () \<and> count_view t = count_view s"
  proof (cases r1)
    case (Inl e)
    then have "h e s1 = Some (r, t)" using s(2) m by (simp add: p_catch_def)
    then show ?thesis using calmD [OF assms(2), of s1] v fine_view [OF v, of i] s(1) by auto
  next
    case (Inr a)
    then show ?thesis using s(2) m v by (simp add: p_catch_def)
  qed
qed

lemma calm_catch_calm [calm]: "calm i m \<Longrightarrow> (\<And>e. calm i (h e)) \<Longrightarrow> calm i (p_catch m h)"
  by (rule calm_catch) (auto dest: calmD)

lemma calm_at: "(\<And>s. fine i s \<Longrightarrow> calm i (m s)) \<Longrightarrow> calm i (\<lambda>s. m s s)"
  by (simp add: calm_def)

lemma calm_by: "(\<And>s. fine i s \<Longrightarrow> \<exists>n. calm i n \<and> m s = n s) \<Longrightarrow> calm i m"
  unfolding calm_def by metis

lemma calm_each [calm]: "(\<And>v. v \<in> set vs \<Longrightarrow> calm i (f v)) \<Longrightarrow> calm i (p_each f vs)"
  by (induction vs) (auto intro!: calm)

lemma core_update: "(\<And>r. core (f r) = core r) \<Longrightarrow> map core (rs[i := f (rs ! i)]) = map core rs"
  by (cases "i < length rs") (simp_all add: map_update list_update_same_conv list_update_beyond)

lemma calm_set_rq [calm]: "(\<And>r. core (f r) = core r) \<Longrightarrow> calm i (set_rq i f)"
  by (simp add: calm_def set_rq_def p_mod_def count_view_def core_update)

lemma calm_set_transport [calm]: "calm i (set_transport i f)"
  unfolding set_transport_def by (rule calm_set_rq) (simp add: core_def)

lemma calm_call:
  assumes "quiet uf" "h \<noteq> CountUp" "h \<noteq> CountDown"
  shows "calm i (call uf h)"
proof -
  have "fst (uf n u) = Inr ()" for n u using assms(1) by (simp add: quiet_def)
  then show ?thesis using assms(2,3)
    by (cases h) (auto simp: calm_def call_def count_view_def split: prod.splits dest: arg_cong [of _ _ fst])
qed

lemma calm_handler:
  assumes "quiet uf" "user_handlers hs"
  shows "calm i (case map_of hs name of None \<Rightarrow> p_ret () | Some h \<Rightarrow> call uf h)"
  using assms(2) by (auto simp: user_handlers_def intro!: calm_ret calm_call [OF assms(1)] split: option.split dest!: map_of_SomeD)

lemma fine_options: "fine i s \<Longrightarrow> user_handlers (opt_handlers (rq_options (rq i s)))"
  by (auto simp: fine_def users_ok_def rq_def core_def)

lemma calm_call_option [calm]:
  assumes "quiet uf"
  shows "calm i (call_option uf i name)"
proof -
  have "call_option uf i name = (\<lambda>s. (case map_of (opt_handlers (rq_options (rq i s))) name of
      None \<Rightarrow> p_ret () | Some h \<Rightarrow> call uf h) s)"
    by (auto simp: fun_eq_iff call_option_def split: option.split)
  moreover have "calm i (\<lambda>s. (case map_of (opt_handlers (rq_options (rq i s))) name of
      None \<Rightarrow> p_ret () | Some h \<Rightarrow> call uf h) s)"
    by (rule calm_at) (rule calm_handler [OF assms fine_options])
  ultimately show ?thesis by simp
qed

text \<open>Dispatching to the responders: the library's own comes first, the others do not change the count.\<close>

lemma calm_responders:
  assumes "quiet uf" "\<And>r. r \<in> set rs \<Longrightarrow> user_handlers (handlers r)"
  shows "calm i (p_each (\<lambda>r. case map_of (handlers r) cb of None \<Rightarrow> p_ret ()
     | Some h \<Rightarrow> p_catch (call uf h) (\<lambda>_. p_ret ())) rs)"
proof (rule calm_each)
  fix r assume "r \<in> set rs"
  then have "user_handlers (handlers r)" by (rule assms(2))
  then show "calm i (case map_of (handlers r) cb of None \<Rightarrow> p_ret () | Some h \<Rightarrow> p_catch (call uf h) (\<lambda>_. p_ret ()))"
    by (auto simp: user_handlers_def intro!: calm calm_call [OF assms(1)] split: option.split dest!: map_of_SomeD)
qed

lemma dispatch_count:
  assumes "quiet uf" "fine i s" "Responders_dispatch uf cb s = Some (r, t)"
  shows "r = Inr () \<and> responders t = responders s \<and> map core (requests t) = map core (requests s) \<and>
    activeRequestCount t = activeRequestCount s +
      (if cb = ''onCreate'' then 1 else if cb = ''onComplete'' then - 1 else 0)"
proof -
  obtain rs where rs: "responders s = counter # rs" "\<And>r. r \<in> set rs \<Longrightarrow> user_handlers (handlers r)"
    using assms(2) by (auto simp: fine_def users_ok_def)
  let ?d = "if cb = ''onCreate'' then 1 else if cb = ''onComplete'' then - 1 else (0 :: int)"
  let ?f = "\<lambda>r. case map_of (handlers r) cb of None \<Rightarrow> p_ret () | Some h \<Rightarrow> p_catch (call uf h) (\<lambda>_. p_ret ())"
  let ?s = "s\<lparr>activeRequestCount := activeRequestCount s + ?d\<rparr>"
  have "?f counter s = Some (Inr (), ?s)"
    by (simp add: counter_def p_ret_def p_catch_def call_def)
  then have "p_each ?f rs ?s = Some (r, t)"
    using assms(3) by (simp add: Responders_dispatch_def rs(1) p_then_def p_bind_def)
  moreover have "fine i ?s" using assms(2) by (simp add: fine_def users_ok_def)
  ultimately have "r = Inr () \<and> count_view t = count_view ?s"
    using calm_responders [OF assms(1) rs(2)] by (meson calm_def)
  then show ?thesis by (simp add: count_view_def)
qed

lemma calm_dispatch [calm]:
  assumes "quiet uf" "cb \<noteq> ''onCreate''" "cb \<noteq> ''onComplete''"
  shows "calm i (Responders_dispatch uf cb)"
  unfolding calm_def using dispatch_count [OF assms(1)] assms(2,3) by (fastforce simp: count_view_def)

lemma calm_exception [calm]: "quiet uf \<Longrightarrow> calm i (dispatchException uf i e)"
  unfolding dispatchException_def by (intro calm) simp_all

lemma calm_evalResponse [calm]:
  assumes "quiet uf"
  shows "calm i (evalResponse uf ev i)"
  unfolding evalResponse_def
  by (rule calm_catch) (auto simp: count_view_def split: option.splits prod.splits intro!: calm assms)

section \<open>Requests and their completion\<close>

lemma option_dispatch_count:
  assumes "quiet uf" "fine i s"
    and "p_catch (p_then (call_option uf i cb) (Responders_dispatch uf cb)) h s = Some (r, t)"
  shows "r = Inr () \<and> responders t = responders s \<and> map core (requests t) = map core (requests s) \<and>
    activeRequestCount t = activeRequestCount s +
      (if cb = ''onCreate'' then 1 else if cb = ''onComplete'' then - 1 else 0)"
proof -
  obtain r1 s1 where c: "call_option uf i cb s = Some (r1, s1)"
    using assms(3) by (auto simp: p_catch_def p_then_def p_bind_def split: option.splits)
  note c1 = calmD [OF calm_call_option [OF assms(1)] assms(2) c]
  obtain r2 s2 where d: "Responders_dispatch uf cb s1 = Some (r2, s2)"
    using assms(3) c c1 by (auto simp: p_catch_def p_then_def p_bind_def split: option.splits)
  have "r2 = Inr ()" using dispatch_count [OF assms(1) _ d, of i] c1 by simp
  then have "r = Inr ()" "t = s2" using assms(3) c c1 d by (auto simp: p_catch_def p_then_def p_bind_def)
  then show ?thesis using dispatch_count [OF assms(1) _ d, of i] c1 by (auto simp: count_view_def)
qed

definition event_name :: "nat \<Rightarrow> string" where
  "event_name rs = (if rs < 5 then Request_Events ! rs else ''undefined'')"

lemma event_name_cases:
  "event_name rs = ''Complete'' \<longleftrightarrow> rs = 4" "''on'' @ event_name rs = ''onComplete'' \<longleftrightarrow> rs = 4" "''on'' @ event_name rs \<noteq> ''onCreate''"
proof -
  have "rs = 0 \<or> rs = 1 \<or> rs = 2 \<or> rs = 3 \<or> rs = 4 \<or> 5 \<le> rs" by linarith
  then show "event_name rs = ''Complete'' \<longleftrightarrow> rs = 4" "''on'' @ event_name rs = ''onComplete'' \<longleftrightarrow> rs = 4" "''on'' @ event_name rs \<noteq> ''onCreate''"
    by (auto simp: event_name_def Request_Events_def numeral_eq_Suc)
qed

lemma respond_calm:
  assumes "quiet uf" "rs \<noteq> 4"
  shows "calm i (respondToReadyState uf ev i rs)"
  unfolding respondToReadyState_def Let_def event_name_def [symmetric]
  using assms event_name_cases [of rs] by (auto intro!: calm)

lemma calm_outcome:
  assumes "quiet uf"
  shows "calm i (\<lambda>s. case outcome_handler (rq i s) of None \<Rightarrow> p_ret () s | Some h \<Rightarrow> call uf h s)"
proof (rule calm_by)
  fix s :: "'a net" assume s: "fine i s"
  show "\<exists>n. calm i n \<and> (case outcome_handler (rq i s) of None \<Rightarrow> p_ret () s | Some h \<Rightarrow> call uf h s) = n s"
  proof (cases "outcome_handler (rq i s)")
    case (Some h)
    then have "h \<in> snd ` set (opt_handlers (rq_options (rq i s)))"
      by (force simp: outcome_handler_def Let_def split: option.splits dest: map_of_SomeD)
    then have "h \<noteq> CountUp" "h \<noteq> CountDown" using fine_options [OF s] by (auto simp: user_handlers_def)
    then show ?thesis using Some calm_call [OF assms] by auto
  qed (auto intro: calm_ret)
qed

lemma calm_script:
  assumes "quiet uf"
  shows "calm i (\<lambda>s. case getHeader ''Content-type'' (rq_transport (rq i s)) of None \<Rightarrow> p_ret () s
     | Some t \<Rightarrow> if t \<noteq> [] \<and> regex_test script_type (String_strip t) then evalResponse uf ev i s else p_ret () s)"
  by (rule calm_by) (auto intro: calm_ret calm_evalResponse [OF assms] split: option.split)

lemma p_then_catch_mod: "p_then (p_then (p_catch (p_then (p_mod f) m) h) n) k s = p_then (p_then (p_catch m h) n) k (f s)"
  by (simp add: p_then_def p_bind_def p_catch_def p_mod_def)

lemma calm_thenE:
  assumes "calm i m" "fine i s" "p_then m n s = Some (r, t)"
  obtains s1 where "count_view s1 = count_view s" "fine i s1" "n s1 = Some (r, t)"
proof -
  obtain r1 s1 where m: "m s = Some (r1, s1)"
    using assms(3) by (auto simp: p_then_def p_bind_def split: option.splits)
  note m1 = calmD [OF assms(1,2) m]
  then have "n s1 = Some (r, t)" using assms(3) m by (simp add: p_then_def p_bind_def)
  with m1 that show thesis by blast
qed

lemma fine_cong:
  assumes "responders t = responders s" "map core (requests t) = map core (requests s)" "fine i s"
  shows "fine i t"
proof -
  have "length (requests t) = length (requests s)" using arg_cong [OF assms(2), of length] by simp
  then show ?thesis using assms core_options [OF assms(2)] by (simp add: fine_def users_ok_def del: set_map)
qed

lemma respond_complete:
  assumes "quiet uf" "fine i s" "respondToReadyState uf ev i 4 s = Some (r, t)"
  shows "responders t = responders s \<and> activeRequestCount t = activeRequestCount s - 1 \<and>
    map core (requests t) = (map core (requests s))[i := (rq_options (rq i s), True)]"
proof -
  let ?done = "\<lambda>r. r\<lparr>rq_complete := True\<rparr>"
  let ?s1 = "s\<lparr>requests := (requests s)[i := ?done (requests s ! i)]\<rparr>"
  let ?out = "\<lambda>s. case outcome_handler (rq i s) of None \<Rightarrow> p_ret () s | Some h \<Rightarrow> call uf h s"
  let ?script = "\<lambda>s. case getHeader ''Content-type'' (rq_transport (rq i s)) of None \<Rightarrow> p_ret () s
     | Some t \<Rightarrow> if t \<noteq> [] \<and> regex_test script_type (String_strip t) then evalResponse uf ev i s else p_ret () s"
  let ?fin = "p_catch (p_then (call_option uf i ''onComplete'') (Responders_dispatch uf ''onComplete'')) (dispatchException uf i)"
  let ?first = "p_then (p_catch ?out (dispatchException uf i)) ?script"
  have e: "event_name 4 = ''Complete''" by (simp add: event_name_cases)
  have u: "users_ok ?s1"
  proof -
    have "map rq_options (requests ?s1) = map rq_options (requests s)"
      using assms(2) by (simp add: map_update fine_def list_update_same_conv)
    then show ?thesis using assms(2) by (simp add: fine_def users_ok_def del: set_map)
  qed
  then have f1: "fine i ?s1" using assms(2) by (simp add: fine_def)
  have "p_then (p_then (p_catch (p_then (set_rq i ?done) ?out) (dispatchException uf i)) ?script)
      (p_then ?fin (set_transport i (\<lambda>t. t\<lparr>onreadystatechange := False\<rparr>))) s = Some (r, t)"
    using assms(3) unfolding respondToReadyState_def Let_def event_name_def [symmetric] e by simp
  then have a: "p_then ?first (p_then ?fin (set_transport i (\<lambda>t. t\<lparr>onreadystatechange := False\<rparr>))) ?s1 = Some (r, t)"
    unfolding set_rq_def p_then_catch_mod .
  have b: "calm i ?first"
    by (rule calm_then [OF calm_catch_calm [OF calm_outcome [OF assms(1)] calm_exception [OF assms(1)]] calm_script [OF assms(1)]])
  obtain s2 where s2: "count_view s2 = count_view ?s1" "fine i s2"
    "p_then ?fin (set_transport i (\<lambda>t. t\<lparr>onreadystatechange := False\<rparr>)) s2 = Some (r, t)"
    by (rule calm_thenE [OF b f1 a])
  obtain r3 s3 where s3: "?fin s2 = Some (r3, s3)"
    using s2(3) by (auto simp: p_then_def p_bind_def split: option.splits)
  note d = option_dispatch_count [OF assms(1) s2(2) s3]
  have "set_transport i (\<lambda>t. t\<lparr>onreadystatechange := False\<rparr>) s3 = Some (r, t)"
    using s2(3) s3 d by (simp add: p_then_def p_bind_def)
  moreover have "fine i s3" using fine_cong [OF _ _ s2(2)] d by blast
  ultimately have v: "count_view t = count_view s3" using calmD [OF calm_set_transport, of i s3] by blast
  have "map core (requests ?s1) = (map core (requests s))[i := (rq_options (rq i s), True)]"
    by (simp add: map_update core_def rq_def)
  then show ?thesis using v d s2(1) unfolding count_view_def by simp
qed

text \<open>The responders, the options, and how far the count is from the number of incomplete requests.\<close>

definition incomplete :: "(ajax_options \<times> bool) list \<Rightarrow> int" where
  "incomplete cs = int (length (filter (\<lambda>(_, b). \<not> b) cs))"

definition excess :: "'u net \<Rightarrow> int" where
  "excess s = activeRequestCount s - incomplete (map core (requests s))"

definition frame :: "'u net \<Rightarrow> responder list \<times> ajax_options list" where
  "frame s = (responders s, map rq_options (requests s))"

lemma fine_frame: "frame t = frame s \<Longrightarrow> fine i t = fine i s"
proof -
  assume f: "frame t = frame s"
  then have "map rq_options (requests t) = map rq_options (requests s)" by (simp add: frame_def)
  moreover from this have "length (requests t) = length (requests s)" by (metis length_map)
  ultimately show ?thesis using f by (simp add: fine_def users_ok_def frame_def del: set_map)
qed

lemma view_frame: "count_view t = count_view s \<Longrightarrow> frame t = frame s \<and> excess t = excess s"
proof -
  assume v: "count_view t = count_view s"
  then have "map rq_options (requests t) = map rq_options (requests s)" by (intro core_options) (simp add: count_view_def)
  then show ?thesis using v by (simp add: count_view_def frame_def excess_def)
qed

text \<open>An operation that may throw and keeps the excess.\<close>

definition steady :: "nat \<Rightarrow> ('u net, unit) prog \<Rightarrow> bool" where
  "steady i m \<longleftrightarrow> (\<forall>s r t. fine i s \<longrightarrow> m s = Some (r, t) \<longrightarrow> frame t = frame s \<and> excess t = excess s)"

named_theorems steady

lemma steadyD: "steady i m \<Longrightarrow> fine i s \<Longrightarrow> m s = Some (r, t) \<Longrightarrow> frame t = frame s \<and> excess t = excess s \<and> fine i t"
  using fine_frame [of t s i] by (auto simp: steady_def)

lemma steady_calm: "calm i m \<Longrightarrow> steady i m"
  unfolding steady_def by (blast dest: calmD view_frame)

lemma steady_throw [steady]: "steady i (throw_if e)"
  by (auto simp: steady_def throw_if_def p_throw_def p_ret_def split: option.splits)

lemma steady_then [steady]:
  assumes "steady i m" "steady i n"
  shows "steady i (p_then m n)"
  unfolding steady_def
proof (intro allI impI)
  fix s r t assume s: "fine i s" "p_then m n s = Some (r, t)"
  then obtain r1 s1 where m: "m s = Some (r1, s1)"
    by (auto simp: p_then_def p_bind_def split: option.splits)
  note m1 = steadyD [OF assms(1) s(1) m]
  show "frame t = frame s \<and> excess t = excess s"
  proof (cases r1)
    case (Inl e)
    then have "t = s1" using s(2) m by (simp add: p_then_def p_bind_def)
    then show ?thesis using m1 by simp
  next
    case (Inr a)
    then have "n s1 = Some (r, t)" using s(2) m by (simp add: p_then_def p_bind_def)
    from steadyD [OF assms(2) _ this] show ?thesis using m1 by simp
  qed
qed

lemma steady_catch [steady]:
  assumes "steady i m" "\<And>e. steady i (h e)"
  shows "steady i (p_catch m h)"
  unfolding steady_def
proof (intro allI impI)
  fix s r t assume s: "fine i s" "p_catch m h s = Some (r, t)"
  then obtain r1 s1 where m: "m s = Some (r1, s1)"
    by (auto simp: p_catch_def split: option.splits)
  note m1 = steadyD [OF assms(1) s(1) m]
  show "frame t = frame s \<and> excess t = excess s"
  proof (cases r1)
    case (Inl e)
    then have "h e s1 = Some (r, t)" using s(2) m by (simp add: p_catch_def)
    from steadyD [OF assms(2) _ this] show ?thesis using m1 by simp
  next
    case (Inr a)
    then have "t = s1" using s(2) m by (simp add: p_catch_def)
    then show ?thesis using m1 by simp
  qed
qed

lemma incomplete_update:
  "i < length cs \<Longrightarrow> cs ! i = (o1, False) \<Longrightarrow> incomplete (cs[i := (o2, True)]) = incomplete cs - 1"
proof (induction cs arbitrary: i)
  case (Cons c cs)
  then show ?case by (cases i) (auto simp: incomplete_def)
qed simp

lemma steady_onStateChange [steady]:
  assumes "quiet uf"
  shows "steady i (onStateChange uf ev i)"
  unfolding steady_def
proof (intro allI impI)
  fix s r t assume s: "fine i s" "onStateChange uf ev i s = Some (r, t)"
  let ?rs = "readyState (rq_transport (rq i s))"
  consider "t = s" | "?rs \<noteq> 4" "respondToReadyState uf ev i ?rs s = Some (r, t)"
    | "\<not> rq_complete (rq i s)" "respondToReadyState uf ev i 4 s = Some (r, t)"
    using s(2) by (cases "?rs = 4") (auto simp: onStateChange_def Let_def p_ret_def split: if_splits)
  then show "frame t = frame s \<and> excess t = excess s"
  proof cases
    case 2
    show ?thesis by (rule view_frame) (use calmD [OF respond_calm [OF assms 2(1)] s(1) 2(2)] in blast)
  next
    case 3
    note c = respond_complete [OF assms s(1) 3(2)]
    have i: "i < length (map core (requests s))" "map core (requests s) ! i = (rq_options (rq i s), False)"
      using s(1) 3(1) by (simp_all add: fine_def core_def rq_def)
    have o: "map rq_options rs = map fst (map core rs)" for rs by (simp add: comp_def core_def)
    have m: "map fst ((map core (requests s))[i := (rq_options (rq i s), True)]) = map fst (map core (requests s))"
      using i by (simp only: map_update list_update_same_conv length_map nth_map fst_conv)
    have "map rq_options (requests t) = map rq_options (requests s)"
      unfolding o c [THEN conjunct2, THEN conjunct2] by (rule m)
    then show ?thesis using c incomplete_update [OF i] by (simp add: frame_def excess_def)
  qed simp
qed

lemma request_excess:
  assumes "quiet uf" "fine i s" "Request_request br uf ev i url s = Some (r, t)"
  shows "frame t = frame s \<and> excess t = excess s + 1"
proof -
  define o1 where "o1 = rq_options (rq i s)"
  define t0 where "t0 = rq_transport (rq i s)"
  define sd where "sd = prepare br o1 url"
  define rest where "rest = p_then (throw_if (openError t0))
          (p_then (set_transport i (\<lambda>t. t\<lparr>opened := Some (toUpperCase (snd_method sd), snd_url sd, asynchronous o1)\<rparr>))
          (p_then (if asynchronous o1 then set_rq i (\<lambda>r. r\<lparr>rq_timer := True\<rparr>) else p_ret ())
          (p_then (set_transport i (\<lambda>t. t\<lparr>onreadystatechange := True\<rparr>))
          (p_then (setRequestHeaders br i)
          (p_then (throw_if (sendError t0))
          (p_then (set_transport i (\<lambda>t. t\<lparr>sentBody := send_body sd o1\<rparr>))
             (if \<not> asynchronous o1 \<and> overrideMimeType t0 then onStateChange uf ev i else p_ret ())))))))"
  let ?set = "set_rq i (\<lambda>r. r\<lparr>rq_url := snd_url sd, rq_method := snd_method sd, rq_parameters := snd_parameters sd\<rparr>)"
  have run: "p_then ?set (p_catch (p_then (call_option uf i ''onCreate'') (p_then (Responders_dispatch uf ''onCreate'') rest))
      (dispatchException uf i)) s = Some (r, t)"
    using assms(3) unfolding Request_request_def Let_def o1_def [symmetric] t0_def [symmetric] sd_def [symmetric] rest_def .
  have headers: "calm i (setRequestHeaders br i)"
    by (rule calm_by) (auto simp: setRequestHeaders_def intro: calm_set_transport)
  have last: "steady i (if \<not> asynchronous o1 \<and> overrideMimeType t0 then onStateChange uf ev i else p_ret ())"
    by (simp add: steady_onStateChange [OF assms(1)] steady_calm [OF calm_ret])
  have timer: "calm i (if asynchronous o1 then set_rq i (\<lambda>r. r\<lparr>rq_timer := True\<rparr>) else p_ret ())"
    by (simp add: calm_ret calm_set_rq core_def)
  have rest: "steady i rest"
    unfolding rest_def
    by (intro steady_then steady_throw steady_calm [OF calm_set_transport] steady_calm [OF timer] steady_calm [OF headers] last)
  have exc: "steady i (dispatchException uf i e)" for e
    by (rule steady_calm [OF calm_exception [OF assms(1)]])
  have sc: "steady i (p_catch rest (dispatchException uf i))" by (rule steady_catch [OF rest exc])
  have set: "calm i ?set" by (rule calm_set_rq) (simp add: core_def)
  obtain s1 where s1: "count_view s1 = count_view s" "fine i s1"
    "p_catch (p_then (call_option uf i ''onCreate'') (p_then (Responders_dispatch uf ''onCreate'') rest)) (dispatchException uf i) s1 = Some (r, t)"
    by (rule calm_thenE [OF set assms(2) run])
  obtain r2 s2 where s2: "call_option uf i ''onCreate'' s1 = Some (r2, s2)"
    using s1(3) by (auto simp: p_catch_def p_then_def p_bind_def split: option.splits)
  note c2 = calmD [OF calm_call_option [OF assms(1)] s1(2) s2]
  obtain r3 s3 where s3: "Responders_dispatch uf ''onCreate'' s2 = Some (r3, s3)"
    using s1(3) s2 c2 by (auto simp: p_catch_def p_then_def p_bind_def split: option.splits)
  have d: "r3 = Inr ()" "responders s3 = responders s2" "map core (requests s3) = map core (requests s2)"
    "activeRequestCount s3 = activeRequestCount s2 + 1"
    using dispatch_count [OF assms(1) _ s3, of i] c2 by auto
  have f3: "fine i s3" using fine_cong [OF d(2,3)] c2 by blast
  have "p_catch rest (dispatchException uf i) s3 = Some (r, t)"
    using s1(3) s2 c2 s3 d(1) by (simp add: p_catch_def p_then_def p_bind_def)
  then have e: "frame t = frame s3 \<and> excess t = excess s3"
    using steadyD [OF sc f3] by blast
  have "frame s3 = frame s2" "excess s3 = excess s2 + 1"
    using d core_options [OF d(3)] by (simp_all add: frame_def excess_def)
  then show ?thesis using e view_frame [of s2 s1] c2 view_frame [OF s1(1)] by simp
qed

section \<open>Any interleaving of requests\<close>

text \<open>
  A step of the page: a new request, a change that a transport reports to its request, the timer of an
  asynchronous request, and the user's changes to the responders.
\<close>

inductive net_step :: "browser \<Rightarrow> 'u user_functions \<Rightarrow> (string \<Rightarrow> 'u \<Rightarrow> (exn + unit) \<times> 'u) \<Rightarrow> 'u net \<Rightarrow> 'u net \<Rightarrow> bool"
  for br uf ev where
  create: "Request_initialize br uf ev t a url settings s = Some (r, s') \<Longrightarrow>
     (\<And>n h. SetHandler n h \<in> set settings \<Longrightarrow> h \<noteq> CountUp \<and> h \<noteq> CountDown) \<Longrightarrow> net_step br uf ev s s'"
| change: "i < length (requests s) \<Longrightarrow> onreadystatechange (rq_transport (rq i s)) \<Longrightarrow>
     set_transport i (\<lambda>t. t\<lparr>readyState := rs, t_status := st, responseHeaders := hs, responseText := tx\<rparr>) s = Some (Inr (), s1) \<Longrightarrow>
     onStateChange uf ev i s1 = Some (r, s') \<Longrightarrow> net_step br uf ev s s'"
| timeout: "i < length (requests s) \<Longrightarrow> rq_timer (rq i s) \<Longrightarrow>
     set_rq i (\<lambda>r. r\<lparr>rq_timer := False\<rparr>) s = Some (Inr (), s1) \<Longrightarrow>
     respondToReadyState uf ev i 1 s1 = Some (r, s') \<Longrightarrow> net_step br uf ev s s'"
| registers: "user_handlers (handlers r) \<Longrightarrow> net_step br uf ev s (Responders_register r s)"
| unregisters: "r \<noteq> counter \<Longrightarrow> net_step br uf ev s (Responders_unregister r s)"

inductive net_reachable :: "browser \<Rightarrow> 'u user_functions \<Rightarrow> (string \<Rightarrow> 'u \<Rightarrow> (exn + unit) \<times> 'u) \<Rightarrow> 'u net \<Rightarrow> bool"
  for br uf ev where
  start: "net_reachable br uf ev (new_net u)"
| step: "net_reachable br uf ev s \<Longrightarrow> net_step br uf ev s t \<Longrightarrow> net_reachable br uf ev t"

lemma extend_user_handlers:
  assumes "\<And>n h. SetHandler n h \<in> set settings \<Longrightarrow> h \<noteq> CountUp \<and> h \<noteq> CountDown" "user_handlers (opt_handlers o1)"
  shows "user_handlers (opt_handlers (foldl ajax_extend o1 settings))"
  using assms
proof (induction settings arbitrary: o1)
  case (Cons st settings)
  have "h' = h \<or> h' \<in> snd ` set hs" if "h' \<in> snd ` set (set_prop n h hs)" for n h h' and hs :: "(string \<times> handler) list"
    using that by (induction hs) (force split: if_splits)+
  then have u: "user_handlers (opt_handlers (ajax_extend o1 st))"
    using Cons.prems by (cases st) (fastforce simp: user_handlers_def)+
  have a: "\<And>n h. SetHandler n h \<in> set settings \<Longrightarrow> h \<noteq> CountUp \<and> h \<noteq> CountDown"
    by (rule Cons.prems(1)) (rule list.set_intros(2))
  from Cons.IH [OF a u] show ?case by simp
qed simp

lemma map_sum_Inr: "map_sum id f z = Inr y \<longleftrightarrow> (\<exists>x. z = Inr x \<and> y = f x)"
  by (cases z) auto

lemma setOptions_user_handlers:
  assumes "\<And>n h. SetHandler n h \<in> set settings \<Longrightarrow> h \<noteq> CountUp \<and> h \<noteq> CountDown"
    and "Ajax_setOptions br a settings = Some (Inr o1)"
  shows "user_handlers (opt_handlers o1)"
proof -
  have "opt_handlers o1 = opt_handlers (foldl ajax_extend default_ajax_options settings)"
    using assms(2) by (auto simp: Ajax_setOptions_def Let_def map_sum_Inr split: parameter_option.splits)
  then show ?thesis using extend_user_handlers [of settings default_ajax_options] assms(1) by (simp add: default_ajax_options_def user_handlers_def)
qed

text \<open>The invariant of the page.\<close>

definition net_ok :: "'u net \<Rightarrow> bool" where
  "net_ok s \<longleftrightarrow> users_ok s \<and> excess s = 0"

lemma steady_ok: "steady i m \<Longrightarrow> i < length (requests s) \<Longrightarrow> net_ok s \<Longrightarrow> m s = Some (r, t) \<Longrightarrow> net_ok t"
  using steadyD [of i m s r t] by (auto simp: net_ok_def fine_def)

lemma initialize_ok:
  assumes "quiet uf" "net_ok s" "Request_initialize br uf ev t a url settings s = Some (r, s')"
    and "\<And>n h. SetHandler n h \<in> set settings \<Longrightarrow> h \<noteq> CountUp \<and> h \<noteq> CountDown"
  shows "net_ok s'"
proof (cases "\<exists>o1. Ajax_setOptions br a settings = Some (Inr o1)")
  case False
  then show ?thesis using assms(2,3) by (auto simp: Request_initialize_def split: option.splits sum.splits)
next
  case True
  then obtain o1 where o1: "Ajax_setOptions br a settings = Some (Inr o1)" by blast
  let ?r = "\<lparr>rq_options = o1, rq_url = url, rq_method = opt_method o1, rq_parameters = [],
             rq_complete = False, rq_timer = False, rq_transport = t\<rparr>"
  let ?s = "s\<lparr>requests := requests s @ [?r]\<rparr>"
  have run: "Request_request br uf ev (length (requests s)) url ?s = Some (r, s')"
    using assms(3) o1 by (simp add: Request_initialize_def)
  have u: "user_handlers (opt_handlers o1)" using setOptions_user_handlers [OF assms(4) o1] .
  have f: "fine (length (requests s)) ?s" using assms(2) u by (auto simp: fine_def users_ok_def net_ok_def)
  have "excess ?s = - 1" using assms(2) by (simp add: net_ok_def excess_def incomplete_def core_def)
  then show ?thesis using request_excess [OF assms(1) f run] fine_frame [of s' ?s "length (requests s)"] f
    by (auto simp: net_ok_def fine_def)
qed

lemma net_step_ok:
  assumes "net_step br uf ev s s'" "quiet uf" "net_ok s"
  shows "net_ok s'"
  using assms(1)
proof cases
  case (create t a url settings r)
  then show ?thesis using initialize_ok [OF assms(2,3)] by blast
next
  case (change i rs st hs tx s1 r)
  have "net_ok s1" by (rule steady_ok [OF steady_calm [OF calm_set_transport] change(1) assms(3) change(3)])
  moreover have "i < length (requests s1)" using change(1,3) by (auto simp: set_transport_def set_rq_def p_mod_def)
  ultimately show ?thesis using steady_ok [OF steady_onStateChange [OF assms(2)] _ _ change(4)] by blast
next
  case (timeout i s1 r)
  have c: "calm i (set_rq i (\<lambda>r. r\<lparr>rq_timer := False\<rparr>))" by (rule calm_set_rq) (simp add: core_def)
  have "net_ok s1" by (rule steady_ok [OF steady_calm [OF c] timeout(1) assms(3) timeout(3)])
  moreover have "i < length (requests s1)" using timeout(1,3) by (auto simp: set_rq_def p_mod_def)
  moreover have "steady i (respondToReadyState uf ev i 1)" by (rule steady_calm [OF respond_calm [OF assms(2)]]) simp
  ultimately show ?thesis using steady_ok [where m = "respondToReadyState uf ev i 1", OF _ _ _ timeout(4)] by blast
next
  case (registers r)
  then show ?thesis using assms(3)
    by (auto simp: net_ok_def users_ok_def excess_def Responders_register_def)
next
  case (unregisters r)
  then show ?thesis using assms(3)
    by (auto simp: net_ok_def users_ok_def excess_def Responders_unregister_def)
qed

text \<open>
  C5: in every interleaving of requests, timers and changes to the responders, \<^verbatim>\<open>Ajax.activeRequestCount\<close> is the
  number of requests that are not complete, as long as the functions of the user do not throw or call the library,
  and the counter stays registered; also when the transport throws in \<^verbatim>\<open>open\<close> or \<^verbatim>\<open>send\<close>, or the text of a response throws when it is run.
\<close>

theorem activeRequestCount_exact:
  assumes "quiet uf" "net_reachable br uf ev s"
  shows "activeRequestCount s = int (length (filter (\<lambda>r. \<not> rq_complete r) (requests s)))"
proof -
  have "net_ok s" using assms(2)
  proof (induction rule: net_reachable.induct)
    case (start u)
    then show ?case
      by (simp add: net_ok_def users_ok_def excess_def incomplete_def new_net_def Responders_register_def)
  next
    case (step s t)
    then show ?case using net_step_ok [OF _ assms(1)] by blast
  qed
  moreover have "incomplete (map core rs) = int (length (filter (\<lambda>r. \<not> rq_complete r) rs))" for rs
    by (induction rs) (auto simp: incomplete_def core_def)
  ultimately show ?thesis by (simp add: net_ok_def excess_def)
qed

text \<open>A transport that has not been used, and a page with one asynchronous request.\<close>

definition sample_transport :: transport where
  "sample_transport = \<lparr>readyState = 0, t_status = 0, responseHeaders = [], responseText = [], overrideMimeType = False,
     openError = None, sendError = None, opened = None, sentHeaders = [], sentBody = None, onreadystatechange = False\<rparr>"

definition sample_browser :: browser where
  "sample_browser = \<lparr>inherited_prop = \<lambda>_. None, hash_proto = \<lambda>_. Undefined, userAgent = []\<rparr>"

definition sample_create :: "((exn + unit) \<times> unit net) option" where
  "sample_create = Request_initialize sample_browser (\<lambda>_ u. (Inr (), u)) (\<lambda>_ u. (Inr (), u)) sample_transport 0 ''/db''
     [SetMethod ''get'', SetHandler ''onComplete'' (User 0)] (new_net ())"

theorem activeRequestCount_exact_witness:
  "case sample_create of None \<Rightarrow> False | Some (r, s) \<Rightarrow>
     length (requests s) = 1 \<and> net_reachable sample_browser (\<lambda>_ u. (Inr (), u)) (\<lambda>_ u. (Inr (), u)) s \<and>
     activeRequestCount s = int (length (filter (\<lambda>r. \<not> rq_complete r) (requests s)))"
proof -
  have "(case sample_create of None \<Rightarrow> False | Some (r, s) \<Rightarrow> length (requests s) = 1)" by code_simp
  then obtain r s where c: "sample_create = Some (r, s)" and n: "length (requests s) = 1"
    by (auto split: option.splits)
  have "net_step sample_browser (\<lambda>_ u. (Inr (), u)) (\<lambda>_ u. (Inr (), u)) (new_net ()) s"
    by (rule net_step.create [OF c [unfolded sample_create_def]]) auto
  then have r: "net_reachable sample_browser (\<lambda>_ u. (Inr (), u)) (\<lambda>_ u. (Inr (), u)) s"
    by (rule net_reachable.step [OF net_reachable.start])
  have "quiet (\<lambda>_ (u :: unit). (Inr (), u))" by (simp add: quiet_def)
  from activeRequestCount_exact [OF this r]
  show ?thesis unfolding c using n r by simp
qed

text \<open>
  C33: when \<^verbatim>\<open>onComplete\<close>, the only handler of a request without response headers, throws in the call for the last state,
  the responders, of which the counter is the only one, are not told of the completion: the count of active requests
  is the same after the call, although the request is complete.
\<close>

theorem onComplete_throw_leaks:
  assumes "i < length (requests s)" "opt_handlers (rq_options (rq i s)) = [(''onComplete'', User n)]"
    and "responders s = [counter]" "responseHeaders (rq_transport (rq i s)) = []" "\<And>u. fst (uf n u) = Inl e"
  shows "\<exists>t. respondToReadyState uf ev i 4 s = Some (Inr (), t) \<and>
    rq_complete (rq i t) \<and> activeRequestCount t = activeRequestCount s"
proof -
  obtain u where u: "uf n (user s) = (Inl e, u)" using assms(5) by (metis prod.collapse)
  have o: "digits 10 (int k) \<noteq> ''Complete''" for k
  proof
    assume "digits 10 (int k) = ''Complete''"
    then have "list_all is_digit ''Complete''" using digits_10 [of "int k"] by (auto simp: list_all_iff)
    then show False by (simp add: is_digit_def)
  qed
  show ?thesis using assms(1-4) u
    by (simp add: respondToReadyState_def Request_Events_def p_then_def p_bind_def p_catch_def p_ret_def
        set_rq_def set_transport_def p_mod_def outcome_handler_def o Let_def getHeader_def call_option_def call_def
        rq_def dispatchException_def Responders_dispatch_def counter_def)
qed

text \<open>An asynchronous request without parameters, and the state with it alone.\<close>

definition sample_request :: request where
  "sample_request = \<lparr>rq_options = default_ajax_options\<lparr>opt_handlers := [(''onComplete'', User 0)]\<rparr>,
     rq_url = ''/db'', rq_method = ''post'', rq_parameters = [], rq_complete = False, rq_timer = False,
     rq_transport = sample_transport\<lparr>readyState := 4, t_status := 200, onreadystatechange := True\<rparr>\<rparr>"

theorem onComplete_throw_leaks_witness:
  "let s = \<lparr>responders = [counter], activeRequestCount = 1, user = (), requests = [sample_request]\<rparr> in
   \<exists>t. respondToReadyState (\<lambda>_ u. (Inl TypeError, u)) (\<lambda>_ u. (Inr (), u)) 0 4 s = Some (Inr (), t) \<and>
    rq_complete (rq 0 t) \<and> activeRequestCount t = activeRequestCount s"
  unfolding Let_def by (rule onComplete_throw_leaks) (simp_all add: sample_request_def sample_transport_def rq_def)

section \<open>Headers and methods\<close>

text \<open>
  A request sends every header once; the headers of the user replace those of the library, and the
  others are sent as they are.
\<close>

theorem request_headers_override:
  assumes "requestHeaders (rq_options r) = HeaderObject ps" and "distinct (map fst ps)"
  shows "distinct (map fst (request_headers br r)) \<and>
    (\<forall>n. map_of (request_headers br r) n =
       (case map_of ps n of Some v \<Rightarrow> Some v
        | None \<Rightarrow> map_of (request_headers br (r\<lparr>rq_options := (rq_options r)\<lparr>requestHeaders := NoHeaders\<rparr>\<rparr>)) n))"
proof -
  let ?h = "request_headers br (r\<lparr>rq_options := (rq_options r)\<lparr>requestHeaders := NoHeaders\<rparr>\<rparr>)"
  have "request_headers br r = Object_extend ?h ps"
    using assms(1) by (simp add: request_headers_def Let_def)
  moreover have "distinct (map fst ?h)" by (simp add: request_headers_def Let_def)
  ultimately show ?thesis using assms(2)
    by (simp add: Object_extend_fold map_of_fold_set_prop distinct_fold_set_prop map_add_def split: option.split)
qed

theorem request_headers_override_witness:
  "let r = sample_request\<lparr>rq_options := default_ajax_options\<lparr>requestHeaders := HeaderObject [(''Accept'', ''text/xml'')]\<rparr>\<rparr> in
   distinct (map fst (request_headers sample_browser r)) \<and>
    (\<forall>n. map_of (request_headers sample_browser r) n =
       (case map_of [(''Accept'', ''text/xml'')] n of Some v \<Rightarrow> Some v
        | None \<Rightarrow> map_of (request_headers sample_browser (r\<lparr>rq_options := (rq_options r)\<lparr>requestHeaders := NoHeaders\<rparr>\<rparr>)) n))"
  unfolding Let_def by (rule request_headers_override) simp_all


section \<open>Sent parameters\<close>

text \<open>
  C10: the address of a GET request carries its parameters: \<^verbatim>\<open>toQueryParams\<close> of the address gives exactly the
  parameters that the user passed as an object, in the same order, when there are any, their names are distinct,
  not empty and not inherited, their values are texts or \<^verbatim>\<open>undefined\<close>, and the url of the user has no question
  mark, number sign or white space.
\<close>

theorem get_address_reads_back:
  assumes "opt_method o1 = ''get''" "opt_parameters o1 = ParamObject ps" "ps \<noteq> []" "distinct (map fst ps)"
    and "\<And>k v. (k, v) \<in> set ps \<Longrightarrow>
      k \<noteq> [] \<and> query_value v \<and> inherited_prop br k = None \<and> hash_proto br k = Undefined"
    and "\<And>c. c \<in> set url \<Longrightarrow> c \<noteq> CHR ''?'' \<and> c \<noteq> CHR ''#'' \<and> \<not> is_space c"
  shows "String_toQueryParams (inherited_prop br) a None (snd_url (prepare br o1 url)) = Some (Inr ps)"
proof -
  let ?q = "Hash_toQueryString (hash_proto br) ps"
  have q: "?q = join ''&'' (map (\<lambda>(k, v). toQueryString_addPair k v) ps)" "?q \<noteq> []"
    using query_string [of ps "hash_proto br"] query_string_nonempty [of ps "hash_proto br"] assms(3,5) by blast+
  have chars: "c \<noteq> CHR ''?'' \<and> c \<noteq> CHR ''#'' \<and> \<not> is_space c" if "c \<in> set ?q" for c
    using that query_string_chars [of ps c] assms(5) unfolding q(1) by blast
  have "\<not> String_include url ''?''" using text_tests [of url "''?''"] assms(6) by fastforce
  then have "snd_url (prepare br o1 url) = url @ CHR ''?'' # ?q"
    using assms(1,2,4) q(2) by (simp add: prepare_def Let_def Object_clone_distinct)
  then have "String_toQueryParams (inherited_prop br) a None (snd_url (prepare br o1 url)) =
      String_toQueryParams (inherited_prop br) a None ?q"
    using toQueryParams_address [of url ?q "inherited_prop br" a] assms(6) chars by simp
  also have "\<dots> = query_loop (inherited_prop br) a (map (\<lambda>(k, v). toQueryString_addPair k v) ps) []"
    unfolding q(1) using toQueryParams_join [of ps "inherited_prop br" a] assms(3,5) by simp
  also have "\<dots> = Some (Inr ps)" using query_loop_fresh [of ps "inherited_prop br" "[]" a] assms(4,5) by simp
  finally show ?thesis .
qed

theorem get_address_reads_back_witness:
  "let ps = [(''SQL'', Str ''select * from a where b = 1 & c''), (''x'', Undefined)] in
   String_toQueryParams (inherited_prop sample_browser) 0 None (snd_url (prepare sample_browser
     (default_ajax_options\<lparr>opt_method := ''get'', opt_parameters := ParamObject ps\<rparr>) ''/db'')) = Some (Inr ps)"
  unfolding Let_def by (rule get_address_reads_back) (auto simp: query_value_def sample_browser_def is_space_def)

text \<open>
  A verb other than GET and POST is sent as POST with the verb as the parameter \<^verbatim>\<open>_method\<close>, and the
  other parameters are kept; a body is sent exactly for POST.
\<close>

theorem simulated_verbs:
  "snd_method (prepare br o1 url) \<in> {''get'', ''post''} \<and>
   map_of (snd_parameters (prepare br (o1\<lparr>opt_parameters := ParamObject ps\<rparr>) url)) =
     (if opt_method o1 \<in> {''get'', ''post''} then map_of (Object_clone ps)
      else (map_of (Object_clone ps))(''_method'' \<mapsto> Str (opt_method o1))) \<and>
   (send_body (prepare br o1 url) o1 = None \<longleftrightarrow> opt_method o1 = ''get'')"
  by (auto simp: prepare_def send_body_def Let_def fun_eq_iff)

end
