(* ===== verification/JS_RegExp.thy ===== *)
theory JS_RegExp
  imports Prototype_String
begin

text \<open>
  \<^verbatim>\<open>new RegExp(source)\<close>: the reader of the patterns that the program makes of texts while it runs.  It
  reads \<^verbatim>\<open>^ $ . ( ) | * + ?\<close>, the lazy quantifiers, and the escapes of characters and of the classes of
  letters, digits and white space; the capturing parentheses are numbered in the order in which they
  open.  A text that is no pattern throws a \<^verbatim>\<open>SyntaxError\<close>.  The remaining constructs (character classes,
  counted quantifiers, parentheses that open with a question mark, references to groups and numeric
  escapes) are outside the model: the result is \<^const>\<open>None\<close>.
\<close>

section \<open>The reader\<close>

text \<open>The characters that do not stand for themselves in a pattern.\<close>

definition special_chars :: string where
  "special_chars = ''^$.*+?()[]{}|'' @ [CHR 0x5C]"

text \<open>
  The terms of an alternative are collected from right to left, each with whether a quantifier may
  follow; \<^verbatim>\<open>re_close\<close> is the pattern of the alternatives before and the terms of the last one.
\<close>

type_synonym re_terms = "(bool \<times> regex) list"

definition re_terms :: "re_terms \<Rightarrow> regex" where
  "re_terms ts = foldl (\<lambda>r (_, t). Seq t r) Empty ts"

definition re_close :: "regex option \<Rightarrow> re_terms \<Rightarrow> regex" where
  "re_close alts ts = (case alts of None \<Rightarrow> re_terms ts | Some r \<Rightarrow> Alt r (re_terms ts))"

definition re_char :: "char \<Rightarrow> bool \<times> regex" where
  "re_char c = (if c = CHR ''^'' then (False, Bol) else if c = CHR ''$'' then (False, Eol)
     else if c = CHR ''.'' then (True, dot) else (True, Ch (\<lambda>x. x = c)))"

text \<open>The characters after a backslash.\<close>

definition re_escape :: "char \<Rightarrow> (bool \<times> regex) option" where
  "re_escape c =
     (if c = CHR ''s'' then Some (True, Ch is_space) else if c = CHR ''S'' then Some (True, Ch (\<lambda>x. \<not> is_space x))
      else if c = CHR ''d'' then Some (True, Ch is_digit) else if c = CHR ''D'' then Some (True, Ch (\<lambda>x. \<not> is_digit x))
      else if c = CHR ''w'' then Some (True, Ch is_word) else if c = CHR ''W'' then Some (True, Ch (\<lambda>x. \<not> is_word x))
      else if c = CHR ''b'' then Some (False, WordB)
      else if c = CHR ''n'' then Some (True, Ch (\<lambda>x. x = CHR 0x0A)) else if c = CHR ''r'' then Some (True, Ch (\<lambda>x. x = CHR 0x0D))
      else if c = CHR ''t'' then Some (True, Ch (\<lambda>x. x = CHR 0x09)) else if c = CHR ''v'' then Some (True, Ch (\<lambda>x. x = CHR 0x0B))
      else if c = CHR ''f'' then Some (True, Ch (\<lambda>x. x = CHR 0x0C))
      else if is_digit c \<or> c \<in> set ''Bcxuk'' then None
      else Some (True, Ch (\<lambda>x. x = c)))"

definition re_quantify :: "char \<Rightarrow> bool \<Rightarrow> regex \<Rightarrow> regex" where
  "re_quantify c greedy r =
     (if c = CHR ''*'' then Star greedy r else if c = CHR ''+'' then Seq r (Star greedy r)
      else if greedy then Alt r Empty else Alt Empty r)"

text \<open>
  \<open>k\<close> is the number of the next group, \<open>alts\<close> and \<open>ts\<close> what was read of the innermost open parenthesis, and
  \<open>parens\<close> the parentheses around it.
\<close>

function re_read :: "string \<Rightarrow> nat \<Rightarrow> regex option \<Rightarrow> re_terms \<Rightarrow> (nat \<times> regex option \<times> re_terms) list \<Rightarrow>
    (exn + regex) option" where
  "re_read [] k alts ts parens =
     Some (if parens = [] then Inr (re_close alts ts) else Inl (SyntaxError ''unterminated parenthetical''))"
| "re_read (c # cs) k alts ts parens =
     (if c = CHR 0x5C then (case cs of
          [] \<Rightarrow> Some (Inl (SyntaxError ''trailing backslash''))
        | e # cs' \<Rightarrow> (case re_escape e of None \<Rightarrow> None | Some t \<Rightarrow> re_read cs' k alts (t # ts) parens))
      else if c = CHR ''('' then
        (if starts ''?'' cs then None else re_read cs (Suc k) None [] ((k, alts, ts) # parens))
      else if c = CHR '')'' then (case parens of
          [] \<Rightarrow> Some (Inl (SyntaxError ''unmatched parenthesis''))
        | (n, alts', ts') # parens' \<Rightarrow> re_read cs k alts' ((True, Group n (re_close alts ts)) # ts') parens')
      else if c = CHR ''|'' then re_read cs k (Some (re_close alts ts)) [] parens
      else if c \<in> set ''*+?'' then (case ts of
          (True, r) # ts' \<Rightarrow> re_read (if starts ''?'' cs then tl cs else cs) k alts
             ((False, re_quantify c (\<not> starts ''?'' cs) r) # ts') parens
        | _ \<Rightarrow> Some (Inl (SyntaxError ''invalid quantifier'')))
      else if c \<in> set ''[]{}'' then None
      else re_read cs k alts (re_char c # ts) parens)"
  by pat_completeness auto

termination
  by (relation "measure (\<lambda>(cs, _). length cs)") (auto simp: le_imp_less_Suc)

definition RegExp :: "string \<Rightarrow> (exn + regex) option" where
  "RegExp source = re_read source 1 None [] []"

declare re_read.simps [simp del]

lemma re_char_special:
  "re_char CHR ''^'' = (False, Bol)" "re_char CHR ''$'' = (False, Eol)" "re_char CHR ''.'' = (True, dot)"
  by (simp_all add: re_char_def)

section \<open>Texts that stand for themselves\<close>

text \<open>A text without special characters is read as its characters.\<close>

definition literal_text :: "string \<Rightarrow> bool" where
  "literal_text n \<longleftrightarrow> list_all (\<lambda>c. c \<notin> set special_chars) n"

lemma re_read_literal:
  "literal_text n \<Longrightarrow> re_read (n @ cs) k alts ts parens = re_read cs k alts (rev (map re_char n) @ ts) parens"
  by (induction n arbitrary: ts) (simp_all add: literal_text_def special_chars_def re_read.simps)

lemma re_terms_snoc: "foldl (\<lambda>r (_, t). Seq t r) r0 (rev (map re_char n) @ ts) =
    foldl (\<lambda>r (_, t). Seq t r) (foldr (\<lambda>c r. Seq (snd (re_char c)) r) n r0) ts"
  by (induction n arbitrary: r0 ts rule: rev_induct) (simp_all add: split_beta)

text \<open>Sequences are associative, with the empty pattern as unit, as far as matching goes.\<close>

lemma ways_Seq_Empty: "ways s (Seq r Empty) = ways s r"
proof (intro ext)
  fix i c
  have "concat (map (\<lambda>(j, d). ways s Empty j d) xs) = xs" for xs
    by (induction xs) auto
  then show "ways s (Seq r Empty) i c = ways s r i c" by (simp only: ways.simps(3))
qed

lemma ways_Seq_cong: "ways s a = ways s a' \<Longrightarrow> ways s b = ways s b' \<Longrightarrow> ways s (Seq a b) = ways s (Seq a' b')"
  by (intro ext) (simp only: ways.simps(3))

lemma ways_literal:
  "literal_text n \<Longrightarrow> ways s (foldr (\<lambda>c r. Seq (snd (re_char c)) r) n r0) = ways s (Seq (Lit n) r0)"
proof (induction n)
  case Nil
  show ?case by (intro ext) (simp add: Lit_def)
next
  case (Cons x n)
  have "snd (re_char x) = Ch (\<lambda>y. y = x)" using Cons.prems by (simp add: literal_text_def special_chars_def re_char_def)
  moreover have "literal_text n" using Cons.prems by (simp add: literal_text_def)
  note Cons.IH [OF this]
  ultimately show ?case by (intro ext) (simp add: Lit_def)
qed

end
