(* ===== verification/Prototype_Form.thy ===== *)
theory Prototype_Form
  imports Prototype_Ajax JS_RegExp
begin

text \<open>
  Class names, forms and their observers of \<^verbatim>\<open>htdocs/prototype.js\<close>.  An element is the record of the
  properties that the code reads and writes; a form is the list of the elements in it, in the order of
  the document.  Focus, selection and the events of the browser are not part of the records.
\<close>

section \<open>Splitting at white space\<close>

text \<open>\<^verbatim>\<open>s.split(/\s+/)\<close>\<close>

function split_spaces :: "string \<Rightarrow> string list" where
  "split_spaces s = (case dropWhile (\<lambda>c. \<not> is_space c) s of
     [] \<Rightarrow> [s]
   | _ # r \<Rightarrow> takeWhile (\<lambda>c. \<not> is_space c) s # split_spaces (dropWhile is_space r))"
  by pat_completeness auto

lemma dropWhile_tail_shorter: "dropWhile p s = c # r \<Longrightarrow> length (dropWhile q r) < length s"
proof -
  assume "dropWhile p s = c # r"
  then have "length r < length s" using length_dropWhile_le [of p s] by simp
  then show ?thesis using length_dropWhile_le [of q r] by simp
qed

termination split_spaces
  by (relation "measure length") (auto dest: dropWhile_tail_shorter)

declare split_spaces.simps [simp del]

definition dollar_w :: "string \<Rightarrow> string list" where
  "dollar_w str = (let str = String_strip str in if str \<noteq> [] then split_spaces str else [])"

section \<open>Element.ClassNames\<close>

text \<open>An object of the class is the \<^verbatim>\<open>className\<close> of its element; it mixes in Enumerable.\<close>

definition ClassNames_each :: "string \<Rightarrow> ('s, jsval) each" where
  "ClassNames_each className = Array_each (map Str (filter (\<lambda>name. length name > 0) (split_spaces className)))"

definition class_names :: "string \<Rightarrow> string list" where
  "class_names className = filter (\<lambda>name. name \<noteq> []) (split_spaces className)"

interpretation classes: enumerable "map Str (class_names cn)" "ClassNames_each cn" "ClassNames_each cn"
    "ClassNames_each cn" "ClassNames_each cn" for cn
  by unfold_locales (simp_all add: ClassNames_each_def class_names_def)

definition ClassNames_include :: "string \<Rightarrow> string \<Rightarrow> bool" where
  "ClassNames_include this name =
     (case Enumerable_include (ClassNames_each this) (Str name) () of (Inr b, _) \<Rightarrow> b | _ \<Rightarrow> False)"

definition ClassNames_toArray :: "string \<Rightarrow> jsval list" where
  "ClassNames_toArray this =
     (case Enumerable_toArray (ClassNames_each this) () of (Inr vs, _) \<Rightarrow> vs | _ \<Rightarrow> [])"

definition ClassNames_add :: "string \<Rightarrow> string \<Rightarrow> string" where
  "ClassNames_add classNameToAdd this =
     (if ClassNames_include this classNameToAdd then this
      else join '' '' (map to_str (ClassNames_toArray this @ [Str classNameToAdd])))"

definition ClassNames_remove :: "string \<Rightarrow> string \<Rightarrow> string" where
  "ClassNames_remove classNameToRemove this =
     (if \<not> ClassNames_include this classNameToRemove then this
      else join '' '' (map to_str (Array_without [Str classNameToRemove] (ClassNames_toArray this))))"

definition ClassNames_toString :: "string \<Rightarrow> string" where
  "ClassNames_toString this = join '' '' (map to_str (ClassNames_toArray this))"

text \<open>
  \<^verbatim>\<open>hasClassName\<close> makes a pattern of the text of the name, which is not escaped: a name with special
  characters is read as a pattern, and one that is no pattern throws.
\<close>

definition class_source :: "string \<Rightarrow> string" where
  "class_source className = ''(^|'' @ [CHR 0x5C] @ ''s)'' @ className @ ''('' @ [CHR 0x5C] @ ''s|$)''"

definition hasClassName :: "string \<Rightarrow> string \<Rightarrow> (exn + bool) option" where
  "hasClassName elementClassName className =
     (if length elementClassName = 0 then Some (Inr False)
      else if elementClassName = className then Some (Inr True)
      else case RegExp (class_source className) of
          None \<Rightarrow> None
        | Some (Inl e) \<Rightarrow> Some (Inl e)
        | Some (Inr r) \<Rightarrow> Some (Inr (regex_test r elementClassName)))"

definition toggleClassName :: "string \<Rightarrow> string \<Rightarrow> (exn + string) option" where
  "toggleClassName className this = (case hasClassName this className of
       None \<Rightarrow> None
     | Some (Inl e) \<Rightarrow> Some (Inl e)
     | Some (Inr has) \<Rightarrow> Some (Inr (if has then ClassNames_remove className this else ClassNames_add className this)))"

section \<open>Form elements\<close>

record form_option =
  fo_value :: "string option"
  fo_text :: string
  fo_selected :: bool

record form_element =
  tagName :: string
  el_type :: string
  el_name :: string
  el_value :: string
  checked :: bool
  disabled :: bool
  selectedIndex :: int
  el_options :: "form_option list"

text \<open>The value attribute of an option, when it has one.\<close>

definition optionValue :: "form_option \<Rightarrow> string" where
  "optionValue opt = (case fo_value opt of Some v \<Rightarrow> v | None \<Rightarrow> fo_text opt)"

definition selectOne :: "form_element \<Rightarrow> exn + jsval" where
  "selectOne element =
     (let index = selectedIndex element in
      if 0 \<le> index then
        (if nat index < length (el_options element) then Inr (Str (optionValue (el_options element ! nat index)))
         else Inl TypeError)
      else Inr Null)"

text \<open>\<open>a\<close> is the address of the new array.\<close>

definition selectMany :: "nat \<Rightarrow> form_element \<Rightarrow> exn + jsval" where
  "selectMany a element =
     (if el_options element = [] then Inr Null
      else Inr (Arr a (map (\<lambda>opt. Str (optionValue opt)) (filter fo_selected (el_options element)))))"

definition Serializers_select :: "nat \<Rightarrow> form_element \<Rightarrow> exn + jsval" where
  "Serializers_select a element = (if el_type element = ''select-one'' then selectOne element else selectMany a element)"

definition inputSelector :: "form_element \<Rightarrow> exn + jsval" where
  "inputSelector element = Inr (if checked element then Str (el_value element) else Null)"

definition Serializers_textarea :: "form_element \<Rightarrow> exn + jsval" where
  "Serializers_textarea element = Inr (Str (el_value element))"

definition Serializers_input :: "form_element \<Rightarrow> exn + jsval" where
  "Serializers_input element =
     (if toLowerCase (el_type element) \<in> {''checkbox'', ''radio''} then inputSelector element
      else Serializers_textarea element)"

definition Serializers :: "string \<Rightarrow> (nat \<Rightarrow> form_element \<Rightarrow> exn + jsval) option" where
  "Serializers method =
     (if method = ''input'' then Some (\<lambda>_. Serializers_input)
      else if method = ''textarea'' then Some (\<lambda>_. Serializers_textarea)
      else if method = ''select'' then Some Serializers_select
      else None)"

definition getValue :: "nat \<Rightarrow> form_element \<Rightarrow> exn + jsval" where
  "getValue a element = (case Serializers (toLowerCase (tagName element)) of
     None \<Rightarrow> Inl TypeError | Some f \<Rightarrow> f a element)"

definition Element_serialize :: "(string \<Rightarrow> jsval) \<Rightarrow> nat \<Rightarrow> form_element \<Rightarrow> exn + string" where
  "Element_serialize proto a element =
     (if \<not> disabled element \<and> el_name element \<noteq> [] then
        map_sum id (\<lambda>value. if \<not> is_nullish value then Hash_toQueryString proto [(el_name element, value)] else [])
          (getValue a element)
      else Inr [])"

definition Element_clear :: "form_element \<Rightarrow> form_element" where
  "Element_clear element = element\<lparr>el_value := []\<rparr>"

definition Element_present :: "form_element \<Rightarrow> bool" where
  "Element_present element \<longleftrightarrow> el_value element \<noteq> []"

definition Element_disable :: "form_element \<Rightarrow> form_element" where
  "Element_disable element = element\<lparr>disabled := True\<rparr>"

definition Element_enable :: "form_element \<Rightarrow> form_element" where
  "Element_enable element = element\<lparr>disabled := False\<rparr>"

section \<open>Forms\<close>

text \<open>
  One round of \<^verbatim>\<open>serializeElements\<close>.  Storing a value is the same code as in \<^verbatim>\<open>toQueryParams\<close>; the
  arrays of round \<open>i\<close> have the addresses \<open>a + 2 * i\<close> and the next.
\<close>

definition serialize_step :: "(string \<Rightarrow> jsval option) \<Rightarrow> nat \<Rightarrow> props \<Rightarrow> form_element \<Rightarrow> nat \<Rightarrow> (unit, props) act" where
  "serialize_step inherited a result element i =
     (if \<not> disabled element \<and> el_name element \<noteq> [] then
        (case getValue (a + 2 * i) element of
           Inl e \<Rightarrow> act_throw e
         | Inr value \<Rightarrow>
             if is_nullish value then act_ret result
             else (case query_store inherited (Suc (a + 2 * i)) (el_name element) value result of
                     Inl e \<Rightarrow> act_throw e | Inr r \<Rightarrow> act_ret r))
      else act_ret result)"

definition serialize_data :: "(string \<Rightarrow> jsval option) \<Rightarrow> nat \<Rightarrow> form_element list \<Rightarrow> exn + props" where
  "serialize_data inherited a elements =
     fst (Enumerable_inject (Array_each elements) [] (serialize_step inherited a) ())"

datatype serialized = AsHash props | AsText string

definition serializeElements :: "(string \<Rightarrow> jsval option) \<Rightarrow> (string \<Rightarrow> jsval) \<Rightarrow> nat \<Rightarrow> form_element list \<Rightarrow> bool
    \<Rightarrow> exn + serialized" where
  "serializeElements inherited proto a elements getHash =
     map_sum id (\<lambda>data. if getHash then AsHash data else AsText (Hash_toQueryString proto data))
       (serialize_data inherited a elements)"

definition is_field :: "form_element \<Rightarrow> bool" where
  "is_field child \<longleftrightarrow> Serializers (toLowerCase (tagName child)) \<noteq> None"

definition Form_getElements :: "form_element list \<Rightarrow> form_element list" where
  "Form_getElements form = foldl (\<lambda>elements child. if is_field child then elements @ [child] else elements) [] form"

definition Form_serialize :: "(string \<Rightarrow> jsval option) \<Rightarrow> (string \<Rightarrow> jsval) \<Rightarrow> nat \<Rightarrow> form_element list \<Rightarrow> bool
    \<Rightarrow> exn + serialized" where
  "Form_serialize inherited proto a form getHash = serializeElements inherited proto a (Form_getElements form) getHash"

text \<open>\<^verbatim>\<open>getInputs(form, typeName, name)\<close>; a missing argument is the empty text, which is as false as \<^verbatim>\<open>undefined\<close>.\<close>

definition Form_getInputs :: "form_element list \<Rightarrow> string \<Rightarrow> string \<Rightarrow> form_element list" where
  "Form_getInputs form typeName name =
     (let inputs = filter (\<lambda>e. toLowerCase (tagName e) = ''input'') form in
      if typeName = [] \<and> name = [] then inputs
      else foldl (\<lambda>matching input.
             if typeName \<noteq> [] \<and> el_type input \<noteq> typeName \<or> name \<noteq> [] \<and> el_name input \<noteq> name then matching
             else matching @ [input]) [] inputs)"

definition Form_disable :: "form_element list \<Rightarrow> form_element list" where
  "Form_disable form = map (\<lambda>e. if is_field e then Element_disable e else e) form"

definition Form_enable :: "form_element list \<Rightarrow> form_element list" where
  "Form_enable form = map (\<lambda>e. if is_field e then Element_enable e else e) form"

definition findFirstElement :: "form_element list \<Rightarrow> form_element option" where
  "findFirstElement form = find (\<lambda>element. el_type element \<noteq> ''hidden'' \<and> \<not> disabled element \<and>
     toLowerCase (tagName element) \<in> {''input'', ''select'', ''textarea''}) (Form_getElements form)"

text \<open>
  \<^verbatim>\<open>request\<close>: the last setting of a property is its value.  \<open>method_attr\<close> is the method of the form, when it
  has the attribute, and \<open>action\<close> its address.
\<close>

definition setting_parameters :: "ajax_setting list \<Rightarrow> parameter_option option" where
  "setting_parameters settings = foldl (\<lambda>p st. case st of SetParameters v \<Rightarrow> Some v | _ \<Rightarrow> p) None settings"

definition setting_method :: "ajax_setting list \<Rightarrow> string option" where
  "setting_method settings = foldl (\<lambda>p st. case st of SetMethod v \<Rightarrow> Some v | _ \<Rightarrow> p) None settings"

definition extra_parameters :: "browser \<Rightarrow> nat \<Rightarrow> ajax_setting list \<Rightarrow> (exn + props) option" where
  "extra_parameters br a settings = (case setting_parameters settings of
     None \<Rightarrow> Some (Inr [])
   | Some (ParamObject ps) \<Rightarrow> Some (Inr ps)
   | Some (ParamText t) \<Rightarrow> if t = [] then Some (Inr []) else String_toQueryParams (inherited_prop br) a None t)"

definition form_settings :: "string option \<Rightarrow> props \<Rightarrow> ajax_setting list \<Rightarrow> ajax_setting list" where
  "form_settings method_attr data settings =
     settings @ [SetParameters (ParamObject data)] @
     (case method_attr of
        Some m \<Rightarrow> if setting_method settings = None \<or> setting_method settings = Some [] then [SetMethod m] else []
      | None \<Rightarrow> [])"

definition Form_request :: "browser \<Rightarrow> 'u user_functions \<Rightarrow> (string \<Rightarrow> 'u \<Rightarrow> (exn + unit) \<times> 'u) \<Rightarrow> transport \<Rightarrow> nat
    \<Rightarrow> form_element list \<Rightarrow> string option \<Rightarrow> string \<Rightarrow> ajax_setting list \<Rightarrow> ('u net, unit) prog" where
  "Form_request br uf ev t a form method_attr action settings s =
     (case serialize_data (inherited_prop br) a (Form_getElements form) of
        Inl e \<Rightarrow> Some (Inl e, s)
      | Inr data \<Rightarrow> (case extra_parameters br (a + 2 * length form) settings of
          None \<Rightarrow> None
        | Some (Inl e) \<Rightarrow> Some (Inl e, s)
        | Some (Inr params) \<Rightarrow>
            Request_initialize br uf ev t a action
              (form_settings method_attr (Object_extend data params) settings) s))"

section \<open>Observers\<close>

text \<open>An observer, with the state of the page that its callback changes.\<close>

record 'u observer =
  lastValue :: jsval
  ob_page :: 'u

definition Observer_initialize :: "('u \<Rightarrow> exn + jsval) \<Rightarrow> 'u \<Rightarrow> exn + 'u observer" where
  "Observer_initialize read u = map_sum id (\<lambda>v. \<lparr>lastValue = v, ob_page = u\<rparr>) (read u)"

definition timed_changed :: "jsval \<Rightarrow> jsval \<Rightarrow> bool" where
  "timed_changed old new =
     (if js_typeof old = ''string'' \<and> js_typeof new = ''string'' then \<not> loose_eq old new else to_str old \<noteq> to_str new)"

text \<open>What \<^verbatim>\<open>TimedObserver.onTimerEvent\<close> and \<^verbatim>\<open>EventObserver.onElementEvent\<close> share; they differ in the test.\<close>

definition observe_with :: "(jsval \<Rightarrow> jsval \<Rightarrow> bool) \<Rightarrow> ('u \<Rightarrow> exn + jsval) \<Rightarrow> (jsval \<Rightarrow> ('u observer, unit) prog)
    \<Rightarrow> ('u observer, unit) prog" where
  "observe_with changed read callback ob = (case read (ob_page ob) of
     Inl e \<Rightarrow> p_throw e ob
   | Inr value \<Rightarrow>
       if changed (lastValue ob) value
       then p_then (callback value) (p_mod (\<lambda>ob. ob\<lparr>lastValue := value\<rparr>)) ob
       else p_ret () ob)"

definition Timed_onTimerEvent :: "('u \<Rightarrow> exn + jsval) \<Rightarrow> (jsval \<Rightarrow> ('u observer, unit) prog) \<Rightarrow> ('u observer, unit) prog" where
  "Timed_onTimerEvent = observe_with timed_changed"

definition onElementEvent :: "('u \<Rightarrow> exn + jsval) \<Rightarrow> (jsval \<Rightarrow> ('u observer, unit) prog) \<Rightarrow> ('u observer, unit) prog" where
  "onElementEvent = observe_with (\<lambda>old new. \<not> loose_eq old new)"

text \<open>The event an element is observed for, when it has a type.\<close>

definition observed_event :: "form_element \<Rightarrow> string option" where
  "observed_event element =
     (if el_type element \<noteq> [] then
        Some (if toLowerCase (el_type element) \<in> {''checkbox'', ''radio''} then ''click'' else ''change'')
      else None)"


section \<open>Properties of class names\<close>

definition plain_name :: "string \<Rightarrow> bool" where
  "plain_name n \<longleftrightarrow> n \<noteq> [] \<and> list_all (\<lambda>c. \<not> is_space c) n"

lemma split_spaces_plain: "list_all (\<lambda>c. \<not> is_space c) x \<Longrightarrow> split_spaces x = [x]"
  by (subst split_spaces.simps) (simp add: list_all_iff dropWhile_eq_Nil_conv [THEN iffD2])

lemma split_spaces_space:
  assumes "list_all (\<lambda>c. \<not> is_space c) x" "is_space c"
  shows "split_spaces (x @ c # r) = x # split_spaces (dropWhile is_space r)"
proof -
  have "dropWhile (\<lambda>c. \<not> is_space c) (x @ c # r) = c # r" "takeWhile (\<lambda>c. \<not> is_space c) (x @ c # r) = x"
    using assms by (simp_all add: list_all_iff dropWhile_append2 takeWhile_append2)
  then show ?thesis by (subst split_spaces.simps) simp
qed

text \<open>Every text has no white space or is a word, a white space, and the rest.\<close>

lemma split_spaces_cases [case_names plain space]:
  obtains "list_all (\<lambda>c. \<not> is_space c) s"
  | x c r where "s = x @ c # r" "list_all (\<lambda>c. \<not> is_space c) x" "is_space c"
proof (cases "dropWhile (\<lambda>c. \<not> is_space c) s")
  case Nil
  then show thesis using that(1) by (simp add: dropWhile_eq_Nil_conv list_all_iff)
next
  case (Cons c r)
  then have "is_space c" using hd_dropWhile [of "\<lambda>c. \<not> is_space c" s] by simp
  moreover have "s = takeWhile (\<lambda>c. \<not> is_space c) s @ c # r" using Cons takeWhile_dropWhile_id by metis
  moreover have "list_all (\<lambda>c. \<not> is_space c) (takeWhile (\<lambda>c. \<not> is_space c) s)"
    by (auto simp: list_all_iff dest: set_takeWhileD)
  ultimately show thesis using that(2) by blast
qed

lemma split_spaces_induct [case_names plain space]:
  assumes "\<And>s. list_all (\<lambda>c. \<not> is_space c) s \<Longrightarrow> P s"
    and "\<And>x c r. list_all (\<lambda>c. \<not> is_space c) x \<Longrightarrow> is_space c \<Longrightarrow> P (dropWhile is_space r) \<Longrightarrow> P (x @ c # r)"
  shows "P s"
proof (induction s rule: length_induct)
  case (1 s)
  show ?case
  proof (cases s rule: split_spaces_cases)
    case plain
    then show ?thesis by (rule assms(1))
  next
    case (space x c r)
    have "length (dropWhile is_space r) < length s"
      using length_dropWhile_le [of is_space r] space(1) by simp
    then have "P (dropWhile is_space r)" using 1 by blast
    then show ?thesis using assms(2) [OF space(2,3)] space(1) by simp
  qed
qed

lemma class_names_plain: "n \<in> set (class_names s) \<Longrightarrow> plain_name n"
  by (induction s rule: split_spaces_induct)
    (auto simp: class_names_def plain_name_def split_spaces_plain split_spaces_space split: if_splits)

lemma class_names_join: "(\<And>x. x \<in> set xs \<Longrightarrow> plain_name x) \<Longrightarrow> class_names (join '' '' xs) = xs"
proof (induction xs rule: induct_list012)
  case 1
  then show ?case by (simp add: class_names_def split_spaces_plain)
next
  case (2 x)
  then show ?case by (simp add: class_names_def plain_name_def split_spaces_plain)
next
  case (3 x y xs)
  have n: "plain_name x" "plain_name y" using 3(3) by simp_all
  have "join '' '' (y # xs) \<noteq> [] \<and> hd (join '' '' (y # xs)) = hd y"
    using n(2) by (cases xs; cases y) (auto simp: plain_name_def)
  moreover have "\<not> is_space (hd y)" using n(2) by (cases y) (auto simp: plain_name_def)
  ultimately have d: "dropWhile is_space (join '' '' (y # xs)) = join '' '' (y # xs)"
    by (cases "join '' '' (y # xs)") auto
  have sp: "is_space (CHR '' '')" by (simp add: is_space_def)
  have "split_spaces (x @ CHR '' '' # join '' '' (y # xs)) = x # split_spaces (join '' '' (y # xs))"
    using split_spaces_space [OF _ sp, of x "join '' '' (y # xs)"] n(1) d by (simp add: plain_name_def)
  then show ?case using 3 n(1) by (simp add: class_names_def plain_name_def)
qed

lemma loose_eq_Str [simp]: "loose_eq (Str a) (Str b) \<longleftrightarrow> a = b"
  by (simp add: loose_eq_def to_prim_def is_ref_def)

lemma include_class_names: "ClassNames_include s n \<longleftrightarrow> n \<in> set (class_names s)"
  by (auto simp: ClassNames_include_def classes.include_spec list_ex_iff)

lemma toArray_class_names: "ClassNames_toArray s = map Str (class_names s)"
  by (simp add: ClassNames_toArray_def classes.toArray_spec)

lemma to_str_Str: "map to_str (map Str xs) = xs"
  by (induction xs) auto

lemma class_names_add:
  assumes "plain_name n"
  shows "class_names (ClassNames_add n s) = class_names s @ (if n \<in> set (class_names s) then [] else [n])"
proof -
  have "map to_str (ClassNames_toArray s @ [Str n]) = class_names s @ [n]"
    using to_str_Str [of "class_names s @ [n]"] by (simp add: toArray_class_names)
  moreover have "class_names (join '' '' (class_names s @ [n])) = class_names s @ [n]"
    by (rule class_names_join) (use assms class_names_plain in auto)
  ultimately show ?thesis by (simp add: ClassNames_add_def include_class_names)
qed

lemma class_names_remove: "class_names (ClassNames_remove n s) = filter (\<lambda>m. m \<noteq> n) (class_names s)"
proof -
  have "filter (\<lambda>v. \<not> Array_include [Str n] v) (map Str xs) = map Str (filter (\<lambda>m. m \<noteq> n) xs)" for xs
    by (induction xs) (auto simp: Array_include_iff)
  then have "map to_str (Array_without [Str n] (ClassNames_toArray s)) = filter (\<lambda>m. m \<noteq> n) (class_names s)"
    by (simp only: Array_without_def Array_select_filter toArray_class_names to_str_Str)
  moreover have "class_names (join '' '' (filter (\<lambda>m. m \<noteq> n) (class_names s))) = filter (\<lambda>m. m \<noteq> n) (class_names s)"
    by (rule class_names_join) (use class_names_plain in auto)
  moreover have "filter (\<lambda>m. m \<noteq> n) (class_names s) = class_names s" if "n \<notin> set (class_names s)"
    using that by (auto intro: filter_True)
  ultimately show ?thesis by (simp add: ClassNames_remove_def include_class_names)
qed

text \<open>A name is one of the names of a text exactly when it stands there between white space or the ends.\<close>

definition stands_in :: "string \<Rightarrow> string \<Rightarrow> bool" where
  "stands_in n s \<longleftrightarrow> (\<exists>a b. s = a @ n @ b \<and> (a = [] \<or> is_space (last a)) \<and> (b = [] \<or> is_space (hd b)))"

lemma stands_in_plain:
  assumes "list_all (\<lambda>c. \<not> is_space c) s"
  shows "stands_in n s \<longleftrightarrow> n = s"
proof -
  have "a = [] \<and> b = []" if "s = a @ n @ b" "a = [] \<or> is_space (last a)" "b = [] \<or> is_space (hd b)" for a b
  proof -
    have n: "\<not> is_space c" if "c \<in> set s" for c using assms that by (simp add: list_all_iff)
    have "a = []" using that(1,2) n [of "last a"] by (cases a rule: rev_cases) auto
    moreover have "b = []" using that(1,3) n [of "hd b"] by (cases b) auto
    ultimately show ?thesis by simp
  qed
  then have "n = s" if "s = a @ n @ b" "a = [] \<or> is_space (last a)" "b = [] \<or> is_space (hd b)" for a b
    using that by (metis append_Nil append_Nil2)
  then have "stands_in n s \<Longrightarrow> n = s" unfolding stands_in_def by blast
  moreover have "stands_in s s" unfolding stands_in_def by (intro exI [of _ "[]"]) simp
  ultimately show ?thesis by blast
qed

lemma stands_in_space:
  assumes "list_all (\<lambda>c. \<not> is_space c) x" "is_space c" "plain_name n"
  shows "stands_in n (x @ c # r) \<longleftrightarrow> n = x \<or> stands_in n (dropWhile is_space r)"
proof
  assume "stands_in n (x @ c # r)"
  then obtain a b where ab: "x @ c # r = a @ n @ b" "a = [] \<or> is_space (last a)" "b = [] \<or> is_space (hd b)"
    by (auto simp: stands_in_def)
  have n: "n \<noteq> []" "\<And>d. d \<in> set n \<Longrightarrow> \<not> is_space d" using assms(3) by (auto simp: plain_name_def list_all_iff)
  have x: "\<And>d. d \<in> set x \<Longrightarrow> \<not> is_space d" using assms(1) by (auto simp: list_all_iff)
  show "n = x \<or> stands_in n (dropWhile is_space r)"
  proof (cases a rule: rev_cases)
    case Nil
    have "takeWhile (\<lambda>d. \<not> is_space d) (x @ c # r) = x" using x assms(2) by (simp add: takeWhile_append2)
    moreover have "takeWhile (\<lambda>d. \<not> is_space d) (n @ b) = n" using n ab(3) by (cases b) (simp_all add: takeWhile_append2)
    ultimately show ?thesis using ab(1) Nil by simp
  next
    case (snoc a0 d)
    then have d: "is_space d" using ab(2) by simp
    have "\<exists>a'. a = x @ c # a'"
    proof -
      have "(\<exists>us. x = a @ us) \<or> (\<exists>us. us \<noteq> [] \<and> a = x @ us)"
        using ab(1) unfolding append_eq_append_conv2 by (metis append_Nil2)
      moreover have "x \<noteq> a @ us" for us using x d snoc by auto
      ultimately obtain us where "us \<noteq> []" "a = x @ us" by blast
      then show ?thesis using ab(1) by (cases us) auto
    qed
    then obtain a' where a': "a = x @ c # a'" by blast
    then have r: "r = a' @ n @ b" using ab(1) by simp
    have h: "dropWhile is_space (n @ b) = n @ b" using n by (cases n) auto
    have "dropWhile is_space r = dropWhile is_space a' @ n @ b"
    proof (cases "\<forall>e \<in> set a'. is_space e")
      case True
      then show ?thesis unfolding r using h by (simp add: dropWhile_append2 dropWhile_eq_Nil_conv [THEN iffD2])
    next
      case False
      then show ?thesis unfolding r by (auto simp: dropWhile_append1)
    qed
    moreover have "dropWhile is_space a' = [] \<or> is_space (last (dropWhile is_space a'))"
    proof (cases a' rule: rev_cases)
      case (snoc a1 e)
      then have "is_space e" using ab(2) a' by simp
      then show ?thesis using snoc by (cases "\<forall>e \<in> set a1. is_space e") (auto simp: dropWhile_append1 dropWhile_append2)
    qed simp
    ultimately show ?thesis using ab(3) unfolding stands_in_def by blast
  qed
next
  assume "n = x \<or> stands_in n (dropWhile is_space r)"
  then show "stands_in n (x @ c # r)"
  proof
    assume "n = x"
    then show ?thesis using assms(2) unfolding stands_in_def by (intro exI [of _ "[]"] exI [of _ "c # r"]) simp
  next
    assume "stands_in n (dropWhile is_space r)"
    then obtain a b where ab: "dropWhile is_space r = a @ n @ b" "a = [] \<or> is_space (last a)" "b = [] \<or> is_space (hd b)"
      by (auto simp: stands_in_def)
    let ?a = "x @ c # takeWhile is_space r @ a"
    have "x @ c # r = ?a @ n @ b" using ab(1) takeWhile_dropWhile_id [of is_space r] by simp
    moreover have "is_space (last (c # takeWhile is_space r))"
      using assms(2) set_takeWhileD [OF last_in_set [of "takeWhile is_space r"]] by auto
    then have "is_space (last ?a)" using ab(2) by (cases "a = []") auto
    ultimately show ?thesis using ab(3) unfolding stands_in_def by blast
  qed
qed

lemma class_names_stands_in: "plain_name n \<Longrightarrow> n \<in> set (class_names s) \<longleftrightarrow> stands_in n s"
proof (induction s rule: split_spaces_induct)
  case (plain s)
  then show ?case by (auto simp: class_names_def split_spaces_plain stands_in_plain plain_name_def)
next
  case (space x c r)
  then show ?case by (auto simp: class_names_def split_spaces_space stands_in_space plain_name_def)
qed

text \<open>The pattern of \<^verbatim>\<open>hasClassName\<close> for a name without special characters.\<close>

definition class_re :: "string \<Rightarrow> regex" where
  "class_re className = Seq (Group 1 (Alt Bol (Ch is_space))) (Seq (Lit className) (Group 2 (Alt (Ch is_space) Eol)))"

lemma search_found: "search s r k i \<noteq> None \<longleftrightarrow> (\<exists>j. i \<le> j \<and> j < i + k \<and> ways s r j [] \<noteq> [])"
proof (induction k arbitrary: i)
  case (Suc k)
  show ?case
  proof (cases "ways s r i []")
    case Nil
    have "(\<exists>j. i \<le> j \<and> j < i + Suc k \<and> ways s r j [] \<noteq> []) \<longleftrightarrow> (\<exists>j. Suc i \<le> j \<and> j < Suc i + k \<and> ways s r j [] \<noteq> [])"
      using Nil by (metis add_Suc_right add_Suc_shift not_less_eq_eq order_antisym Suc_leD)
    then show ?thesis using Nil Suc.IH [of "Suc i"] by simp
  next
    case (Cons a as)
    then show ?thesis by (auto split: prod.splits intro!: exI [of _ i])
  qed
qed simp

lemma regex_test_ways: "regex_test r s \<longleftrightarrow> (\<exists>j \<le> length s. ways s r j [] \<noteq> [])"
  using search_found [of s r "Suc (length s)" 0] by (auto simp: regex_test_def regex_match_def less_Suc_eq_le)

lemma ways_Lit:
  "i \<le> length s \<Longrightarrow> ways s (Lit w) i c = (if take (length w) (drop i s) = w then [(i + length w, c)] else [])"
proof (induction w arbitrary: i)
  case Nil
  then show ?case by (simp add: Lit_def)
next
  case (Cons x w)
  show ?case
  proof (cases "i < length s")
    case True
    then have "drop i s = s ! i # drop (Suc i) s" by (simp add: Cons_nth_drop_Suc)
    then show ?thesis using Cons.IH [of "Suc i"] True by (auto simp: Lit_def)
  next
    case False
    then show ?thesis using Cons.prems by (simp add: Lit_def)
  qed
qed

lemma class_end_ways:
  "j \<le> length s \<Longrightarrow> ways s (Seq (Lit n) (Group 2 (Alt (Ch is_space) Eol))) j d \<noteq> [] \<longleftrightarrow>
     take (length n) (drop j s) = n \<and> (j + length n = length s \<or> j + length n < length s \<and> is_space (s ! (j + length n)))"
  by (cases "take (length n) (drop j s) = n") (auto simp: ways_Lit)

lemma class_start_ways:
  "ways s (Seq (Group 1 (Alt Bol (Ch is_space))) B) i [] \<noteq> [] \<longleftrightarrow> (i = 0 \<and> ways s B 0 [(1, (0, 0))] \<noteq> []) \<or>
     (i < length s \<and> is_space (s ! i) \<and> ways s B (Suc i) [(1, (i, Suc i))] \<noteq> [])"
  by (cases "i = 0"; cases "i < length s \<and> is_space (s ! i)") (auto simp: forget_def)

lemma class_re_ways:
  assumes "i \<le> length s"
  shows "ways s (class_re n) i [] \<noteq> [] \<longleftrightarrow>
    (\<exists>j \<le> length s. (j = 0 \<and> i = 0 \<or> j = Suc i \<and> is_space (s ! i)) \<and>
       take (length n) (drop j s) = n \<and> (j + length n = length s \<or> j + length n < length s \<and> is_space (s ! (j + length n))))"
proof -
  let ?B = "Seq (Lit n) (Group 2 (Alt (Ch is_space) Eol))"
  have "ways s (class_re n) i [] \<noteq> [] \<longleftrightarrow> (i = 0 \<and> ways s ?B 0 [(1, (0, 0))] \<noteq> []) \<or>
      (i < length s \<and> is_space (s ! i) \<and> ways s ?B (Suc i) [(1, (i, Suc i))] \<noteq> [])"
    unfolding class_re_def by (rule class_start_ways)
  moreover note class_end_ways [of 0 s n "[(1, (0, 0))]"]
  moreover have "i < length s \<Longrightarrow> Suc i \<le> length s" by simp
  note class_end_ways [OF this, of n "[(1, (i, Suc i))]"]
  ultimately show ?thesis by (metis Suc_le_eq le0)
qed

lemma ex_pred:
  "(\<exists>i \<le> k. \<exists>j \<le> k. (j = 0 \<and> i = 0 \<or> j = Suc i \<and> p i) \<and> Q j) \<longleftrightarrow> (\<exists>j \<le> (k :: nat). (j = 0 \<or> 0 < j \<and> p (j - 1)) \<and> Q j)"
proof
  assume "\<exists>j \<le> k. (j = 0 \<or> 0 < j \<and> p (j - 1)) \<and> Q j"
  then obtain j where "j \<le> k" "j = 0 \<or> 0 < j \<and> p (j - 1)" "Q j" by blast
  then show "\<exists>i \<le> k. \<exists>j \<le> k. (j = 0 \<and> i = 0 \<or> j = Suc i \<and> p i) \<and> Q j"
    by (intro exI [of _ "j - 1"] conjI exI [of _ j]) auto
qed fastforce

lemma stands_in_positions:
  "stands_in n s \<longleftrightarrow> (\<exists>j \<le> length s. (j = 0 \<or> 0 < j \<and> is_space (s ! (j - 1))) \<and>
     take (length n) (drop j s) = n \<and> (j + length n = length s \<or> j + length n < length s \<and> is_space (s ! (j + length n))))"
proof
  assume "stands_in n s"
  then obtain a b where ab: "s = a @ n @ b" "a = [] \<or> is_space (last a)" "b = [] \<or> is_space (hd b)"
    by (auto simp: stands_in_def)
  have "a = [] \<or> is_space (s ! (length a - 1))"
    using ab by (cases a rule: rev_cases) (auto simp: nth_append)
  moreover have "b = [] \<or> is_space (s ! (length a + length n))" using ab by (cases b) (auto simp: nth_append)
  ultimately show "\<exists>j \<le> length s. (j = 0 \<or> 0 < j \<and> is_space (s ! (j - 1))) \<and>
     take (length n) (drop j s) = n \<and> (j + length n = length s \<or> j + length n < length s \<and> is_space (s ! (j + length n)))"
    by (intro exI [of _ "length a"]) (auto simp: ab(1))
next
  assume "\<exists>j \<le> length s. (j = 0 \<or> 0 < j \<and> is_space (s ! (j - 1))) \<and>
     take (length n) (drop j s) = n \<and> (j + length n = length s \<or> j + length n < length s \<and> is_space (s ! (j + length n)))"
  then obtain j where j: "j \<le> length s" "j = 0 \<or> 0 < j \<and> is_space (s ! (j - 1))" "take (length n) (drop j s) = n"
    "j + length n = length s \<or> j + length n < length s \<and> is_space (s ! (j + length n))" by blast
  let ?b = "drop (length n) (drop j s)"
  have "s = take j s @ n @ ?b" using j(3) append_take_drop_id [of "length n" "drop j s"] by simp
  moreover have "take j s = [] \<or> is_space (last (take j s))"
  proof (cases "j = 0")
    case False
    then have "take j s \<noteq> []" "length (take j s) = j" using j(1) by auto
    then show ?thesis using j(2) False by (simp add: last_conv_nth)
  qed simp
  moreover have "?b = [] \<or> is_space (hd ?b)" using j(4) by (auto simp: hd_drop_conv_nth add.commute)
  ultimately show "stands_in n s" unfolding stands_in_def by blast
qed

text \<open>What \<^verbatim>\<open>RegExp\<close> reads for such a name matches as that pattern does.\<close>

lemma class_source_read:
  "literal_text n \<Longrightarrow> RegExp (class_source n) = Some (Inr (Seq (Group 1 (Alt (Seq Bol Empty) (Seq (Ch is_space) Empty)))
     (foldr (\<lambda>c r. Seq (snd (re_char c)) r) n (Seq (Group 2 (Alt (Seq (Ch is_space) Empty) (Seq Eol Empty))) Empty))))"
  using re_terms_snoc [of _ n "[]"]
  by (simp add: RegExp_def class_source_def re_read.simps re_read_literal re_escape_def re_char_special re_close_def
      re_terms_def re_terms_snoc numeral_2_eq_2)

lemma class_source_ways:
  assumes "literal_text n"
  shows "\<exists>r. RegExp (class_source n) = Some (Inr r) \<and> (\<forall>s. ways s r = ways s (class_re n))"
proof -
  have group: "ways s (Group k (Alt (Seq a Empty) (Seq b Empty))) = ways s (Group k (Alt a b))" for s k a b
    by (intro ext) (simp add: ways_Seq_Empty del: ways.simps(3))
  have "ways s (Seq (Group 1 (Alt (Seq Bol Empty) (Seq (Ch is_space) Empty)))
     (foldr (\<lambda>c r. Seq (snd (re_char c)) r) n (Seq (Group 2 (Alt (Seq (Ch is_space) Empty) (Seq Eol Empty))) Empty))) =
    ways s (class_re n)" for s
    unfolding class_re_def
    by (intro ways_Seq_cong group ways_literal [OF assms, THEN trans] refl) (simp only: ways_Seq_Empty group)
  then show ?thesis using class_source_read [OF assms] by blast
qed

definition literal_name :: "string \<Rightarrow> bool" where
  "literal_name n \<longleftrightarrow> plain_name n \<and> literal_text n"

lemma hasClassName_include:
  assumes "literal_name n"
  shows "hasClassName s n = Some (Inr (ClassNames_include s n))"
proof -
  have n: "plain_name n" "literal_text n" using assms by (simp_all add: literal_name_def)
  obtain r where r: "RegExp (class_source n) = Some (Inr r)" "ways s r = ways s (class_re n)" for s
    using class_source_ways [OF n(2)] by blast
  have "regex_test r s \<longleftrightarrow> (\<exists>i \<le> length s. \<exists>j \<le> length s. (j = 0 \<and> i = 0 \<or> j = Suc i \<and> is_space (s ! i)) \<and>
       take (length n) (drop j s) = n \<and> (j + length n = length s \<or> j + length n < length s \<and> is_space (s ! (j + length n))))"
    unfolding regex_test_ways r(2) using class_re_ways [of _ s n] by blast
  also have "\<dots> \<longleftrightarrow> stands_in n s" unfolding stands_in_positions by (rule ex_pred)
  finally have "regex_test r s \<longleftrightarrow> stands_in n s" .
  moreover have "stands_in n n" unfolding stands_in_def by (intro exI [of _ "[]"]) simp
  moreover have "\<not> stands_in n []" using n(1) by (simp add: stands_in_def plain_name_def)
  ultimately show ?thesis
    by (auto simp: hasClassName_def r(1) include_class_names class_names_stands_in [OF n(1)])
qed

text \<open>
  C8: class names through the text of the attribute, however its names are spaced, for a name without white
  space and without the characters that are special in a regular expression: \<^verbatim>\<open>add\<close> appends a new name,
  \<^verbatim>\<open>remove\<close> removes every occurrence, \<^verbatim>\<open>hasClassName\<close>, which searches with a regular expression made of the
  name, decides membership in the list of the names, and \<^verbatim>\<open>toggleClassName\<close> changes it.
\<close>

theorem class_names_refine:
  assumes "literal_name n"
  shows "class_names (ClassNames_add n s) = class_names s @ (if n \<in> set (class_names s) then [] else [n]) \<and>
    class_names (ClassNames_remove n s) = filter (\<lambda>m. m \<noteq> n) (class_names s) \<and>
    hasClassName s n = Some (Inr (n \<in> set (class_names s))) \<and>
    (\<exists>t. toggleClassName n s = Some (Inr t) \<and>
       class_names t = (if n \<in> set (class_names s) then filter (\<lambda>m. m \<noteq> n) (class_names s) else class_names s @ [n]))"
  using assms class_names_add [of n s] class_names_remove hasClassName_include [OF assms]
  by (simp add: include_class_names toggleClassName_def literal_name_def)

theorem class_names_refine_witness:
  "let s = ''  tab  row ''; n = ''on'' in
    class_names (ClassNames_add n s) = class_names s @ (if n \<in> set (class_names s) then [] else [n]) \<and>
    class_names (ClassNames_remove n s) = filter (\<lambda>m. m \<noteq> n) (class_names s) \<and>
    hasClassName s n = Some (Inr (n \<in> set (class_names s))) \<and>
    (\<exists>t. toggleClassName n s = Some (Inr t) \<and>
       class_names t = (if n \<in> set (class_names s) then filter (\<lambda>m. m \<noteq> n) (class_names s) else class_names s @ [n]))"
  unfolding Let_def
  by (rule class_names_refine) (simp add: literal_name_def plain_name_def literal_text_def special_chars_def is_space_def)

text \<open>
  A name with special characters: a dot stands for any character, so that \<^verbatim>\<open>hasClassName\<close> finds a name that is
  not there, and a name that is no pattern throws.
\<close>

lemma hasClassName_special:
  "hasClassName ''abc'' ''a.c'' = Some (Inr True)" "''a.c'' \<notin> set (class_names ''abc'')"
  "hasClassName ''abc'' ''('' = Some (Inl (SyntaxError ''unterminated parenthetical''))"
  "hasClassName ''abc'' ''a+*'' = Some (Inl (SyntaxError ''invalid quantifier''))"
  by code_simp+

section \<open>Properties of forms\<close>

text \<open>The rounds of \<^verbatim>\<open>serializeElements\<close> as a recursion.\<close>

fun serialize_loop :: "(string \<Rightarrow> jsval option) \<Rightarrow> nat \<Rightarrow> nat \<Rightarrow> form_element list \<Rightarrow> props \<Rightarrow> exn + props" where
  "serialize_loop inherited a i [] result = Inr result"
| "serialize_loop inherited a i (e # es) result = (case fst (serialize_step inherited a result e i ()) of
     Inl x \<Rightarrow> Inl x | Inr r \<Rightarrow> serialize_loop inherited a (Suc i) es r)"

text \<open>
  What a field has to send, by the kind of the field: a box that is not checked and a list without a selected
  option have nothing, a list has the value of the selected option, or its text when it has no value, and
  every other field has the text in it.
\<close>

definition field_value :: "form_element \<Rightarrow> string option" where
  "field_value e =
     (if toLowerCase (tagName e) = ''select'' then
        (if selectedIndex e < 0 then None
         else let opt = el_options e ! nat (selectedIndex e) in
           Some (if fo_value opt = None then fo_text opt else the (fo_value opt)))
      else if toLowerCase (tagName e) = ''input'' \<and> toLowerCase (el_type e) \<in> {''checkbox'', ''radio''} \<and> \<not> checked e
      then None
      else Some (el_value e))"

definition field_text :: "form_element \<Rightarrow> string option" where
  "field_text e = (if disabled e then None else field_value e)"

text \<open>The fields, except for lists in which several options can be selected.\<close>

definition text_field :: "form_element \<Rightarrow> bool" where
  "text_field e \<longleftrightarrow> toLowerCase (tagName e) \<in> {''input'', ''textarea''} \<or>
     toLowerCase (tagName e) = ''select'' \<and> el_type e = ''select-one'' \<and> selectedIndex e < int (length (el_options e))"

lemma getValue_text_field:
  assumes "text_field e"
  shows "getValue a e = Inr (case field_value e of Some t \<Rightarrow> Str t | None \<Rightarrow> Null)"
proof (cases "toLowerCase (tagName e) = ''select''")
  case True
  then show ?thesis
    using assms by (cases "selectedIndex e < 0") (auto simp: getValue_def Serializers_def Serializers_select_def selectOne_def
        optionValue_def field_value_def text_field_def Let_def split: option.splits)
next
  case False
  then show ?thesis
    using assms by (auto simp: getValue_def Serializers_def Serializers_input_def inputSelector_def Serializers_textarea_def
        field_value_def text_field_def)
qed

definition sent_texts :: "form_element list \<Rightarrow> string \<Rightarrow> string list" where
  "sent_texts es k = List.map_filter field_text (filter (\<lambda>e. el_name e = k) es)"

definition collected :: "string list \<Rightarrow> jsval option \<Rightarrow> bool" where
  "collected ts v = (case ts of [] \<Rightarrow> v = None | [t] \<Rightarrow> v = Some (Str t) | _ \<Rightarrow> (\<exists>b. v = Some (Arr b (map Str ts))))"

lemma collected_snoc:
  assumes "collected ts (map_of ps k)" "inherited k = None"
  shows "\<exists>qs. query_store inherited a k (Str t) ps = Inr qs \<and> collected (ts @ [t]) (map_of qs k) \<and>
    (\<forall>j. j \<noteq> k \<longrightarrow> map_of qs j = map_of ps j) \<and> (distinct (map fst ps) \<longrightarrow> distinct (map fst qs))"
proof -
  consider "ts = []" | u where "ts = [u]" | u v us where "ts = u # v # us" by (metis list.exhaust)
  then show ?thesis
  proof cases
    case 3
    then obtain b where "map_of ps k = Some (Arr b (map Str ts))" using assms(1) by (auto simp: collected_def)
    then show ?thesis using 3 by (auto simp: query_store_def collected_def intro: distinct_set_prop)
  qed (use assms in \<open>auto simp: query_store_def collected_def intro: distinct_set_prop\<close>)
qed

lemma serialize_step_text:
  assumes "text_field e" "\<And>k. collected (ts k) (map_of ps k)" "inherited (el_name e) = None" "distinct (map fst ps)"
  shows "\<exists>qs. fst (serialize_step inherited a ps e i ()) = Inr qs \<and> distinct (map fst qs) \<and>
    (\<forall>k. k \<noteq> [] \<longrightarrow> collected (ts k @ sent_texts [e] k) (map_of qs k)) \<and> map_of qs [] = map_of ps []"
proof (cases "\<not> disabled e \<and> el_name e \<noteq> [] \<and> field_value e \<noteq> None")
  case True
  then obtain t where t: "field_value e = Some t" by blast
  obtain qs where qs: "query_store inherited (Suc (a + 2 * i)) (el_name e) (Str t) ps = Inr qs"
    "collected (ts (el_name e) @ [t]) (map_of qs (el_name e))"
    "\<And>j. j \<noteq> el_name e \<Longrightarrow> map_of qs j = map_of ps j" "distinct (map fst qs)"
    using collected_snoc [of "ts (el_name e)" ps "el_name e" inherited "Suc (a + 2 * i)" t] assms(2,3) assms(4) by blast
  have "sent_texts [e] k = (if k = el_name e then [t] else [])" for k
    using True t by (simp add: sent_texts_def field_text_def List.map_filter_def)
  then show ?thesis
    using True t qs assms(2) by (auto simp: serialize_step_def act_ret_def getValue_text_field [OF assms(1)])
next
  case False
  then have "fst (serialize_step inherited a ps e i ()) = Inr ps"
    by (auto simp: serialize_step_def act_ret_def getValue_text_field [OF assms(1)])
  moreover have "k \<noteq> [] \<Longrightarrow> sent_texts [e] k = []" for k
    using False by (auto simp: sent_texts_def field_text_def List.map_filter_def)
  ultimately show ?thesis using assms(2,4) by auto
qed

lemma sent_texts_Cons: "sent_texts (e # es) k = sent_texts [e] k @ sent_texts es k"
  by (simp add: sent_texts_def List.map_filter_def)

lemma serialize_loop_text:
  assumes "\<And>e. e \<in> set es \<Longrightarrow> text_field e \<and> inherited (el_name e) = None"
  shows "(\<And>k. collected (ts k) (map_of ps k)) \<Longrightarrow> distinct (map fst ps) \<Longrightarrow> ts [] = [] \<Longrightarrow>
    \<exists>qs. serialize_loop inherited a i es ps = Inr qs \<and> distinct (map fst qs) \<and>
      (\<forall>k. k \<noteq> [] \<longrightarrow> collected (ts k @ sent_texts es k) (map_of qs k)) \<and> map_of qs [] = None"
  using assms
proof (induction es arbitrary: i ts ps)
  case Nil
  then show ?case using Nil(1) [of "[]"] by (auto simp: sent_texts_def List.map_filter_def collected_def)
next
  case (Cons e es)
  obtain qs where qs: "fst (serialize_step inherited a ps e i ()) = Inr qs" "distinct (map fst qs)"
    "\<And>k. k \<noteq> [] \<Longrightarrow> collected (ts k @ sent_texts [e] k) (map_of qs k)" "map_of qs [] = map_of ps []"
    using serialize_step_text [of e ts ps inherited a i] Cons.prems by auto
  let ?ts = "\<lambda>k. if k = [] then [] else ts k @ sent_texts [e] k"
  have "collected (?ts k) (map_of qs k)" for k
    using qs(3,4) Cons.prems(1) [of "[]"] Cons.prems(3) by (cases "k = []") auto
  then have "\<exists>rs. serialize_loop inherited a (Suc i) es qs = Inr rs \<and> distinct (map fst rs) \<and>
      (\<forall>k. k \<noteq> [] \<longrightarrow> collected (?ts k @ sent_texts es k) (map_of rs k)) \<and> map_of rs [] = None"
    using qs(2) Cons.prems(4) by (intro Cons.IH) auto
  then show ?case using qs(1) by (auto simp: sent_texts_Cons [of e es])
qed

lemma each_loop_serialize:
  "serialize_loop inherited a i es ps = Inr qs \<Longrightarrow>
   each_loop i es (\<lambda>value index. act_bind get_local (\<lambda>m.
     act_bind (on_rest (serialize_step inherited a m value index)) set_local)) (ps, ()) = (Inr (), (qs, ()))"
proof (induction es arbitrary: i ps)
  case (Cons e es)
  obtain r where s: "serialize_step inherited a ps e i () = (r, ())"
    by (cases "serialize_step inherited a ps e i ()") simp
  then obtain rs where r: "r = Inr rs" using Cons.prems by (cases r) auto
  then have "serialize_loop inherited a (Suc i) es rs = Inr qs" using Cons.prems s by simp
  from Cons.IH [OF this] show ?case using s r by (simp add: act_defs)
qed simp

lemma serialize_data_loop:
  "serialize_loop inherited a 0 es [] = Inr qs \<Longrightarrow> serialize_data inherited a es = Inr qs"
  unfolding serialize_data_def Enumerable_inject_def with_local_def Enumerable_each_Array
  by (simp add: each_loop_serialize)

text \<open>
  C12: the data of a form without lists in which several options can be selected, and without names that
  objects inherit, has for every name the values of the enabled elements with that name in the order of the
  document: nothing for a name with none, the text for a name with one, and an array for a name with more;
  elements that are disabled, boxes that are not checked, lists without a selected option and elements without
  a name are left out.
\<close>

theorem serialize_collects:
  assumes "\<And>e. e \<in> set es \<Longrightarrow> text_field e \<and> inherited (el_name e) = None"
  shows "\<exists>data. serialize_data inherited a es = Inr data \<and> distinct (map fst data) \<and>
    (\<forall>k. collected (if k = [] then [] else sent_texts es k) (map_of data k))"
proof -
  obtain qs where qs: "serialize_loop inherited a 0 es [] = Inr qs" "distinct (map fst qs)"
    "\<And>k. k \<noteq> [] \<Longrightarrow> collected (sent_texts es k) (map_of qs k)" "map_of qs [] = None"
    using serialize_loop_text [of es inherited "\<lambda>_. []" "[]" a 0] assms by (auto simp: collected_def)
  then have "collected (if k = [] then [] else sent_texts es k) (map_of qs k)" for k
    by (cases "k = []") (auto simp: collected_def)
  then show ?thesis using serialize_data_loop [OF qs(1)] qs(2) by blast
qed

text \<open>A field with a name and a value, and a form with two boxes of the same name.\<close>

definition sample_field :: "string \<Rightarrow> string \<Rightarrow> string \<Rightarrow> form_element" where
  "sample_field ty name val = \<lparr>tagName = ''INPUT'', el_type = ty, el_name = name, el_value = val, checked = True,
     disabled = False, selectedIndex = 0, el_options = []\<rparr>"

definition sample_form :: "form_element list" where
  "sample_form = [sample_field ''text'' ''SQL'' ''select 1'', sample_field ''checkbox'' ''db'' ''a'',
     (sample_field ''checkbox'' ''db'' ''c'')\<lparr>checked := False\<rparr>, sample_field ''checkbox'' ''db'' ''b'',
     (sample_field ''select-one'' ''server'' [])\<lparr>tagName := ''SELECT'', selectedIndex := 1, el_options :=
        [\<lparr>fo_value = Some ''1'', fo_text = ''first'', fo_selected = False\<rparr>, \<lparr>fo_value = None, fo_text = ''second'', fo_selected = True\<rparr>]\<rparr>,
     sample_field ''text'' [] ''x'']"

lemma sample_field_value: "getValue a (sample_field ty name val) = Inr (Str val)"
proof -
  have "toLowerCase ''INPUT'' = ''input''" by code_simp
  then show ?thesis
    by (simp add: sample_field_def getValue_def Serializers_def Serializers_input_def inputSelector_def Serializers_textarea_def)
qed

lemma sample_field_name: "el_name (sample_field ty name val) = name" "\<not> disabled (sample_field ty name val)"
  by (simp_all add: sample_field_def)

lemma sample_form_texts: "e \<in> set sample_form \<Longrightarrow> text_field e"
proof -
  have "toLowerCase ''INPUT'' = ''input''" "toLowerCase ''SELECT'' = ''select''" by code_simp+
  then show "e \<in> set sample_form \<Longrightarrow> text_field e"
    by (auto simp: sample_form_def text_field_def sample_field_def)
qed

lemma sample_form_sent:
  "sent_texts sample_form ''db'' = [''a'', ''b'']" "sent_texts sample_form ''server'' = [''second'']"
  by code_simp+

theorem serialize_collects_witness:
  "\<exists>data. serialize_data (\<lambda>_. None) 0 sample_form = Inr data \<and> distinct (map fst data) \<and>
    (\<exists>b. map_of data ''db'' = Some (Arr b [Str ''a'', Str ''b''])) \<and> map_of data ''server'' = Some (Str ''second'') \<and>
    map_of data [] = None"
proof -
  obtain data where data: "serialize_data (\<lambda>_. None) 0 sample_form = Inr data" "distinct (map fst data)"
    "\<And>k. collected (if k = [] then [] else sent_texts sample_form k) (map_of data k)"
    using serialize_collects [of sample_form "\<lambda>_. None" 0] sample_form_texts by blast
  show ?thesis
    using data(1,2) data(3) [of "''db''"] data(3) [of "''server''"] data(3) [of "[]"] by (auto simp: sample_form_sent collected_def)
qed

text \<open>
  A disabled form sends nothing, and enabling it makes every field enabled and changes nothing else.
\<close>

theorem disabled_form_empty:
  "Form_serialize inherited proto a (Form_disable form) False = Inr (AsText []) \<and>
   Form_enable (Form_disable form) = Form_enable form"
proof
  have g: "Form_getElements form = filter is_field form" for form
  proof -
    have "foldl (\<lambda>es c. if is_field c then es @ [c] else es) xs form = xs @ filter is_field form" for xs
      by (induction form arbitrary: xs) auto
    then show ?thesis by (simp add: Form_getElements_def)
  qed
  have d: "disabled e" if "e \<in> set (Form_getElements (Form_disable form))" for e
    using that by (auto simp: g Form_disable_def Element_disable_def is_field_def split: if_splits)
  have "serialize_loop inherited a i es ps = Inr ps" if "\<And>e. e \<in> set es \<Longrightarrow> disabled e" for i es ps
    using that by (induction es arbitrary: i) (auto simp: serialize_step_def act_ret_def)
  from serialize_data_loop [OF this [OF d]] show "Form_serialize inherited proto a (Form_disable form) False = Inr (AsText [])"
    by (simp add: Form_serialize_def serializeElements_def Hash_toQueryString_def Hash_items_def)
  show "Form_enable (Form_disable form) = Form_enable form"
    by (auto simp: Form_enable_def Form_disable_def Element_disable_def Element_enable_def is_field_def)
qed

definition named_text :: "form_element \<Rightarrow> string \<Rightarrow> bool" where
  "named_text e t \<longleftrightarrow> \<not> disabled e \<and> el_name e \<noteq> [] \<and> (\<forall>a. getValue a e = Inr (Str t))"

lemma serialize_loop_distinct:
  assumes "list_all2 named_text es ts" "distinct (map fst ps @ map el_name es)"
    and "\<And>e. e \<in> set es \<Longrightarrow> inherited (el_name e) = None"
  shows "serialize_loop inherited a i es ps = Inr (ps @ zip (map el_name es) (map Str ts))"
  using assms
proof (induction es ts arbitrary: i ps rule: list_all2_induct)
  case (Cons e es t ts)
  have "map_of ps (el_name e) = None" using Cons.prems(1) by (simp add: map_of_eq_None_iff)
  moreover have "el_name e \<notin> fst ` set ps" using Cons.prems(1) by auto
  ultimately have "query_store inherited b (el_name e) (Str t) ps = Inr (ps @ [(el_name e, Str t)])" for b
    using Cons.prems(2) by (simp add: query_store_def set_prop_fresh)
  then have "fst (serialize_step inherited a ps e i ()) = Inr (ps @ [(el_name e, Str t)])"
    using Cons.hyps(1) by (simp add: serialize_step_def act_ret_def named_text_def)
  moreover have "serialize_loop inherited a (Suc i) es (ps @ [(el_name e, Str t)]) =
      Inr ((ps @ [(el_name e, Str t)]) @ zip (map el_name es) (map Str ts))"
    using Cons.prems by (intro Cons.IH) auto
  ultimately show ?case by simp
qed simp

text \<open>
  What a form with distinct names sends is read back by \<^verbatim>\<open>toQueryParams\<close> as the names and the texts of its fields,
  in the order of the document.
\<close>

theorem form_reads_back:
  assumes "list_all2 named_text es ts" "distinct (map el_name es)"
    and "\<And>e. e \<in> set es \<Longrightarrow> inherited (el_name e) = None \<and> proto (el_name e) = Undefined"
  shows "\<exists>t. serializeElements inherited proto a es False = Inr (AsText t) \<and>
    String_toQueryParams inherited b None t = Some (Inr (zip (map el_name es) (map Str ts)))"
proof -
  let ?ps = "zip (map el_name es) (map Str ts)"
  have len: "length es = length ts" using assms(1) by (rule list_all2_lengthD)
  have "serialize_data inherited a es = Inr ?ps"
    using serialize_data_loop [of inherited a es ?ps] serialize_loop_distinct [of es ts "[]" inherited a 0] assms by simp
  then have "serializeElements inherited proto a es False = Inr (AsText (Hash_toQueryString proto ?ps))"
    by (simp add: serializeElements_def)
  moreover have ps: "k \<noteq> [] \<and> query_value v \<and> inherited k = None \<and> proto k = Undefined" if kv: "(k, v) \<in> set ?ps" for k v
  proof -
    obtain e t where e: "e \<in> set es" "(e, t) \<in> set (zip es ts)" "k = el_name e" "v = Str t"
      using kv by (auto simp: zip_map_map dest: set_zip_leftD)
    then have "named_text e t" using assms(1) by (auto simp: list_all2_iff)
    then show ?thesis using assms(3) e by (auto simp: named_text_def query_value_def)
  qed
  have d: "distinct (map fst ?ps)" using assms(2) len by (simp add: map_fst_zip_take)
  have "query_loop inherited b (if ?ps = [] then [[]]
      else map (\<lambda>(k, v). toQueryString_addPair k v) ?ps) [] = Some (Inr ?ps)"
    using query_loop_fresh [of ?ps inherited "[]" b] d ps by (auto simp: query_pair_def)
  then have "String_toQueryParams inherited b None (Hash_toQueryString proto ?ps) = Some (Inr ?ps)"
    using toQueryParams_join [of ?ps inherited b] query_string [of ?ps proto] ps by simp
  ultimately show ?thesis by blast
qed

theorem form_reads_back_witness:
  "let es = [sample_field ''text'' ''SQL'' ''select 1 & 2'', sample_field ''checkbox'' ''db'' ''a''] in
   \<exists>t. serializeElements (\<lambda>_. None) (\<lambda>_. Undefined) 0 es False = Inr (AsText t) \<and>
    String_toQueryParams (\<lambda>_. None) 0 None t = Some (Inr (zip (map el_name es) (map Str [''select 1 & 2'', ''a''])))"
  unfolding Let_def by (rule form_reads_back) (auto simp: named_text_def sample_field_value sample_field_name)

section \<open>Properties of observers\<close>

text \<open>
  A page whose field takes the texts \<open>vs\<close> one after the other, with a timer event after each: the
  page is the value of the field and the values the callback got.
\<close>

definition observed_step :: "string \<Rightarrow> (string \<times> jsval list) observer \<Rightarrow> (string \<times> jsval list) observer option" where
  "observed_step v ob =
     map_option snd (Timed_onTimerEvent (\<lambda>(cur, _). Inr (Str cur))
       (\<lambda>value. p_mod (\<lambda>ob. ob\<lparr>ob_page := (fst (ob_page ob), snd (ob_page ob) @ [value])\<rparr>))
       (ob\<lparr>ob_page := (v, snd (ob_page ob))\<rparr>))"

fun observed_run :: "string list \<Rightarrow> (string \<times> jsval list) observer \<Rightarrow> (string \<times> jsval list) observer option" where
  "observed_run [] ob = Some ob"
| "observed_run (v # vs) ob = Option.bind (observed_step v ob) (observed_run vs)"

lemma observed_step_value:
  "lastValue ob = Str u \<Longrightarrow> observed_step v ob =
     Some \<lparr>lastValue = Str v, ob_page = (v, snd (ob_page ob) @ (if u = v then [] else [Str v]))\<rparr>"
  by (cases ob) (simp add: observed_step_def Timed_onTimerEvent_def observe_with_def timed_changed_def p_then_def p_bind_def
      p_mod_def p_ret_def)

text \<open>
  C16: an observer with a timer, of a field whose values are texts, calls its callback once for every change
  of the value that a timer event finds, with the new value, in order; equal values in a row are reported once.
\<close>

theorem observer_reports_changes:
  "\<exists>ob. observed_run vs \<lparr>lastValue = Str v, ob_page = (v, [])\<rparr> = Some ob \<and>
     snd (ob_page ob) = map Str (tl (remdups_adj (v # vs)))"
proof -
  have "\<exists>ob'. observed_run vs ob = Some ob' \<and> snd (ob_page ob') = snd (ob_page ob) @ map Str (tl (remdups_adj (u # vs)))"
    if "lastValue ob = Str u" for ob u
    using that
  proof (induction vs arbitrary: ob u)
    case (Cons v vs)
    let ?ob = "\<lparr>lastValue = Str v, ob_page = (v, snd (ob_page ob) @ (if u = v then [] else [Str v]))\<rparr>"
    obtain ob' where "observed_run vs ?ob = Some ob'"
      "snd (ob_page ob') = snd (ob_page ?ob) @ map Str (tl (remdups_adj (v # vs)))"
      using Cons.IH [of ?ob v] by auto
    moreover obtain q where "remdups_adj (v # vs) = v # q"
      by (cases "remdups_adj (v # vs)") (use hd_remdups_adj [of "v # vs"] in auto)
    ultimately show ?case
      using observed_step_value [OF Cons.prems, of v] by (auto simp del: remdups_adj.simps simp: remdups_adj.simps(3) [of u v])
  qed simp
  from this [of "\<lparr>lastValue = Str v, ob_page = (v, [])\<rparr>" v] show ?thesis by simp
qed

text \<open>
  The observer of events, unlike that of timers, reports a change at every event of a list with several selected
  options: each reading is a new array, and arrays are compared by reference.
\<close>

theorem event_observer_arrays:
  assumes "a \<noteq> b"
  shows "\<exists>ob. onElementEvent (\<lambda>_. Inr (Arr b vs)) (\<lambda>v. p_mod (\<lambda>ob. ob\<lparr>ob_page := ob_page ob + 1\<rparr>))
      \<lparr>lastValue = Arr a vs, ob_page = n :: nat\<rparr> = Some (Inr (), ob) \<and> ob_page ob = n + 1 \<and>
    Timed_onTimerEvent (\<lambda>_. Inr (Arr b vs)) callback \<lparr>lastValue = Arr a vs, ob_page = n\<rparr> =
      Some (Inr (), \<lparr>lastValue = Arr a vs, ob_page = n\<rparr>)"
  using assms by (simp add: onElementEvent_def Timed_onTimerEvent_def observe_with_def timed_changed_def loose_eq_def is_ref_def
      p_then_def p_bind_def p_mod_def p_ret_def)

theorem event_observer_arrays_witness:
  "\<exists>ob. onElementEvent (\<lambda>_. Inr (Arr 1 [Str ''a''])) (\<lambda>v. p_mod (\<lambda>ob. ob\<lparr>ob_page := ob_page ob + 1\<rparr>))
      \<lparr>lastValue = Arr 0 [Str ''a''], ob_page = 0 :: nat\<rparr> = Some (Inr (), ob) \<and> ob_page ob = 0 + 1 \<and>
    Timed_onTimerEvent (\<lambda>_. Inr (Arr 1 [Str ''a''])) (\<lambda>_. p_ret ()) \<lparr>lastValue = Arr 0 [Str ''a''], ob_page = 0 :: nat\<rparr> =
      Some (Inr (), \<lparr>lastValue = Arr 0 [Str ''a''], ob_page = 0\<rparr>)"
  by (rule event_observer_arrays) simp

end
