(* ===== verification/Prototype_Element.thy ===== *)
theory Prototype_Element
  imports Prototype_Form
begin

text \<open>
  The document tree and the traversal methods of elements, from \<^verbatim>\<open>htdocs/prototype.js\<close>.
  A document is the list of its nodes in document order, and a node is named by its place.  The
  record of a node has what the code reads; \<^verbatim>\<open>childNodes\<close>, the siblings and \<^verbatim>\<open>getElementsByTagName\<close> follow from the parents
  and the order, as the standard of the Document Object Model has them.
\<close>

section \<open>Documents\<close>

record dom_node =
  nodeType :: nat
  nd_tag :: string
  nd_parent :: "nat option"
  nd_class :: string
  nd_id :: string
  nd_attrs :: "(string \<times> string) list"
  nd_disabled :: bool
  nd_checked :: bool
  nd_innerHTML :: string

type_synonym document = "dom_node list"

text \<open>A parent comes before its children.\<close>

definition parentNode :: "document \<Rightarrow> nat \<Rightarrow> nat option" where
  "parentNode d n = (if n < length d then
     (case nd_parent (d ! n) of Some p \<Rightarrow> if p < n then Some p else None | None \<Rightarrow> None) else None)"

definition is_element :: "document \<Rightarrow> nat \<Rightarrow> bool" where
  "is_element d n \<longleftrightarrow> n < length d \<and> nodeType (d ! n) = 1"

definition childNodes :: "document \<Rightarrow> nat \<Rightarrow> nat list" where
  "childNodes d p = filter (\<lambda>i. parentNode d i = Some p) [0..<length d]"

definition preceding :: "document \<Rightarrow> nat \<Rightarrow> nat list" where
  "preceding d n = (case parentNode d n of None \<Rightarrow> []
     | Some p \<Rightarrow> filter (\<lambda>i. parentNode d i = Some p) [0..<n])"

definition following :: "document \<Rightarrow> nat \<Rightarrow> nat list" where
  "following d n = (case parentNode d n of None \<Rightarrow> []
     | Some p \<Rightarrow> filter (\<lambda>i. parentNode d i = Some p) [Suc n..<length d])"

definition nextSibling :: "document \<Rightarrow> nat \<Rightarrow> nat option" where
  "nextSibling d n = (case following d n of [] \<Rightarrow> None | m # _ \<Rightarrow> Some m)"

definition previousSibling :: "document \<Rightarrow> nat \<Rightarrow> nat option" where
  "previousSibling d n = (if preceding d n = [] then None else Some (last (preceding d n)))"

definition firstChild :: "document \<Rightarrow> nat \<Rightarrow> nat option" where
  "firstChild d n = (case childNodes d n of [] \<Rightarrow> None | m # _ \<Rightarrow> Some m)"

lemma parentNode_less: "parentNode d n = Some p \<Longrightarrow> p < n \<and> n < length d"
  by (auto simp: parentNode_def split: if_splits option.splits)

function descendantOf :: "document \<Rightarrow> nat \<Rightarrow> nat \<Rightarrow> bool" where
  "descendantOf d element ancestor = (case parentNode d element of
     None \<Rightarrow> False | Some p \<Rightarrow> if p = ancestor then True else descendantOf d p ancestor)"
  by pat_completeness auto
termination
  by (relation "measure (\<lambda>(d, n, a). n)") (auto dest: parentNode_less)

declare descendantOf.simps [simp del]

text \<open>\<^verbatim>\<open>getElementsByTagName\<close>: the elements below a node, in document order; \<^verbatim>\<open>*\<close> stands for every name.\<close>

definition getElementsByTagName :: "document \<Rightarrow> nat \<Rightarrow> string \<Rightarrow> nat list" where
  "getElementsByTagName d scope name =
     filter (\<lambda>i. is_element d i \<and> descendantOf d i scope \<and>
       (name = ''*'' \<or> toUpperCase (nd_tag (d ! i)) = toUpperCase name)) [0..<length d]"

definition getElementById :: "document \<Rightarrow> string \<Rightarrow> nat option" where
  "getElementById d i = find (\<lambda>n. is_element d n \<and> nd_id (d ! n) = i) [0..<length d]"

section \<open>Traversal\<close>

partial_function (option) recursivelyCollect :: "(nat \<Rightarrow> bool) \<Rightarrow> (nat \<Rightarrow> nat option) \<Rightarrow> nat \<Rightarrow> nat list option" where
  "recursivelyCollect element next n = (case next n of
     None \<Rightarrow> Some []
   | Some m \<Rightarrow> Option.bind (recursivelyCollect element next m) (\<lambda>elements.
       Some (if element m then m # elements else elements)))"

definition Element_ancestors :: "document \<Rightarrow> nat \<Rightarrow> nat list option" where
  "Element_ancestors d n = recursivelyCollect (is_element d) (parentNode d) n"

definition Element_previousSiblings :: "document \<Rightarrow> nat \<Rightarrow> nat list option" where
  "Element_previousSiblings d n = recursivelyCollect (is_element d) (previousSibling d) n"

definition Element_nextSiblings :: "document \<Rightarrow> nat \<Rightarrow> nat list option" where
  "Element_nextSiblings d n = recursivelyCollect (is_element d) (nextSibling d) n"

definition Element_siblings :: "document \<Rightarrow> nat \<Rightarrow> nat list option" where
  "Element_siblings d n = Option.bind (Element_previousSiblings d n) (\<lambda>before.
     Option.bind (Element_nextSiblings d n) (\<lambda>after. Some (rev before @ after)))"

definition Element_descendants :: "document \<Rightarrow> nat \<Rightarrow> nat list" where
  "Element_descendants d n = getElementsByTagName d n ''*''"

text \<open>\<^verbatim>\<open>while (element && element.nodeType != 1) element = element.nextSibling\<close>\<close>

partial_function (option) skip_to_element :: "document \<Rightarrow> nat option \<Rightarrow> nat option option" where
  "skip_to_element d element = (case element of
     None \<Rightarrow> Some None
   | Some n \<Rightarrow> if is_element d n then Some (Some n) else skip_to_element d (nextSibling d n))"

definition Element_firstDescendant :: "document \<Rightarrow> nat \<Rightarrow> nat option option" where
  "Element_firstDescendant d n = skip_to_element d (firstChild d n)"

definition Element_immediateDescendants :: "document \<Rightarrow> nat \<Rightarrow> nat list option" where
  "Element_immediateDescendants d n = (case firstChild d n of
     None \<Rightarrow> Some []
   | Some m \<Rightarrow> Option.bind (skip_to_element d (Some m)) (\<lambda>e. case e of
       None \<Rightarrow> Some []
     | Some k \<Rightarrow> Option.bind (Element_nextSiblings d k) (\<lambda>ns. Some (k # ns))))"

text \<open>
  \<^verbatim>\<open>document.getElementsByClassName\<close> of browsers without XPath.  A name that is no pattern throws at the first
  child with another class name.
\<close>

definition class_step :: "document \<Rightarrow> string \<Rightarrow> nat list \<Rightarrow> nat \<Rightarrow> (exn + nat list) option" where
  "class_step d className elements child = (case hasClassName (nd_class (d ! child)) className of
       None \<Rightarrow> None
     | Some (Inl e) \<Rightarrow> Some (Inl e)
     | Some (Inr has) \<Rightarrow> Some (Inr (if has then elements @ [child] else elements)))"

definition getElementsByClassName :: "document \<Rightarrow> string \<Rightarrow> nat \<Rightarrow> (exn + nat list) option" where
  "getElementsByClassName d className parent =
     foldl (\<lambda>r child. case r of Some (Inr elements) \<Rightarrow> class_step d className elements child | _ \<Rightarrow> r) (Some (Inr []))
       (getElementsByTagName d parent ''*'')"

text \<open>\<^verbatim>\<open>Event.findElement\<close>: from the target of the event upwards to the first element with the tag, or the last node.\<close>

function Event_findElement :: "document \<Rightarrow> nat \<Rightarrow> string \<Rightarrow> nat" where
  "Event_findElement d n name = (case parentNode d n of
     None \<Rightarrow> n
   | Some p \<Rightarrow> if nd_tag (d ! n) = [] \<or> toUpperCase (nd_tag (d ! n)) \<noteq> toUpperCase name
               then Event_findElement d p name else n)"
  by pat_completeness auto
termination
  by (relation "measure (\<lambda>(d, n, a). n)") (auto dest: parentNode_less)

declare Event_findElement.simps [simp del]

declare recursivelyCollect.simps [code] skip_to_element.simps [code]

section \<open>Properties of traversal\<close>

text \<open>
  What \<^verbatim>\<open>recursivelyCollect\<close> relies on: following the property comes nearer to an end.  Then it returns
  the elements on the way, each once.
\<close>

locale linked =
  fixes succ_node :: "nat \<Rightarrow> nat option" and rank :: "nat \<Rightarrow> nat"
  assumes rank_less: "succ_node n = Some m \<Longrightarrow> rank m < rank n"
begin

lemma collect_returns: "\<exists>xs. recursivelyCollect element succ_node n = Some xs"
proof (induction "rank n" arbitrary: n rule: less_induct)
  case less
  show ?case
  proof (cases "succ_node n")
    case None
    then show ?thesis by (simp add: recursivelyCollect.simps)
  next
    case (Some m)
    then obtain xs where "recursivelyCollect element succ_node m = Some xs" using less rank_less by blast
    then show ?thesis using Some by (subst recursivelyCollect.simps) simp
  qed
qed

lemma collect_spec:
  assumes "\<And>n. trail n = (case succ_node n of None \<Rightarrow> [] | Some m \<Rightarrow> m # trail m)"
  shows "recursivelyCollect element succ_node n = Some (filter element (trail n))"
proof (induction "rank n" arbitrary: n rule: less_induct)
  case less
  show ?case
  proof (cases "succ_node n")
    case None
    then show ?thesis using assms [of n] by (simp add: recursivelyCollect.simps)
  next
    case (Some m)
    then have "recursivelyCollect element succ_node m = Some (filter element (trail m))" using less rank_less by blast
    then show ?thesis using Some assms [of n] by (subst recursivelyCollect.simps) simp
  qed
qed

end

lemma following_less: "m \<in> set (following d n) \<Longrightarrow> n < m \<and> m < length d \<and> parentNode d m = parentNode d n"
  by (auto simp: following_def split: option.splits)

lemma preceding_less: "m \<in> set (preceding d n) \<Longrightarrow> m < n \<and> parentNode d m = parentNode d n"
  by (auto simp: preceding_def split: option.splits)

interpretation parents: linked "parentNode d" "\<lambda>n. n" for d
  by unfold_locales (auto dest: parentNode_less)

interpretation next_siblings: linked "nextSibling d" "\<lambda>n. length d - n" for d
proof unfold_locales
  fix n m assume "nextSibling d n = Some m"
  then have "m \<in> set (following d n)" by (auto simp: nextSibling_def split: list.splits)
  then have "n < m \<and> m < length d" using following_less by blast
  then show "length d - m < length d - n" by linarith
qed

interpretation previous_siblings: linked "previousSibling d" "\<lambda>n. n" for d
proof unfold_locales
  fix n m assume "previousSibling d n = Some m"
  then have "m \<in> set (preceding d n)" by (auto simp: previousSibling_def split: if_splits)
  then show "m < n" using preceding_less by blast
qed

lemma filter_upt_next:
  assumes "filter p [a..<b] = m # ms"
  shows "ms = filter p [Suc m..<b] \<and> p m \<and> a \<le> m \<and> m < b"
  using assms
proof (induction "b - a" arbitrary: a)
  case (Suc k)
  then have s: "[a..<b] = a # [Suc a..<b]" by (simp add: upt_conv_Cons)
  show ?case
  proof (cases "p a")
    case True
    then show ?thesis using Suc.prems Suc.hyps(2) s by auto
  next
    case False
    have k: "k = b - Suc a" using Suc.hyps(2) by simp
    have "filter p [Suc a..<b] = m # ms" using False Suc.prems s by simp
    from Suc.hyps(1) [OF k this] show ?thesis by simp
  qed
qed simp

lemma filter_upt_last:
  assumes "filter p [0..<b] \<noteq> []"
  shows "filter p [0..<b] = filter p [0..<last (filter p [0..<b])] @ [last (filter p [0..<b])]"
  using assms by (induction b) auto

lemma following_step: "following d n = (case nextSibling d n of None \<Rightarrow> [] | Some m \<Rightarrow> m # following d m)"
proof (cases "following d n")
  case (Cons m ms)
  then obtain p where p: "parentNode d n = Some p" "filter (\<lambda>i. parentNode d i = Some p) [Suc n..<length d] = m # ms"
    by (auto simp: following_def split: option.splits)
  from filter_upt_next [OF p(2)] have "following d m = ms" by (auto simp: following_def)
  then show ?thesis using Cons by (simp add: nextSibling_def)
qed (simp add: nextSibling_def)

lemma preceding_step:
  "rev (preceding d n) = (case previousSibling d n of None \<Rightarrow> [] | Some m \<Rightarrow> m # rev (preceding d m))"
proof (cases "preceding d n = []")
  case False
  then obtain p where p: "parentNode d n = Some p" "filter (\<lambda>i. parentNode d i = Some p) [0..<n] \<noteq> []"
    by (auto simp: preceding_def split: option.splits)
  let ?m = "last (preceding d n)"
  have m: "?m = last (filter (\<lambda>i. parentNode d i = Some p) [0..<n])" using p by (simp add: preceding_def)
  have "?m \<in> set (preceding d n)" using False by simp
  then have "parentNode d ?m = Some p" using preceding_less p(1) by simp
  then have "preceding d n = preceding d ?m @ [?m]"
    using filter_upt_last [OF p(2)] p(1) m by (simp add: preceding_def)
  then show ?thesis using False by (metis option.simps(5) previousSibling_def rev_append rev_singleton_conv singleton_rev_conv append_Cons append_Nil)
qed (simp add: previousSibling_def)

lemma nextSiblings_spec: "Element_nextSiblings d n = Some (filter (is_element d) (following d n))"
  unfolding Element_nextSiblings_def by (rule next_siblings.collect_spec) (rule following_step)

lemma previousSiblings_spec: "Element_previousSiblings d n = Some (rev (filter (is_element d) (preceding d n)))"
  unfolding Element_previousSiblings_def rev_filter
  by (rule previous_siblings.collect_spec [where trail = "\<lambda>n. rev (preceding d n)"]) (rule preceding_step)

text \<open>
  \<^verbatim>\<open>siblings\<close> returns, for every node with a parent, exactly the other elements among the children
  of its parent, in document order, although it walks backwards and forwards.
\<close>

theorem siblings_are_children:
  assumes "parentNode d n = Some p"
  shows "Element_siblings d n = Some (filter (\<lambda>i. is_element d i \<and> i \<noteq> n) (childNodes d p))"
proof -
  have n: "n < length d" using parentNode_less [OF assms] by simp
  have "[0..<length d] = [0..<n] @ n # [Suc n..<length d]"
    using upt_add_eq_append [of 0 n "length d - n"] n by (simp add: upt_conv_Cons)
  then have "filter (\<lambda>i. is_element d i \<and> i \<noteq> n) (childNodes d p) =
      filter (is_element d) (preceding d n) @ filter (is_element d) (following d n)"
    using assms by (auto simp: childNodes_def preceding_def following_def filter_append filter_filter intro!: arg_cong2 [of _ _ _ _ append] filter_cong)
  then show ?thesis by (simp add: Element_siblings_def nextSiblings_spec previousSiblings_spec)
qed

section \<open>A small document\<close>

definition an_element :: "string \<Rightarrow> nat option \<Rightarrow> string \<Rightarrow> dom_node" where
  "an_element tag parent classes = \<lparr>nodeType = 1, nd_tag = tag, nd_parent = parent, nd_class = classes, nd_id = [],
     nd_attrs = [], nd_disabled = False, nd_checked = False, nd_innerHTML = []\<rparr>"

definition a_text :: "nat \<Rightarrow> dom_node" where
  "a_text parent = an_element [] (Some parent) []\<lparr>nodeType := 3\<rparr>"

text \<open>A division with a nested division and a list of three items, with text between them.\<close>

definition sample :: document where
  "sample = [an_element ''#document'' None []\<lparr>nodeType := 9\<rparr>, an_element ''DIV'' (Some 0) ''box'',
     an_element ''DIV'' (Some 1) ''box inner'', an_element ''UL'' (Some 2) [], an_element ''LI'' (Some 3) ''a'', a_text 3,
     an_element ''LI'' (Some 3) ''b a'', an_element ''LI'' (Some 3) ''b'']"

theorem siblings_are_children_witness: "Element_siblings sample 6 = Some [4, 7]"
proof -
  have "parentNode sample 6 = Some 3" "filter (\<lambda>i. is_element sample i \<and> i \<noteq> 6) (childNodes sample 3) = [4, 7]" by code_simp+
  then show ?thesis using siblings_are_children [of sample 6 3] by simp
qed

end
