(* ===== verification/Prototype_Selector.thy ===== *)
theory Prototype_Selector
  imports Prototype_Element
begin

text \<open>
  The class Selector of \<^verbatim>\<open>htdocs/prototype.js\<close>, for browsers without XPath.  A selector is compiled, with
  the table of patterns, into a list of criteria; the code writes them as the text of a program, the
  model keeps them as data and runs them.  Marks that the code leaves on nodes, \<^verbatim>\<open>_counted\<close> and \<^verbatim>\<open>nodeIndex\<close>, are
  the state.
\<close>

section \<open>Patterns and criteria\<close>

datatype combinator = LaterSibling | Child | Adjacent | Descendant

datatype criterion =
    CombineWith combinator
  | TagName string
  | Id string
  | ClassName string
  | Pseudo string jsval
  | AttrPresence string
  | Attr string string string

definition name_char :: "char \<Rightarrow> bool" where
  "name_char c \<longleftrightarrow> is_word c \<or> c = CHR ''-''"

definition name_star_char :: "char \<Rightarrow> bool" where
  "name_star_char c \<longleftrightarrow> is_word c \<or> c = CHR ''-'' \<or> c = CHR ''*''"

definition spaces :: regex where
  "spaces = Star True (Ch is_space)"

definition combinator_re :: "string \<Rightarrow> regex" where
  "combinator_re sign = Seq Bol (Seq spaces (Seq (Lit sign) spaces))"

definition descendant_re :: regex where
  "descendant_re = Seq Bol (Ch is_space)"

definition tagName_re :: regex where
  "tagName_re = Seq Bol (Seq spaces (Seq (Group 1 (Alt (Lit ''*'') (Plus (Ch name_char)))) (Opt (Group 2 (Alt WordB Eol)))))"

definition id_re :: regex where
  "id_re = Seq Bol (Seq (Lit ''#'') (Seq (Group 1 (Plus (Ch name_star_char))) (Group 2 (Alt WordB Eol))))"

definition className_re :: regex where
  "className_re = Seq Bol (Seq (Lit ''.'') (Seq (Group 1 (Plus (Ch name_star_char))) (Group 2 (Alt WordB Eol))))"

definition pseudo_name :: regex where
  "pseudo_name =
     Alt (Seq (Group 2 (Alt (Lit ''first'') (Alt (Lit ''last'') (Alt (Lit ''nth'') (Alt (Lit ''nth-last'') (Lit ''only''))))))
           (Group 3 (Alt (Lit ''-child'') (Lit ''-of-type''))))
     (Alt (Lit ''empty'') (Alt (Lit ''checked'')
     (Alt (Seq (Group 4 (Alt (Lit ''en'') (Lit ''dis''))) (Lit ''abled'')) (Lit ''not''))))"

definition pseudo_re :: regex where
  "pseudo_re = Seq Bol (Seq (Lit '':'') (Seq (Group 1 pseudo_name)
     (Seq (Opt (Group 5 (Seq (Lit ''('') (Seq (Group 6 (Star False dot)) (Lit '')'')))))
       (Group 7 (Alt WordB (Alt Eol (Alt (Ch is_space) (Look (Lit '':'')))))))))"

definition attrPresence_re :: regex where
  "attrPresence_re = Seq Bol (Seq (Lit ''['') (Seq (Group 1 (Plus (Ch is_word))) (Lit '']'')))"

definition is_quote :: "char \<Rightarrow> bool" where
  "is_quote c \<longleftrightarrow> c = CHR 0x27 \<or> c = CHR 0x22"

definition attr_re :: regex where
  "attr_re = Seq (Lit ''['')
     (Seq (Group 1 (Seq (Opt (Seq (Star True (Ch name_char)) (Lit '':''))) (Plus (Ch name_char))))
     (Seq spaces
     (Seq (Opt (Seq (Group 2 (Seq (Opt (Ch (\<lambda>c. c \<in> set ''!^$*~|''))) (Lit ''='')))
            (Seq spaces (Group 3
              (Alt (Seq (Group 4 (Ch is_quote)) (Seq (Group 5 (Star False (Ch (\<lambda>c. c \<noteq> CHR '']'')))) (Backref 4)))
                   (Group 6 (Seq (Ch (\<lambda>c. \<not> is_quote c)) (Star False (Ch (\<lambda>c. c \<noteq> CHR '']''))))))))))
       (Lit '']''))))"

text \<open>
  The texts that are written into the program stand between double quotes: those with a double
  quote, a backslash or a new line make another program, which the model does not represent (\<open>None\<close>).
\<close>

definition quotable :: "string \<Rightarrow> bool" where
  "quotable t \<longleftrightarrow> list_all (\<lambda>c. c \<noteq> CHR 0x22 \<and> c \<noteq> CHR 0x5C \<and> code c \<noteq> 10 \<and> code c \<noteq> 13) t"

definition or_else :: "jsval \<Rightarrow> jsval \<Rightarrow> jsval" where
  "or_else a b = (if truthy a then a else b)"

definition patterns :: "(regex \<times> (match \<Rightarrow> criterion)) list" where
  "patterns =
     [(combinator_re ''~'', \<lambda>_. CombineWith LaterSibling),
      (combinator_re ''>'', \<lambda>_. CombineWith Child),
      (combinator_re ''+'', \<lambda>_. CombineWith Adjacent),
      (descendant_re, \<lambda>_. CombineWith Descendant),
      (tagName_re, \<lambda>m. TagName (String_interpret (group m 1))),
      (id_re, \<lambda>m. Id (String_interpret (group m 1))),
      (className_re, \<lambda>m. ClassName (String_interpret (group m 1))),
      (pseudo_re, \<lambda>m. Pseudo (String_interpret (group m 1)) (group m 6)),
      (attrPresence_re, \<lambda>m. AttrPresence (String_interpret (group m 1))),
      (attr_re, \<lambda>m. Attr (String_interpret (group m 1)) (String_interpret (or_else (group m 5) (group m 6)))
          (String_interpret (group m 2)))]"

definition writable :: "criterion \<Rightarrow> bool" where
  "writable k = (case k of Attr n v p \<Rightarrow> quotable v
     | Pseudo n v \<Rightarrow> list_all (\<lambda>c. c \<noteq> CHR 0x5C) (String_interpret v) | _ \<Rightarrow> True)"

text \<open>The first pattern that matches, with the match.\<close>

fun first_match :: "(regex \<times> (match \<Rightarrow> criterion)) list \<Rightarrow> string \<Rightarrow> (criterion \<times> string) option" where
  "first_match [] e = None"
| "first_match ((p, k) # ps) e = (case regex_match p e of
     Some m \<Rightarrow> Some (k m, m_text m) | None \<Rightarrow> first_match ps e)"

text \<open>\<^verbatim>\<open>e.replace(t, '')\<close> for a text \<open>t\<close>\<close>

definition remove_text :: "string \<Rightarrow> string \<Rightarrow> string" where
  "remove_text t e = (let i = indexOf e t in
     if i < 0 then e else take (nat i) e @ drop (nat i + length t) e)"

text \<open>The loop ends when nothing but white space is left, or when a round changes nothing.\<close>

function compile_loop :: "string \<Rightarrow> criterion list" where
  "compile_loop e =
     (if list_all is_space e then []
      else case first_match patterns e of
        None \<Rightarrow> []
      | Some (k, t) \<Rightarrow> (let e' = remove_text t e in
          if length e' < length e then k # compile_loop e' else [k]))"
  by pat_completeness auto
termination
  by (relation "measure length") auto

declare compile_loop.simps [simp del]

definition compileMatcher :: "string \<Rightarrow> criterion list option" where
  "compileMatcher expression =
     (let ks = compile_loop (String_strip expression) in if list_all writable ks then Some ks else None)"

section \<open>Marks\<close>

record marks =
  counted :: "nat set"
  nodeIndex :: "nat \<Rightarrow> nat option"

definition no_marks :: marks where
  "no_marks = \<lparr>counted = {}, nodeIndex = \<lambda>_. None\<rparr>"

definition h_mark :: "nat list \<Rightarrow> marks \<Rightarrow> marks" where
  "h_mark nodes m = m\<lparr>counted := counted m \<union> set nodes\<rparr>"

definition h_unmark :: "nat list \<Rightarrow> marks \<Rightarrow> marks" where
  "h_unmark nodes m = m\<lparr>counted := counted m - set nodes\<rparr>"

definition h_index :: "document \<Rightarrow> bool \<Rightarrow> bool \<Rightarrow> nat \<Rightarrow> marks \<Rightarrow> marks" where
  "h_index d reverse ofType parent m =
     (let nodes = (if reverse then rev (childNodes d parent) else childNodes d parent) in
      snd (foldl (\<lambda>(j, m) node.
             if is_element d node \<and> (\<not> ofType \<or> node \<in> counted m)
             then (Suc j, m\<lparr>nodeIndex := (nodeIndex m)(node \<mapsto> j)\<rparr>) else (j, m))
           (1, m\<lparr>counted := insert parent (counted m)\<rparr>) nodes))"

fun unique_loop :: "nat list \<Rightarrow> nat list \<Rightarrow> marks \<Rightarrow> nat list \<times> marks" where
  "unique_loop [] results m = (results, m)"
| "unique_loop (n # nodes) results m =
     (if n \<notin> counted m then unique_loop nodes (results @ [n]) (m\<lparr>counted := insert n (counted m)\<rparr>)
      else unique_loop nodes results m)"

definition h_unique :: "nat list \<Rightarrow> (marks, nat list) prog" where
  "h_unique nodes m =
     (if nodes = [] then Some (Inr nodes, m)
      else (case unique_loop nodes [] m of (results, m') \<Rightarrow> Some (Inr results, h_unmark results m')))"

section \<open>Combinators\<close>

function nextElementSibling :: "document \<Rightarrow> nat \<Rightarrow> nat option" where
  "nextElementSibling d node = (case nextSibling d node of
     None \<Rightarrow> None | Some m \<Rightarrow> if is_element d m then Some m else nextElementSibling d m)"
  by pat_completeness auto
termination
  by (relation "measure (\<lambda>(d, n). length d - n)") (auto dest: next_siblings.rank_less)

function previousElementSibling :: "document \<Rightarrow> nat \<Rightarrow> nat option" where
  "previousElementSibling d node = (case previousSibling d node of
     None \<Rightarrow> None | Some m \<Rightarrow> if is_element d m then Some m else previousElementSibling d m)"
  by pat_completeness auto
termination
  by (relation "measure (\<lambda>(d, n). n)") (auto dest: previous_siblings.rank_less)

declare nextElementSibling.simps [simp del] previousElementSibling.simps [simp del]

definition h_descendant :: "document \<Rightarrow> nat list \<Rightarrow> nat list" where
  "h_descendant d nodes = concat (map (\<lambda>node. getElementsByTagName d node ''*'') nodes)"

definition h_child :: "document \<Rightarrow> nat list \<Rightarrow> nat list" where
  "h_child d nodes = concat (map (\<lambda>node.
     filter (\<lambda>child. is_element d child \<and> nd_tag (d ! child) \<noteq> ''!'') (childNodes d node)) nodes)"

definition h_adjacent :: "document \<Rightarrow> nat list \<Rightarrow> nat list" where
  "h_adjacent d nodes = concat (map (\<lambda>node. case nextElementSibling d node of None \<Rightarrow> [] | Some n \<Rightarrow> [n]) nodes)"

text \<open>\<^verbatim>\<open>nextSiblings\<close> always returns.\<close>

definition h_laterSibling :: "document \<Rightarrow> nat list \<Rightarrow> nat list" where
  "h_laterSibling d nodes = concat (map (\<lambda>node. case Element_nextSiblings d node of Some ns \<Rightarrow> ns | None \<Rightarrow> []) nodes)"

definition combine :: "document \<Rightarrow> combinator \<Rightarrow> nat list \<Rightarrow> nat list" where
  "combine d c nodes = (case c of Descendant \<Rightarrow> h_descendant d nodes | Child \<Rightarrow> h_child d nodes
     | Adjacent \<Rightarrow> h_adjacent d nodes | LaterSibling \<Rightarrow> h_laterSibling d nodes)"

section \<open>Tokens\<close>

text \<open>\<open>None\<close> for the nodes is \<^verbatim>\<open>undefined\<close>, before the first token, and for the combinator \<^verbatim>\<open>false\<close>.\<close>

definition has_tag :: "document \<Rightarrow> string \<Rightarrow> nat \<Rightarrow> bool" where
  "has_tag d name node \<longleftrightarrow> toUpperCase (nd_tag (d ! node)) = name"

definition h_tagName :: "document \<Rightarrow> nat list option \<Rightarrow> nat \<Rightarrow> string \<Rightarrow> combinator option \<Rightarrow> nat list" where
  "h_tagName d nodes scope tagName0 combinator =
     (let name = toUpperCase tagName0 in
      case nodes of
        None \<Rightarrow> getElementsByTagName d scope name
      | Some ns \<Rightarrow> (case combinator of
            Some Descendant \<Rightarrow> concat (map (\<lambda>node. getElementsByTagName d node name) ns)
          | Some c \<Rightarrow> (let ns' = combine d c ns in if name = ''*'' then ns' else filter (has_tag d name) ns')
          | None \<Rightarrow> filter (has_tag d name) ns))"

text \<open>The loops of \<^verbatim>\<open>id\<close> read a property of the element that has the id; without one they throw.\<close>

definition id_test :: "document \<Rightarrow> combinator \<Rightarrow> nat \<Rightarrow> nat \<Rightarrow> bool" where
  "id_test d c target node = (case c of
     Child \<Rightarrow> parentNode d target = Some node
   | Descendant \<Rightarrow> descendantOf d target node
   | Adjacent \<Rightarrow> previousElementSibling d target = Some node
   | LaterSibling \<Rightarrow> False)"

definition id_among :: "nat option \<Rightarrow> nat list \<Rightarrow> nat list" where
  "id_among target nodes = (case target of Some t \<Rightarrow> if t \<in> set nodes then [t] else [] | None \<Rightarrow> [])"

definition h_id :: "document \<Rightarrow> nat list option \<Rightarrow> nat \<Rightarrow> string \<Rightarrow> combinator option \<Rightarrow> exn + nat list" where
  "h_id d nodes scope ident combinator =
     (let target = getElementById d ident in
      case nodes of
        None \<Rightarrow> (case target of
            None \<Rightarrow> Inr []
          | Some t \<Rightarrow> if scope = 0 \<or> descendantOf d t scope then Inr [t] else Inr [])
      | Some ns \<Rightarrow> (case combinator of
            None \<Rightarrow> Inr (id_among target ns)
          | Some LaterSibling \<Rightarrow> Inr (id_among target (h_laterSibling d ns))
          | Some c \<Rightarrow> (case target of
                None \<Rightarrow> if ns = [] then Inr [] else Inl TypeError
              | Some t \<Rightarrow> if list_ex (id_test d c t) ns then Inr [t] else Inr (id_among target ns))))"

definition h_byClassName :: "document \<Rightarrow> nat list option \<Rightarrow> nat \<Rightarrow> string \<Rightarrow> nat list" where
  "h_byClassName d nodes scope className =
     (let ns = (case nodes of None \<Rightarrow> h_descendant d [scope] | Some ns \<Rightarrow> ns);
          needle = '' '' @ className @ '' ''
      in filter (\<lambda>node. let nodeClassName = nd_class (d ! node) in
           nodeClassName \<noteq> [] \<and> (nodeClassName = className \<or> String_include ('' '' @ nodeClassName @ '' '') needle)) ns)"

definition h_className :: "document \<Rightarrow> nat list option \<Rightarrow> nat \<Rightarrow> string \<Rightarrow> combinator option \<Rightarrow> nat list" where
  "h_className d nodes scope className combinator =
     h_byClassName d (case (nodes, combinator) of (Some ns, Some c) \<Rightarrow> Some (combine d c ns) | _ \<Rightarrow> nodes) scope className"

definition h_attrPresence :: "document \<Rightarrow> nat list option \<Rightarrow> string \<Rightarrow> exn + nat list" where
  "h_attrPresence d nodes attr = (case nodes of
     None \<Rightarrow> Inl TypeError
   | Some ns \<Rightarrow> Inr (filter (\<lambda>node. map_of (nd_attrs (d ! node)) attr \<noteq> None) ns))"

definition operators :: "string \<Rightarrow> (string \<Rightarrow> string \<Rightarrow> bool) option" where
  "operators p = map_of
     [(''='', \<lambda>nv v. nv = v),
      (''!='', \<lambda>nv v. nv \<noteq> v),
      (''^='', \<lambda>nv v. String_startsWith nv v),
      (''$='', \<lambda>nv v. String_endsWith nv v),
      (''*='', \<lambda>nv v. String_include nv v),
      (''~='', \<lambda>nv v. String_include ('' '' @ nv @ '' '') ('' '' @ v @ '' '')),
      (''|='', \<lambda>nv v. String_include (''-'' @ toUpperCase nv @ ''-'') (''-'' @ toUpperCase v @ ''-''))] p"

text \<open>Without an operator, the first node that has the attribute makes \<^verbatim>\<open>attr\<close> throw.\<close>

definition h_attr :: "document \<Rightarrow> nat list option \<Rightarrow> nat \<Rightarrow> string \<Rightarrow> string \<Rightarrow> string \<Rightarrow> exn + nat list" where
  "h_attr d nodes scope attr value operator =
     (let ns = (case nodes of None \<Rightarrow> getElementsByTagName d scope ''*'' | Some ns \<Rightarrow> ns) in
      case operators operator of
        None \<Rightarrow> if list_ex (\<lambda>node. map_of (nd_attrs (d ! node)) attr \<noteq> None) ns then Inl TypeError else Inr []
      | Some handler \<Rightarrow> Inr (filter (\<lambda>node. case map_of (nd_attrs (d ! node)) attr of
            None \<Rightarrow> False | Some nodeValue \<Rightarrow> handler nodeValue value) ns))"

section \<open>Pseudo classes\<close>

definition getIndices :: "int \<Rightarrow> int \<Rightarrow> nat \<Rightarrow> int list" where
  "getIndices a b size0 =
     (if a = 0 then (if b > 0 then [b] else [])
      else filter (\<lambda>i. (i - b) mod a = 0 \<and> 0 \<le> (i - b) div a) [1..int size0])"

definition number_re :: regex where
  "number_re = Seq Bol (Seq (Plus (Ch is_digit)) Eol)"

definition nth_re :: regex where
  "nth_re = Seq Bol (Seq (Opt (Group 1 (Seq (Opt (Lit ''-'')) (Star True (Ch is_digit)))))
     (Seq (Lit ''n'') (Opt (Group 2 (Seq (Group 3 (Alt (Lit ''+'') (Lit ''-''))) (Group 4 (Plus (Ch is_digit))))))))"

text \<open>\<^verbatim>\<open>Number\<close> of digits with a sign\<close>

definition signed_val :: "string \<Rightarrow> int" where
  "signed_val s = (case s of [] \<Rightarrow> 0
     | c # t \<Rightarrow> if c = CHR ''-'' then - digits_val 0 t else if c = CHR ''+'' then digits_val 0 t else digits_val 0 s)"

definition nth_select :: "string \<Rightarrow> nat list \<Rightarrow> marks \<Rightarrow> nat list" where
  "nth_select formula nodes m =
     (if regex_test number_re formula then
        filter (\<lambda>node. map_option int (nodeIndex m node) = Some (digits_val 0 formula)) nodes
      else case regex_match nth_re formula of
        None \<Rightarrow> []
      | Some mm \<Rightarrow>
          (let m1 = String_interpret (group mm 1); m2 = String_interpret (group mm 2);
               a = (if m1 = ''-'' then - 1 else if m1 \<noteq> [] then signed_val m1 else 1);
               b = (if m2 \<noteq> [] then signed_val m2 else 0);
               indices = getIndices a b (length nodes)
           in concat (map (\<lambda>node. map (\<lambda>_. node)
                (filter (\<lambda>i. map_option int (nodeIndex m node) = Some i) indices)) nodes)))"

fun index_parents :: "document \<Rightarrow> bool \<Rightarrow> bool \<Rightarrow> nat list \<Rightarrow> nat list \<Rightarrow> (marks, nat list) prog" where
  "index_parents d reverse ofType [] indexed m = Some (Inr indexed, m)"
| "index_parents d reverse ofType (node # nodes) indexed m = (case parentNode d node of
     None \<Rightarrow> Some (Inl TypeError, m)
   | Some p \<Rightarrow>
       if p \<notin> counted m then index_parents d reverse ofType nodes (indexed @ [p]) (h_index d reverse ofType p m)
       else index_parents d reverse ofType nodes indexed m)"

definition pseudo_nth :: "document \<Rightarrow> nat list \<Rightarrow> string \<Rightarrow> bool \<Rightarrow> bool \<Rightarrow> (marks, nat list) prog" where
  "pseudo_nth d nodes formula0 reverse ofType m =
     (if nodes = [] then Some (Inr [], m)
      else let formula = (if formula0 = ''even'' then ''2n+0'' else if formula0 = ''odd'' then ''2n+1'' else formula0) in
        (case index_parents d reverse ofType nodes [] (h_mark nodes m) of
           None \<Rightarrow> None
         | Some (Inl e, m1) \<Rightarrow> Some (Inl e, m1)
         | Some (Inr indexed, m1) \<Rightarrow>
             Some (Inr (nth_select formula nodes m1), h_unmark indexed (h_unmark nodes m1))))"

definition pseudo_empty :: "document \<Rightarrow> nat list \<Rightarrow> nat list" where
  "pseudo_empty d nodes = filter (\<lambda>node. \<not> (nd_tag (d ! node) = ''!'' \<or>
     firstChild d node \<noteq> None \<and> \<not> list_all is_space (nd_innerHTML (d ! node)))) nodes"

text \<open>\<open>neg\<close> finds the elements of the selector in \<^verbatim>\<open>:not(...)\<close>.\<close>

definition pseudo_not :: "(string \<Rightarrow> (marks, nat list) prog) \<Rightarrow> nat list \<Rightarrow> string \<Rightarrow> (marks, nat list) prog" where
  "pseudo_not neg nodes sel = p_bind (neg sel) (\<lambda>exclusions m.
     (let m1 = h_mark exclusions m in
      Some (Inr (filter (\<lambda>node. node \<notin> counted m1) nodes), h_unmark exclusions m1)))"

definition pseudos :: "(string \<Rightarrow> (marks, nat list) prog) \<Rightarrow> document \<Rightarrow> string \<Rightarrow> nat list \<Rightarrow> string \<Rightarrow> (marks, nat list) prog" where
  "pseudos neg d name nodes value =
     (if name = ''first-child'' then p_ret (filter (\<lambda>node. previousElementSibling d node = None) nodes)
      else if name = ''last-child'' then p_ret (filter (\<lambda>node. nextElementSibling d node = None) nodes)
      else if name = ''only-child'' then
        p_ret (filter (\<lambda>node. previousElementSibling d node = None \<and> nextElementSibling d node = None) nodes)
      else if name = ''nth-child'' then pseudo_nth d nodes value False False
      else if name = ''nth-last-child'' then pseudo_nth d nodes value True False
      else if name = ''nth-of-type'' then pseudo_nth d nodes value False True
      else if name = ''nth-last-of-type'' then pseudo_nth d nodes value True True
      else if name = ''first-of-type'' then pseudo_nth d nodes ''1'' False True
      else if name = ''last-of-type'' then pseudo_nth d nodes ''1'' True True
      else if name = ''only-of-type'' then
        p_bind (pseudo_nth d nodes ''1'' False True) (\<lambda>ns. pseudo_nth d ns ''1'' True True)
      else if name = ''empty'' then p_ret (pseudo_empty d nodes)
      else if name = ''not'' then pseudo_not neg nodes value
      else if name = ''enabled'' then p_ret (filter (\<lambda>node. \<not> nd_disabled (d ! node)) nodes)
      else if name = ''disabled'' then p_ret (filter (\<lambda>node. nd_disabled (d ! node)) nodes)
      else if name = ''checked'' then p_ret (filter (\<lambda>node. nd_checked (d ! node)) nodes)
      else p_throw TypeError)"

definition h_pseudo :: "(string \<Rightarrow> (marks, nat list) prog) \<Rightarrow> document \<Rightarrow> nat list option \<Rightarrow> string \<Rightarrow> string \<Rightarrow> nat
    \<Rightarrow> combinator option \<Rightarrow> (marks, nat list) prog" where
  "h_pseudo neg d nodes name value scope combinator =
     pseudos neg d name (case nodes of
         None \<Rightarrow> getElementsByTagName d scope ''*''
       | Some ns \<Rightarrow> (case combinator of Some c \<Rightarrow> combine d c ns | None \<Rightarrow> ns)) value"

section \<open>Matchers\<close>

definition token :: "(string \<Rightarrow> (marks, nat list) prog) \<Rightarrow> document \<Rightarrow> nat \<Rightarrow> criterion \<Rightarrow> nat list option \<Rightarrow> combinator option
    \<Rightarrow> (marks, nat list) prog" where
  "token neg d scope k n c = (case k of
     TagName t \<Rightarrow> p_ret (h_tagName d n scope t c)
   | Id i \<Rightarrow> (case h_id d n scope i c of Inl e \<Rightarrow> p_throw e | Inr ns \<Rightarrow> p_ret ns)
   | ClassName t \<Rightarrow> p_ret (h_className d n scope t c)
   | Pseudo t v \<Rightarrow> h_pseudo neg d n t (String_interpret v) scope c
   | AttrPresence a \<Rightarrow> (case h_attrPresence d n a of Inl e \<Rightarrow> p_throw e | Inr ns \<Rightarrow> p_ret ns)
   | Attr a v p \<Rightarrow> (case h_attr d n scope a v p of Inl e \<Rightarrow> p_throw e | Inr ns \<Rightarrow> p_ret ns)
   | CombineWith _ \<Rightarrow> p_ret [])"

fun run_criteria :: "(string \<Rightarrow> (marks, nat list) prog) \<Rightarrow> document \<Rightarrow> nat \<Rightarrow> criterion list \<Rightarrow> nat list option
    \<Rightarrow> combinator option \<Rightarrow> (marks, nat list) prog" where
  "run_criteria neg d scope [] n c = (case n of None \<Rightarrow> p_throw TypeError | Some ns \<Rightarrow> h_unique ns)"
| "run_criteria neg d scope (CombineWith k # ks) n c = run_criteria neg d scope ks n (Some k)"
| "run_criteria neg d scope (k # ks) n c =
     p_bind (token neg d scope k n c) (\<lambda>ns. run_criteria neg d scope ks (Some ns) None)"

text \<open>The selector in \<^verbatim>\<open>:not(...)\<close> is shorter than the one it stands in, so the length of the expression is enough fuel.\<close>

fun find_elements :: "nat \<Rightarrow> document \<Rightarrow> nat \<Rightarrow> string \<Rightarrow> (marks, nat list) prog" where
  "find_elements 0 d scope expression m = None"
| "find_elements (Suc k) d scope expression m = (case compileMatcher expression of
     None \<Rightarrow> None
   | Some ks \<Rightarrow> run_criteria (find_elements k d scope) d scope ks None None m)"

definition findElements :: "document \<Rightarrow> nat \<Rightarrow> string \<Rightarrow> (marks, nat list) prog" where
  "findElements d scope expression = find_elements (Suc (length expression)) d scope expression"

definition Selector_match :: "document \<Rightarrow> string \<Rightarrow> nat \<Rightarrow> (marks, bool) prog" where
  "Selector_match d expression element = p_bind (findElements d 0 expression) (\<lambda>ns. p_ret (element \<in> set ns))"

definition matchElements :: "document \<Rightarrow> nat list \<Rightarrow> string \<Rightarrow> (marks, nat list) prog" where
  "matchElements d elements expression = p_bind (findElements d 0 expression) (\<lambda>matches m.
     (let m1 = h_mark matches m in
      Some (Inr (filter (\<lambda>element. element \<in> counted m1) elements), h_unmark matches m1)))"

definition Selector_findElement :: "document \<Rightarrow> nat list \<Rightarrow> string \<Rightarrow> nat \<Rightarrow> (marks, nat option) prog" where
  "Selector_findElement d elements expression i =
     p_bind (matchElements d elements (if expression \<noteq> [] then expression else ''*'')) (\<lambda>ns.
       p_ret (if i < length ns then Some (ns ! i) else None))"

definition group_re :: regex where
  "group_re = Seq (Group 1 (Plus (Group 2 (Alt (Plus (Ch (\<lambda>c. is_word c \<or> is_space c \<or> c \<in> set ''#:.~>+()-'')))
       (Alt (Lit ''*'') (Seq (Lit ''['') (Seq (Star False dot) (Lit '']'')))))))) (Seq spaces (Group 3 (Alt (Lit '','') Eol)))"

text \<open>The expressions between commas; \<^verbatim>\<open>scan\<close> calls a function that appends to a list.\<close>

definition split_expressions :: "string \<Rightarrow> string list option" where
  "split_expressions exprs =
     map_option snd (String_scan group_re (\<lambda>m acc. (Inr (Str []), acc @ [String_strip (String_interpret (group m 1))])) exprs [])"

fun find_all :: "document \<Rightarrow> nat \<Rightarrow> string list \<Rightarrow> nat list \<Rightarrow> (marks, nat list) prog" where
  "find_all d scope [] results = p_ret results"
| "find_all d scope (e # es) results =
     p_bind (findElements d scope (String_strip e)) (\<lambda>ns. find_all d scope es (results @ ns))"

definition findChildElements :: "document \<Rightarrow> nat \<Rightarrow> string list \<Rightarrow> (marks, nat list) prog" where
  "findChildElements d element expressions = (case split_expressions (join '','' expressions) of
     None \<Rightarrow> (\<lambda>_. None)
   | Some es \<Rightarrow> p_bind (find_all d element es []) (\<lambda>results. if length es > 1 then h_unique results else p_ret results))"

definition getElementsBySelector :: "document \<Rightarrow> nat \<Rightarrow> string list \<Rightarrow> (marks, nat list) prog" where
  "getElementsBySelector d element expressions = findChildElements d element expressions"

text \<open>\<^verbatim>\<open>$$\<close>\<close>

definition select_all :: "document \<Rightarrow> string list \<Rightarrow> (marks, nat list) prog" where
  "select_all d expressions = findChildElements d 0 expressions"

section \<open>Relatives of an element\<close>

text \<open>
  The arguments of \<^verbatim>\<open>up\<close>, \<^verbatim>\<open>down\<close>, \<^verbatim>\<open>previous\<close> and \<^verbatim>\<open>next\<close> after the element: none at all, or an expression,
  which may be a number or undefined, and an index.
\<close>

datatype pick = Expr string | Index nat

definition nth_node :: "nat list \<Rightarrow> nat \<Rightarrow> nat option" where
  "nth_node xs i = (if i < length xs then Some (xs ! i) else None)"

definition pick_from :: "document \<Rightarrow> nat list \<Rightarrow> pick option \<Rightarrow> nat \<Rightarrow> (marks, nat option) prog" where
  "pick_from d elements expression i = (case expression of
     None \<Rightarrow> p_ret (nth_node elements i)
   | Some (Expr e) \<Rightarrow> if e \<noteq> [] then Selector_findElement d elements e i else p_ret (nth_node elements i)
   | Some (Index n) \<Rightarrow> if n \<noteq> 0 then Selector_findElement d elements [] n else p_ret (nth_node elements i))"

definition pick_option :: "document \<Rightarrow> nat list option \<Rightarrow> pick option \<times> nat \<Rightarrow> (marks, nat option) prog" where
  "pick_option d elements args = (case elements of None \<Rightarrow> (\<lambda>_. None) | Some es \<Rightarrow> pick_from d es (fst args) (snd args))"

definition Element_match :: "document \<Rightarrow> nat \<Rightarrow> string \<Rightarrow> (marks, bool) prog" where
  "Element_match d element selector = Selector_match d selector element"

definition Element_up :: "document \<Rightarrow> nat \<Rightarrow> (pick option \<times> nat) option \<Rightarrow> (marks, nat option) prog" where
  "Element_up d element args = (case args of
     None \<Rightarrow> p_ret (parentNode d element) | Some a \<Rightarrow> pick_option d (Element_ancestors d element) a)"

definition Element_down :: "document \<Rightarrow> nat \<Rightarrow> (pick option \<times> nat) option \<Rightarrow> (marks, nat option) prog" where
  "Element_down d element args = (case args of
     None \<Rightarrow> (case Element_firstDescendant d element of None \<Rightarrow> (\<lambda>_. None) | Some r \<Rightarrow> p_ret r)
   | Some a \<Rightarrow> pick_option d (Some (Element_descendants d element)) a)"

definition Element_previous :: "document \<Rightarrow> nat \<Rightarrow> (pick option \<times> nat) option \<Rightarrow> (marks, nat option) prog" where
  "Element_previous d element args = (case args of
     None \<Rightarrow> p_ret (previousElementSibling d element) | Some a \<Rightarrow> pick_option d (Element_previousSiblings d element) a)"

definition Element_next :: "document \<Rightarrow> nat \<Rightarrow> (pick option \<times> nat) option \<Rightarrow> (marks, nat option) prog" where
  "Element_next d element args = (case args of
     None \<Rightarrow> p_ret (nextElementSibling d element) | Some a \<Rightarrow> pick_option d (Element_nextSiblings d element) a)"

section \<open>What a selector means\<close>

text \<open>A selector: simple selectors for an element, and steps to it from an element that another selector matches.\<close>

datatype css = First "criterion list" | Step css combinator "criterion list"

definition pure_pseudos :: "string list" where
  "pure_pseudos = [''first-child'', ''last-child'', ''only-child'', ''empty'', ''enabled'', ''disabled'', ''checked'']"

fun holds :: "document \<Rightarrow> criterion \<Rightarrow> nat \<Rightarrow> bool" where
  "holds d (TagName t) n = (t = ''*'' \<or> toUpperCase (nd_tag (d ! n)) = toUpperCase t)"
| "holds d (ClassName c) n = (c \<in> set (split_chr (CHR '' '') (nd_class (d ! n))))"
| "holds d (AttrPresence a) n = (map_of (nd_attrs (d ! n)) a \<noteq> None)"
| "holds d (Attr a v p) n = (case (map_of (nd_attrs (d ! n)) a, operators p) of
     (Some x, Some f) \<Rightarrow> f x v | _ \<Rightarrow> False)"
| "holds d (Pseudo t v) n =
     (if t = ''first-child'' then filter (is_element d) (preceding d n) = []
      else if t = ''last-child'' then filter (is_element d) (following d n) = []
      else if t = ''only-child'' then filter (is_element d) (preceding d n) = [] \<and> filter (is_element d) (following d n) = []
      else if t = ''empty'' then nd_tag (d ! n) \<noteq> ''!'' \<and> (childNodes d n = [] \<or> list_all is_space (nd_innerHTML (d ! n)))
      else if t = ''enabled'' then \<not> nd_disabled (d ! n)
      else if t = ''disabled'' then nd_disabled (d ! n)
      else t = ''checked'' \<and> nd_checked (d ! n))"
| "holds d _ n = False"

definition siblings_in :: "document \<Rightarrow> nat \<Rightarrow> nat \<Rightarrow> bool" where
  "siblings_in d n m \<longleftrightarrow> parentNode d n \<noteq> None \<and> parentNode d m = parentNode d n \<and> m < length d"

fun related :: "document \<Rightarrow> combinator \<Rightarrow> nat \<Rightarrow> nat \<Rightarrow> bool" where
  "related d Descendant n m = (is_element d m \<and> descendantOf d m n)"
| "related d Child n m = (is_element d m \<and> nd_tag (d ! m) \<noteq> ''!'' \<and> parentNode d m = Some n)"
| "related d LaterSibling n m = (is_element d m \<and> siblings_in d n m \<and> n < m)"
| "related d Adjacent n m = (is_element d m \<and> siblings_in d n m \<and> n < m \<and>
     (\<forall>k. n < k \<and> k < m \<and> siblings_in d n k \<longrightarrow> \<not> is_element d k))"

fun css_matches :: "document \<Rightarrow> nat \<Rightarrow> css \<Rightarrow> nat \<Rightarrow> bool" where
  "css_matches d scope (First ks) n \<longleftrightarrow> is_element d n \<and> descendantOf d n scope \<and> list_all (\<lambda>k. holds d k n) ks"
| "css_matches d scope (Step s c ks) n \<longleftrightarrow>
     (\<exists>m. css_matches d scope s m \<and> related d c m n) \<and> list_all (\<lambda>k. holds d k n) ks"

fun criteria_of :: "css \<Rightarrow> criterion list" where
  "criteria_of (First ks) = ks"
| "criteria_of (Step s c ks) = criteria_of s @ CombineWith c # ks"

text \<open>
  The selectors that the handlers treat well: the first simple selector after a combinator takes the combinator into account,
  the others are tests of one node.
\<close>

definition class_name :: "string \<Rightarrow> bool" where
  "class_name c \<longleftrightarrow> c \<noteq> [] \<and> CHR '' '' \<notin> set c"

fun leading :: "criterion \<Rightarrow> bool" where
  "leading (TagName t) = True"
| "leading (ClassName c) = class_name c"
| "leading (Pseudo t v) = (t \<in> set pure_pseudos)"
| "leading _ = False"

fun trailing :: "criterion \<Rightarrow> bool" where
  "trailing (TagName t) = (toUpperCase t \<noteq> ''*'' \<and> t \<noteq> ''*'')"
| "trailing (ClassName c) = class_name c"
| "trailing (Pseudo t v) = (t \<in> set pure_pseudos)"
| "trailing (AttrPresence a) = True"
| "trailing (Attr a v p) = (operators p \<noteq> None)"
| "trailing _ = False"

definition compound :: "criterion list \<Rightarrow> bool" where
  "compound ks \<longleftrightarrow> (case ks of [] \<Rightarrow> False | k # ks' \<Rightarrow> leading k \<and> list_all trailing ks')"

fun css_ok :: "css \<Rightarrow> bool" where
  "css_ok (First ks) = compound ks"
| "css_ok (Step s c ks) = (css_ok s \<and> compound ks)"

section \<open>The handlers\<close>

lemma nextElementSibling_find: "nextElementSibling d n = find (is_element d) (following d n)"
proof (induction d n rule: nextElementSibling.induct)
  case (1 d n)
  show ?case
  proof (cases "nextSibling d n")
    case (Some m)
    then show ?thesis using 1 [OF Some] following_step [of d n] by (subst nextElementSibling.simps) simp
  qed (use following_step [of d n] in \<open>simp add: nextElementSibling.simps\<close>)
qed

lemma previousElementSibling_find: "previousElementSibling d n = find (is_element d) (rev (preceding d n))"
proof (induction d n rule: previousElementSibling.induct)
  case (1 d n)
  show ?case
  proof (cases "previousSibling d n")
    case (Some m)
    then show ?thesis using 1 [OF Some] preceding_step [of d n] by (subst previousElementSibling.simps) simp
  qed (use preceding_step [of d n] in \<open>simp add: previousElementSibling.simps\<close>)
qed

lemma find_None_filter: "find p xs = None \<longleftrightarrow> filter p xs = []"
  by (induction xs) auto

lemma set_following: "set (following d n) = {m. siblings_in d n m \<and> n < m}"
  by (cases "parentNode d n") (auto simp: following_def siblings_in_def)

lemma find_filter: "find p (filter q xs) = find (\<lambda>x. q x \<and> p x) xs"
  by (induction xs) auto

lemma filter_upt_find:
  "find p (filter q [a..<b]) = Some m \<longleftrightarrow> q m \<and> p m \<and> a \<le> m \<and> m < b \<and> (\<forall>k. a \<le> k \<and> k < m \<and> q k \<longrightarrow> \<not> p k)"
proof
  assume "find p (filter q [a..<b]) = Some m"
  then obtain i where i: "i < b - a" "q m \<and> p m" "m = a + i" "\<And>j. j < i \<Longrightarrow> \<not> (q (a + j) \<and> p (a + j))"
    by (auto simp: find_filter find_Some_iff)
  have "\<not> p k" if "a \<le> k" "k < m" "q k" for k
    using i(4) [of "k - a"] that i(3) by simp
  then show "q m \<and> p m \<and> a \<le> m \<and> m < b \<and> (\<forall>k. a \<le> k \<and> k < m \<and> q k \<longrightarrow> \<not> p k)"
    using i(1-3) by simp
next
  assume "q m \<and> p m \<and> a \<le> m \<and> m < b \<and> (\<forall>k. a \<le> k \<and> k < m \<and> q k \<longrightarrow> \<not> p k)"
  then show "find p (filter q [a..<b]) = Some m"
    unfolding find_filter find_Some_iff by (intro exI [of _ "m - a"]) auto
qed

lemma related_adjacent: "nextElementSibling d n = Some m \<longleftrightarrow> related d Adjacent n m"
proof (cases "parentNode d n")
  case None
  then show ?thesis by (simp add: nextElementSibling_find following_def siblings_in_def)
next
  case (Some p)
  then show ?thesis unfolding nextElementSibling_find
    by (auto simp: following_def siblings_in_def filter_upt_find Suc_le_eq dest: parentNode_less)
qed

lemma set_laterSibling: "set (h_laterSibling d ns) = {m. \<exists>n \<in> set ns. related d LaterSibling n m}"
  by (auto simp: h_laterSibling_def nextSiblings_spec set_following)

lemma set_child: "set (h_child d ns) = {m. \<exists>n \<in> set ns. related d Child n m}"
  by (auto simp: h_child_def childNodes_def is_element_def)

lemma set_descendant: "set (h_descendant d ns) = {m. \<exists>n \<in> set ns. related d Descendant n m}"
  by (auto simp: h_descendant_def getElementsByTagName_def is_element_def)

lemma set_adjacent: "set (h_adjacent d ns) = {m. \<exists>n \<in> set ns. related d Adjacent n m}"
proof -
  have "set (case nextElementSibling d n of None \<Rightarrow> [] | Some m \<Rightarrow> [m]) = {m. nextElementSibling d n = Some m}" for n
    by (cases "nextElementSibling d n") auto
  then show ?thesis unfolding h_adjacent_def related_adjacent [symmetric] by auto
qed

lemma set_combine: "set (combine d c ns) = {m. \<exists>n \<in> set ns. related d c n m}"
  by (cases c) (simp_all only: combine_def combinator.case set_laterSibling set_child set_descendant set_adjacent)

text \<open>A class among the classes of an element, as \<^verbatim>\<open>byClassName\<close> tests it.\<close>

lemma first_sep_eq: "z \<notin> set x \<Longrightarrow> z \<notin> set y \<Longrightarrow> x @ z # u = y @ z # v \<longleftrightarrow> x = y \<and> u = v"
proof (induction x arbitrary: y)
  case Nil
  then show ?case by (cases y) auto
next
  case (Cons a x)
  then show ?case by (cases y) auto
qed

definition between :: "'a \<Rightarrow> 'a list \<Rightarrow> 'a list \<Rightarrow> bool" where
  "between z c s \<longleftrightarrow> (\<exists>a b. z # s @ [z] = a @ z # c @ z # b)"

lemma between_plain:
  assumes "z \<notin> set s" "z \<notin> set c"
  shows "between z c s \<longleftrightarrow> c = s"
proof
  assume "between z c s"
  then obtain a b where ab: "z # s @ [z] = a @ z # c @ z # b" by (auto simp: between_def)
  show "c = s"
  proof (cases a)
    case Nil
    then show ?thesis using ab first_sep_eq [OF assms, of "[]" b] by simp
  next
    case (Cons y a')
    then have e: "s @ [z] = a' @ z # c @ z # b" using ab by (metis append_Cons list.inject)
    then have "count_list (s @ [z]) z = count_list (a' @ z # c @ z # b) z" by simp
    then show ?thesis using assms(1) by (simp add: count_list_append count_notin)
  qed
next
  assume "c = s"
  then show "between z c s" unfolding between_def by (intro exI [of _ "[]"]) simp
qed

lemma between_cons:
  assumes "z \<notin> set x" "z \<notin> set c"
  shows "between z c (x @ z # r) \<longleftrightarrow> c = x \<or> between z c r"
proof
  assume "between z c (x @ z # r)"
  then obtain a b where ab: "z # (x @ z # r) @ [z] = a @ z # c @ z # b" by (auto simp: between_def)
  show "c = x \<or> between z c r"
  proof (cases a)
    case Nil
    then show ?thesis using ab first_sep_eq [OF assms, of "r @ [z]" b] by simp
  next
    case (Cons y a')
    then have e: "x @ z # r @ [z] = a' @ z # c @ z # b"
      using ab by (metis append_Cons append_assoc list.inject)
    show ?thesis
    proof (cases "z \<in> set a'")
      case False
      then have "r @ [z] = c @ z # b" using e first_sep_eq [OF assms(1) False] by simp
      then show ?thesis unfolding between_def by (intro disjI2 exI [of _ "[]"] exI [of _ b]) simp
    next
      case True
      then obtain u v where uv: "a' = u @ z # v" "z \<notin> set u" by (metis split_list_first)
      then have "r @ [z] = v @ z # c @ z # b" using e first_sep_eq [OF assms(1) uv(2)] by simp
      then show ?thesis unfolding between_def by (intro disjI2 exI [of _ "z # v"] exI [of _ b]) simp
    qed
  qed
next
  assume "c = x \<or> between z c r"
  then show "between z c (x @ z # r)"
  proof
    assume "c = x"
    then show ?thesis unfolding between_def by (intro exI [of _ "[]"] exI [of _ "r @ [z]"]) simp
  next
    assume "between z c r"
    then obtain a b where "z # r @ [z] = a @ z # c @ z # b" by (auto simp: between_def)
    then show ?thesis unfolding between_def by (intro exI [of _ "z # x @ a"] exI [of _ b]) simp
  qed
qed

lemma split_chr_between: "z \<notin> set c \<Longrightarrow> c \<in> set (split_chr z s) \<longleftrightarrow> between z c s"
proof (induction s rule: length_induct)
  case (1 s)
  show ?case
  proof (cases "z \<in> set s")
    case False
    then show ?thesis using between_plain [OF False 1(2)] by (auto simp: split_chr_none)
  next
    case True
    then obtain x r where s: "s = x @ z # r" "z \<notin> set x" by (metis split_list_first)
    then have "c \<in> set (split_chr z r) \<longleftrightarrow> between z c r" using 1 by simp
    then show ?thesis using s between_cons [OF s(2) 1(2)] by (auto simp: split_chr_append)
  qed
qed

lemma byClassName_test:
  assumes "class_name c"
  shows "s \<noteq> [] \<and> (s = c \<or> String_include ('' '' @ s @ '' '') ('' '' @ c @ '' '')) \<longleftrightarrow> c \<in> set (split_chr (CHR '' '') s)"
proof -
  have c: "CHR '' '' \<notin> set c" "c \<noteq> []" using assms by (auto simp: class_name_def)
  have "String_include ('' '' @ s @ '' '') ('' '' @ c @ '' '') \<longleftrightarrow> between (CHR '' '') c s"
    using text_tests [of "'' '' @ s @ '' ''" "'' '' @ c @ '' ''"] by (simp add: between_def)
  moreover have "between (CHR '' '') c c" using between_plain [OF c(1) c(1)] by simp
  moreover have "\<not> between (CHR '' '') c []" using between_plain [of "CHR '' ''" "[]" c] c by simp
  ultimately show ?thesis unfolding split_chr_between [OF c(1)] by blast
qed

section \<open>Running the criteria\<close>

lemma set_byClassName:
  assumes "class_name c"
  shows "h_byClassName d (Some ns) scope c = filter (holds d (ClassName c)) ns"
  unfolding h_byClassName_def Let_def by (simp, rule filter_cong) (use byClassName_test [OF assms] in simp_all)

lemma no_previous: "previousElementSibling d n = None \<longleftrightarrow> filter (is_element d) (preceding d n) = []"
  unfolding previousElementSibling_find find_None_filter by (simp add: rev_filter [symmetric])

lemma no_next: "nextElementSibling d n = None \<longleftrightarrow> filter (is_element d) (following d n) = []"
  unfolding nextElementSibling_find find_None_filter ..

lemma no_child: "firstChild d n = None \<longleftrightarrow> childNodes d n = []"
  by (simp add: firstChild_def split: list.split)

lemma holds_pseudo:
  "holds d (Pseudo ''first-child'' v) = (\<lambda>n. previousElementSibling d n = None)"
  "holds d (Pseudo ''last-child'' v) = (\<lambda>n. nextElementSibling d n = None)"
  "holds d (Pseudo ''only-child'' v) = (\<lambda>n. previousElementSibling d n = None \<and> nextElementSibling d n = None)"
  "holds d (Pseudo ''empty'' v) = (\<lambda>n. \<not> (nd_tag (d ! n) = ''!'' \<or>
     firstChild d n \<noteq> None \<and> \<not> list_all is_space (nd_innerHTML (d ! n))))"
  "holds d (Pseudo ''enabled'' v) = (\<lambda>n. \<not> nd_disabled (d ! n))"
  "holds d (Pseudo ''disabled'' v) = (\<lambda>n. nd_disabled (d ! n))"
  "holds d (Pseudo ''checked'' v) = (\<lambda>n. nd_checked (d ! n))"
  by (simp_all add: fun_eq_iff no_previous no_next no_child [symmetric])

lemma pseudo_filter:
  "pseudos neg d ''first-child'' ns (String_interpret v) = p_ret (filter (holds d (Pseudo ''first-child'' v)) ns)"
  "pseudos neg d ''last-child'' ns (String_interpret v) = p_ret (filter (holds d (Pseudo ''last-child'' v)) ns)"
  "pseudos neg d ''only-child'' ns (String_interpret v) = p_ret (filter (holds d (Pseudo ''only-child'' v)) ns)"
  "pseudos neg d ''empty'' ns (String_interpret v) = p_ret (filter (holds d (Pseudo ''empty'' v)) ns)"
  "pseudos neg d ''enabled'' ns (String_interpret v) = p_ret (filter (holds d (Pseudo ''enabled'' v)) ns)"
  "pseudos neg d ''disabled'' ns (String_interpret v) = p_ret (filter (holds d (Pseudo ''disabled'' v)) ns)"
  "pseudos neg d ''checked'' ns (String_interpret v) = p_ret (filter (holds d (Pseudo ''checked'' v)) ns)"
  unfolding holds_pseudo by (simp_all add: pseudos_def pseudo_empty_def)

lemma pure_pseudo:
  assumes "t \<in> set pure_pseudos"
  shows "pseudos neg d t ns (String_interpret v) = p_ret (filter (holds d (Pseudo t v)) ns)"
proof -
  have "t = ''first-child'' \<or> t = ''last-child'' \<or> t = ''only-child'' \<or> t = ''empty'' \<or> t = ''enabled'' \<or>
      t = ''disabled'' \<or> t = ''checked''"
    using assms unfolding pure_pseudos_def list.set insert_iff empty_iff simp_thms .
  then show ?thesis by (elim disjE) (simp_all only: pseudo_filter)
qed

lemma trailing_token:
  assumes "trailing k"
  shows "token neg d scope k (Some ns) None = p_ret (filter (holds d k) ns)"
proof (cases k)
  case (Pseudo t v)
  then show ?thesis using assms by (simp add: token_def h_pseudo_def pure_pseudo del: holds.simps)
next
  case (ClassName c)
  then show ?thesis using assms by (simp add: token_def h_className_def set_byClassName del: holds.simps)
next
  case (TagName t)
  then have "has_tag d (toUpperCase t) = holds d k" using assms by (simp add: fun_eq_iff has_tag_def)
  then show ?thesis using TagName by (simp add: token_def h_tagName_def Let_def del: holds.simps)
next
  case (Attr a v p)
  then obtain f where f: "operators p = Some f" using assms by auto
  then have "filter (\<lambda>n. case map_of (nd_attrs (d ! n)) a of None \<Rightarrow> False | Some x \<Rightarrow> f x v) ns = filter (holds d k) ns"
    using Attr by (intro filter_cong) (simp_all split: option.split)
  then show ?thesis using Attr f by (simp add: token_def h_attr_def Let_def)
next
  case (AttrPresence a)
  then have "filter (\<lambda>n. map_of (nd_attrs (d ! n)) a \<noteq> None) ns = filter (holds d k) ns" by (intro filter_cong) simp_all
  then show ?thesis using AttrPresence by (simp add: token_def h_attrPresence_def)
qed (use assms in simp_all)

lemma code_minus: "code (char_of (code c - 32)) = code c - 32"
proof -
  have "code c - 32 < 256" using code_less_256 [of c] by linarith
  then show ?thesis by simp
qed

lemma upper_char_twice: "concat (map upper_char (upper_char c)) = upper_char c"
proof (cases "is_lower c \<or> 224 \<le> code c \<and> code c \<le> 254 \<and> code c \<noteq> 247")
  case True
  then show ?thesis using code_minus [of c] by (auto simp: upper_char_def is_lower_def simp del: of_char_of)
next
  case False
  show ?thesis
  proof (cases "code c = 223")
    case True
    have "upper_char (CHR ''S'') = ''S''" by code_simp
    then show ?thesis using True False by (simp add: upper_char_def [of c])
  next
    case ne: False
    then have "upper_char c = [c]" using False by (auto simp: upper_char_def)
    then show ?thesis by simp
  qed
qed

lemma toUpperCase_twice [simp]: "toUpperCase (toUpperCase t) = toUpperCase t"
  unfolding toUpperCase_def by (induction t) (simp_all add: upper_char_twice)

lemma toUpperCase_star [simp]: "toUpperCase t = ''*'' \<longleftrightarrow> t = ''*''"
proof
  assume u: "toUpperCase t = ''*''"
  have ne: "upper_char c \<noteq> []" for c by (simp add: upper_char_def)
  obtain c t' where t: "t = c # t'" using u by (cases t) (auto simp: toUpperCase_def)
  have "upper_char c @ concat (map upper_char t') = ''*''" using u t by (simp add: toUpperCase_def)
  then have c: "upper_char c = ''*''" "concat (map upper_char t') = []" using ne [of c] by (auto simp: append_eq_Cons_conv)
  have "t' = []" using c(2) ne by (cases t') auto
  moreover have "c = CHR ''*''"
  proof (cases "is_lower c \<or> 224 \<le> code c \<and> code c \<le> 254 \<and> code c \<noteq> 247")
    case True
    then have "char_of (code c - 32) = CHR ''*''" using c(1) by (simp add: upper_char_def)
    then have "code (char_of (code c - 32)) = 42" by simp
    then show ?thesis using code_minus [of c] True by (auto simp: is_lower_def)
  next
    case False
    then show ?thesis using c(1) by (simp add: upper_char_def split: if_splits)
  qed
  ultimately show "t = ''*''" using t by simp
next
  have "toUpperCase ''*'' = ''*''" by code_simp
  then show "t = ''*'' \<Longrightarrow> toUpperCase t = ''*''" by simp
qed

lemma getElementsByTagName_upper:
  "set (getElementsByTagName d n (toUpperCase t)) = {m. is_element d m \<and> descendantOf d m n \<and> holds d (TagName t) m}"
  by (auto simp: getElementsByTagName_def is_element_def)

lemma leading_first:
  assumes "leading k"
  shows "\<exists>ms. token neg d scope k None None = p_ret ms \<and>
    set ms = {m. is_element d m \<and> descendantOf d m scope \<and> holds d k m}"
proof (cases k)
  case (TagName t)
  then show ?thesis using getElementsByTagName_upper [of d scope t]
    by (intro exI [of _ "getElementsByTagName d scope (toUpperCase t)"]) (simp add: token_def h_tagName_def Let_def)
next
  case (ClassName c)
  then have "token neg d scope k None None = p_ret (filter (holds d k) (h_descendant d [scope]))"
    using set_byClassName [of c d "h_descendant d [scope]" scope] assms
    by (simp add: token_def h_className_def h_byClassName_def del: holds.simps)
  then show ?thesis
    by (intro exI [of _ "filter (holds d k) (h_descendant d [scope])"]) (auto simp: set_descendant simp del: holds.simps)
next
  case (Pseudo t v)
  then have "token neg d scope k None None = p_ret (filter (holds d k) (getElementsByTagName d scope ''*''))"
    using pure_pseudo assms by (simp add: token_def h_pseudo_def del: holds.simps)
  moreover have "set (getElementsByTagName d scope ''*'') = {m. is_element d m \<and> descendantOf d m scope}"
    by (auto simp: getElementsByTagName_def is_element_def)
  ultimately show ?thesis
    by (intro exI [of _ "filter (holds d k) (getElementsByTagName d scope ''*'')"]) (auto simp del: holds.simps)
qed (use assms in simp_all)

lemma leading_combine:
  assumes "leading k"
  shows "\<exists>ms. token neg d scope k (Some ns) (Some c) = p_ret ms \<and> set ms = {m. (\<exists>n \<in> set ns. related d c n m) \<and> holds d k m}"
proof (cases k)
  case (TagName t)
  have tag: "has_tag d (toUpperCase t) m \<longleftrightarrow> holds d k m" if "t \<noteq> ''*''" for m using that TagName by (simp add: has_tag_def)
  show ?thesis
  proof (cases "c = Descendant")
    case True
    let ?ms = "concat (map (\<lambda>node. getElementsByTagName d node (toUpperCase t)) ns)"
    have "token neg d scope k (Some ns) (Some c) = p_ret ?ms"
      using TagName True by (simp add: token_def h_tagName_def Let_def)
    moreover have "set ?ms = {m. (\<exists>n \<in> set ns. related d c n m) \<and> holds d k m}"
      using getElementsByTagName_upper [of d _ t] TagName True by auto
    ultimately show ?thesis by blast
  next
    case False
    let ?ms = "if t = ''*'' then combine d c ns else filter (has_tag d (toUpperCase t)) (combine d c ns)"
    have "token neg d scope k (Some ns) (Some c) = p_ret ?ms"
      using TagName False by (cases c) (simp_all add: token_def h_tagName_def Let_def)
    moreover have "set ?ms = {m. (\<exists>n \<in> set ns. related d c n m) \<and> holds d k m}"
      using TagName tag by (auto simp: set_combine simp del: related.simps)
    ultimately show ?thesis by blast
  qed
next
  case (ClassName cn)
  then have "token neg d scope k (Some ns) (Some c) = p_ret (filter (holds d k) (combine d c ns))"
    using set_byClassName [of cn d "combine d c ns" scope] assms by (simp add: token_def h_className_def del: holds.simps)
  then show ?thesis
    by (intro exI [of _ "filter (holds d k) (combine d c ns)"]) (auto simp: set_combine simp del: holds.simps related.simps)
next
  case (Pseudo t v)
  then have "token neg d scope k (Some ns) (Some c) = p_ret (filter (holds d k) (combine d c ns))"
    using pure_pseudo assms by (simp add: token_def h_pseudo_def del: holds.simps)
  then show ?thesis
    by (intro exI [of _ "filter (holds d k) (combine d c ns)"]) (auto simp: set_combine simp del: holds.simps related.simps)
qed (use assms in simp_all)

lemma p_bind_ret: "p_bind (p_ret a) f = f a"
  by (simp add: fun_eq_iff p_bind_def p_ret_def)

lemma run_token:
  "leading k \<or> trailing k \<Longrightarrow> run_criteria neg d scope (k # ks) n c =
     p_bind (token neg d scope k n c) (\<lambda>ns. run_criteria neg d scope ks (Some ns) None)"
  by (cases k) simp_all

lemma run_trailing:
  "list_all trailing ks \<Longrightarrow> run_criteria neg d scope (ks @ rest) (Some ns) None =
     run_criteria neg d scope rest (Some (filter (\<lambda>n. list_all (\<lambda>k. holds d k n) ks) ns)) None"
proof (induction ks arbitrary: ns)
  case (Cons k ks)
  then have "run_criteria neg d scope (k # ks @ rest) (Some ns) None =
      run_criteria neg d scope (ks @ rest) (Some (filter (holds d k) ns)) None"
    using run_token [of k neg d scope "ks @ rest" "Some ns" None] trailing_token [of k] by (simp add: p_bind_ret)
  then show ?case using Cons by (simp add: conj_commute)
qed simp

lemma run_css:
  assumes "css_ok s"
  shows "\<exists>ns. set ns = {n. css_matches d scope s n} \<and>
    (\<forall>rest. run_criteria neg d scope (criteria_of s @ rest) None None = run_criteria neg d scope rest (Some ns) None)"
  using assms
proof (induction s)
  case (First ks)
  then obtain k ks' where ks: "ks = k # ks'" "leading k" "list_all trailing ks'" by (auto simp: compound_def split: list.splits)
  obtain ms where ms: "token neg d scope k None None = p_ret ms"
    "set ms = {m. is_element d m \<and> descendantOf d m scope \<and> holds d k m}"
    using leading_first [OF ks(2)] by blast
  let ?ns = "filter (\<lambda>n. list_all (\<lambda>k. holds d k n) ks') ms"
  have "run_criteria neg d scope (ks @ rest) None None = run_criteria neg d scope rest (Some ?ns) None" for rest
    using run_token [of k neg d scope "ks' @ rest" None None] run_trailing [OF ks(3), of neg d scope rest ms] ks(1,2) ms(1)
    by (simp add: p_bind_ret)
  moreover have "set ?ns = {n. css_matches d scope (First ks) n}" using ms(2) ks(1) by auto
  ultimately show ?case by (intro exI [of _ ?ns]) simp
next
  case (Step s c ks)
  then obtain ns where ns: "set ns = {n. css_matches d scope s n}"
    "\<And>rest. run_criteria neg d scope (criteria_of s @ rest) None None = run_criteria neg d scope rest (Some ns) None"
    by auto
  obtain k ks' where ks: "ks = k # ks'" "leading k" "list_all trailing ks'"
    using Step.prems by (auto simp: compound_def split: list.splits)
  obtain ms where ms: "token neg d scope k (Some ns) (Some c) = p_ret ms"
    "set ms = {m. (\<exists>n \<in> set ns. related d c n m) \<and> holds d k m}"
    using leading_combine [OF ks(2)] by blast
  let ?ns = "filter (\<lambda>n. list_all (\<lambda>k. holds d k n) ks') ms"
  have "run_criteria neg d scope (criteria_of (Step s c ks) @ rest) None None = run_criteria neg d scope rest (Some ?ns) None" for rest
    using ns(2) [of "CombineWith c # ks @ rest"] run_token [of k neg d scope "ks' @ rest" "Some ns" "Some c"]
      run_trailing [OF ks(3), of neg d scope rest ms] ks(1,2) ms(1)
    by (simp add: p_bind_ret)
  moreover have "set ?ns = {n. css_matches d scope (Step s c ks) n}" using ms(2) ns(1) ks(1) by auto
  ultimately show ?case by blast
qed

lemma unique_loop_spec:
  "counted m = set rs \<Longrightarrow> distinct rs \<Longrightarrow> \<exists>r. unique_loop ns rs m = (r, m\<lparr>counted := set r\<rparr>) \<and>
     distinct r \<and> set r = set rs \<union> set ns"
proof (induction ns arbitrary: rs m)
  case Nil
  then show ?case by (cases m) auto
next
  case (Cons n ns)
  show ?case
  proof (cases "n \<in> set rs")
    case True
    then show ?thesis using Cons.IH [of m rs] Cons.prems by auto
  next
    case False
    then show ?thesis using Cons.IH [of "m\<lparr>counted := insert n (counted m)\<rparr>" "rs @ [n]"] Cons.prems by auto
  qed
qed

lemma unique_spec:
  assumes "counted m = {}"
  shows "\<exists>r. h_unique ns m = Some (Inr r, m) \<and> distinct r \<and> set r = set ns"
proof -
  obtain r where r: "unique_loop ns [] m = (r, m\<lparr>counted := set r\<rparr>)" "distinct r" "set r = set ns"
    using unique_loop_spec [of m "[]" ns] assms by auto
  have "h_unmark r (m\<lparr>counted := set r\<rparr>) = m" using assms by (cases m) (simp add: h_unmark_def)
  then show ?thesis using r by (auto simp: h_unique_def)
qed

text \<open>
  Running the criteria of a selector on a document without marks returns exactly the elements that the selector matches, each
  once, and leaves no marks.
\<close>

lemma criteria_run:
  assumes "css_ok s" "counted m = {}"
  shows "\<exists>ns. run_criteria neg d scope (criteria_of s) None None m = Some (Inr ns, m) \<and> distinct ns \<and>
    set ns = {n. css_matches d scope s n}"
proof -
  obtain ns where ns: "set ns = {n. css_matches d scope s n}"
    "run_criteria neg d scope (criteria_of s @ []) None None = run_criteria neg d scope [] (Some ns) None"
    using run_css [OF assms(1)] by blast
  then show ?thesis using unique_spec [OF assms(2), of ns] by (auto simp: fun_eq_iff)
qed

end
