(* ===== verification/Selector_Text.thy ===== *)
theory Selector_Text
  imports Prototype_Selector
begin

text \<open>
  From the text of a selector to the elements it finds: the patterns read back the text of selectors of tag
  names, class names and combinators; the relatives that \<^verbatim>\<open>up\<close> picks; the places that \<^verbatim>\<open>nth\<close> counts; and what some of the handlers do not do.
\<close>

section \<open>Reading a selector\<close>

fun text_of :: "criterion \<Rightarrow> string" where
  "text_of (CombineWith Descendant) = '' ''"
| "text_of (CombineWith Child) = '' > ''"
| "text_of (CombineWith Adjacent) = '' + ''"
| "text_of (CombineWith LaterSibling) = '' ~ ''"
| "text_of (TagName t) = t"
| "text_of (ClassName c) = CHR ''.'' # c"
| "text_of _ = []"

text \<open>A name of letters, digits, underscores and hyphens that does not end with a hyphen.\<close>

definition simple_name :: "string \<Rightarrow> bool" where
  "simple_name t \<longleftrightarrow> t \<noteq> [] \<and> list_all name_char t \<and> is_word (last t)"

lemma match_Bol:
  "regex_match (Seq Bol r) e = (case ways e r 0 [] of [] \<Rightarrow> None
     | (j, c) # _ \<Rightarrow> Some \<lparr>m_index = 0, m_text = take j e, m_groups = map (\<lambda>(n, (a, b)). (n, take (b - a) (drop a e))) c\<rparr>)"
  by (auto simp: regex_match_def search_Bol split: list.splits)

lemma takeWhile_name:
  assumes "list_all p t" "rest = [] \<or> \<not> p (hd rest)"
  shows "takeWhile p (t @ rest) = t"
  using assms by (cases rest) (auto simp: list_all_iff takeWhile_append2)

lemma ways_spaces_none: "e = [] \<or> \<not> is_space (hd e) \<Longrightarrow> ways e spaces 0 c = [(0, c)]"
proof -
  assume "e = [] \<or> \<not> is_space (hd e)"
  then have "takeWhile is_space e = []" by (cases e) auto
  then show ?thesis unfolding spaces_def using ways_Star_Ch [of 0 e is_space c] by simp
qed

lemma no_combinator:
  assumes "e \<noteq> []" "\<not> is_space (hd e)" "hd e \<noteq> s"
  shows "regex_match (combinator_re [s]) e = None"
proof -
  have "ways e (Lit [s]) 0 [] = []" using assms by (cases e) (auto simp: Lit_def)
  then show ?thesis using ways_spaces_none [of e "[]"] assms unfolding combinator_re_def match_Bol by simp
qed

lemma no_descendant: "e \<noteq> [] \<Longrightarrow> \<not> is_space (hd e) \<Longrightarrow> regex_match descendant_re e = None"
  unfolding descendant_re_def match_Bol by (cases e) auto

text \<open>The greedy repetition comes first.\<close>

lemma ways_Plus_first:
  assumes "t \<noteq> []" "list_all p t" "rest = [] \<or> \<not> p (hd rest)"
  shows "\<exists>ws. ways (u @ t @ rest) (Plus (Ch p)) (length u) c = (length u + length t, c) # ws"
proof -
  have "takeWhile p (drop (length u) (u @ t @ rest)) = t" using takeWhile_name [OF assms(2,3)] by simp
  then have "ways (u @ t @ rest) (Plus (Ch p)) (length u) c =
      map (\<lambda>j. (j, c)) (rev [Suc (length u)..<Suc (length u + length t)])"
    using ways_Plus_Ch [of "length u" "u @ t @ rest" p c] by simp
  moreover have "[Suc (length u)..<Suc (length u + length t)] = [Suc (length u)..<length u + length t] @ [length u + length t]"
    using assms(1) by (cases t) auto
  ultimately show ?thesis by simp
qed

lemma ways_Seq_first: "ways e a i c = (j, d) # ws \<Longrightarrow> ways e b j d = v # vs \<Longrightarrow> \<exists>us. ways e (Seq a b) i c = v # us"
  by simp

lemma word_not_space: "name_char c \<Longrightarrow> \<not> is_space c"
  by (auto simp: name_char_def is_word_def is_space_def is_digit_def is_upper_def is_lower_def)

lemma word_not_sign: "name_char c \<Longrightarrow> c \<noteq> CHR ''~'' \<and> c \<noteq> CHR ''>'' \<and> c \<noteq> CHR ''+'' \<and> c \<noteq> CHR ''*'' \<and> c \<noteq> CHR ''.'' \<and> c \<noteq> CHR ''#''"
  by (auto simp: name_char_def is_word_def is_digit_def is_upper_def is_lower_def)

lemma map_of_forget: "n \<notin> set ns \<Longrightarrow> map_of (forget ns c) n = map_of c n"
  unfolding forget_def by (induction c) auto

lemma ways_Opt_some: "\<exists>c' ws. ways e (Opt (Group 2 (Alt WordB Eol))) j c = (j, c') # ws \<and> map_of c' 1 = map_of c 1"
  by (cases "word_at e (int j - 1) \<noteq> word_at e (int j)"; cases "j = length e")
    (auto simp: Opt_def map_of_forget)

lemma group_map_of:
  "group \<lparr>m_index = i, m_text = t, m_groups = map (\<lambda>(n, (a, b)). (n, take (b - a) (drop a e))) c\<rparr> 1 =
     (case map_of c 1 of Some (a, b) \<Rightarrow> Str (take (b - a) (drop a e)) | None \<Rightarrow> Undefined)"
proof -
  have "map_of (map (\<lambda>(n, (a, b)). (n, take (b - a) (drop a e))) c) k = map_option (\<lambda>(a, b). take (b - a) (drop a e)) (map_of c k)" for k
    by (induction c) auto
  then show ?thesis by (auto simp: group_def split: option.splits)
qed

lemma match_first:
  assumes "ways e r 0 [] = (j, c) # ws" "map_of c 1 = Some (a, b)"
  shows "\<exists>m. regex_match (Seq Bol r) e = Some m \<and> m_text m = take j e \<and> group m 1 = Str (take (b - a) (drop a e))"
  using assms group_map_of [of 0 "take j e" e c] unfolding match_Bol by simp

lemma ways_Alt_second: "ways e a i c = [] \<Longrightarrow> ways e (Alt a b) i c = ways e b i c"
  by simp

lemma ways_Group_first: "ways e r i c = (j, d) # ws \<Longrightarrow> \<exists>vs. ways e (Group n r) i c = (j, (n, (i, j)) # forget [n] d) # vs"
  by simp

lemma tag_alt_ways:
  assumes "simple_name t \<or> t = ''*''" "rest = [] \<or> \<not> name_char (hd rest)"
  shows "\<exists>ws. ways (t @ rest) (Alt (Lit ''*'') (Plus (Ch name_char))) 0 [] = (length t, []) # ws"
  using assms(1)
proof
  assume t: "simple_name t"
  then have "hd t \<noteq> CHR ''*''" "t \<noteq> []" using word_not_sign by (cases t, auto simp: simple_name_def)+
  then have "ways (t @ rest) (Lit ''*'') 0 [] = []" by (cases t) (simp_all add: Lit_def)
  then show ?thesis unfolding ways_Alt_second [of "t @ rest" "Lit ''*''"]
    using ways_Plus_first [of t name_char rest "[]" "[]"] t assms(2) by (simp add: simple_name_def)
next
  assume "t = ''*''"
  then show ?thesis by (simp add: Lit_def)
qed

lemma tag_no_space:
  assumes "simple_name t \<or> t = ''*''"
  shows "t \<noteq> [] \<and> \<not> is_space (hd (t @ rest))"
  using assms
proof
  assume "simple_name t"
  then show ?thesis using word_not_space by (cases t) (simp_all add: simple_name_def)
qed (simp add: is_space_def)

lemma match_tagName:
  assumes "simple_name t \<or> t = ''*''" "rest = [] \<or> \<not> name_char (hd rest)"
  shows "\<exists>m. regex_match tagName_re (t @ rest) = Some m \<and> m_text m = t \<and> group m 1 = Str t"
proof -
  let ?e = "t @ rest"
  let ?g = "[(1::nat, (0::nat, length t))]"
  obtain ws where a: "ways ?e (Group 1 (Alt (Lit ''*'') (Plus (Ch name_char)))) 0 [] = (length t, ?g) # ws"
    using tag_alt_ways [OF assms] ways_Group_first [of ?e _ 0 "[]" "length t" "[]" _ 1] unfolding forget_def filter.simps by blast
  obtain c' vs where c': "ways ?e (Opt (Group 2 (Alt WordB Eol))) (length t) ?g = (length t, c') # vs"
    "map_of c' 1 = map_of ?g 1" using ways_Opt_some [of ?e "length t" ?g] by blast
  obtain us where us: "ways ?e (Seq (Group 1 (Alt (Lit ''*'') (Plus (Ch name_char)))) (Opt (Group 2 (Alt WordB Eol)))) 0 [] = (length t, c') # us"
    using ways_Seq_first [OF a c'(1)] by blast
  have "ways ?e spaces 0 [] = [(0, [])]" using ways_spaces_none tag_no_space [OF assms(1)] by blast
  then have w: "ways ?e (Seq spaces (Seq (Group 1 (Alt (Lit ''*'') (Plus (Ch name_char)))) (Opt (Group 2 (Alt WordB Eol))))) 0 [] = (length t, c') # us"
    using us by (simp only: ways.simps(3) list.map case_prod_conv concat.simps append_Nil2)
  have "map_of c' 1 = Some (0, length t)" using c'(2) by simp
  from match_first [OF w this] show ?thesis unfolding tagName_re_def by simp
qed

lemma word_at_nat: "word_at e (int n) \<longleftrightarrow> n < length e \<and> is_word (e ! n)"
  by (simp add: word_at_def)

lemma match_className:
  assumes "simple_name t" "rest = [] \<or> \<not> is_word (hd rest) \<and> hd rest \<noteq> CHR ''-'' \<and> hd rest \<noteq> CHR ''*''"
  shows "\<exists>m. regex_match className_re (CHR ''.'' # t @ rest) = Some m \<and> m_text m = CHR ''.'' # t \<and> group m 1 = Str t"
proof -
  let ?e = "CHR ''.'' # t @ rest"
  let ?g = "[(1::nat, (1::nat, Suc (length t)))]"
  have t: "t \<noteq> []" "list_all name_star_char t" "is_word (last t)"
    using assms(1) by (auto simp: simple_name_def list_all_iff name_char_def name_star_char_def)
  obtain ws where "ways ?e (Plus (Ch name_star_char)) 1 [] = (Suc (length t), []) # ws"
    using ways_Plus_first [of t name_star_char rest "''.''" "[]"] t assms(2) by (auto simp: name_star_char_def)
  then have a: "ways ?e (Group 1 (Plus (Ch name_star_char))) 1 [] = (Suc (length t), ?g) # map (\<lambda>(j, d). (j, (1, (1, j)) # forget [1] d)) ws"
    by (simp add: forget_def)
  have w: "word_at ?e (int (Suc (length t)) - 1)"
    using t(1,3) by (simp add: word_at_def nth_append last_conv_nth nth_Cons')
  have "ways ?e (Group 2 (Alt WordB Eol)) (Suc (length t)) ?g \<noteq> [] \<and>
      fst (hd (ways ?e (Group 2 (Alt WordB Eol)) (Suc (length t)) ?g)) = Suc (length t) \<and>
      map_of (snd (hd (ways ?e (Group 2 (Alt WordB Eol)) (Suc (length t)) ?g))) 1 = Some (1, Suc (length t))"
  proof (cases "rest = []")
    case True
    then show ?thesis using w by (auto simp: forget_def)
  next
    case False
    then have "?e ! Suc (length t) = hd rest" by (simp add: nth_append hd_conv_nth)
    then have "\<not> word_at ?e (int (Suc (length t)))" using assms(2) False unfolding word_at_nat by simp
    then show ?thesis using w by (auto simp: forget_def)
  qed
  then obtain c' vs where c': "ways ?e (Group 2 (Alt WordB Eol)) (Suc (length t)) ?g = (Suc (length t), c') # vs"
    "map_of c' 1 = Some (1, Suc (length t))"
    by (cases "ways ?e (Group 2 (Alt WordB Eol)) (Suc (length t)) ?g") auto
  obtain us where us: "ways ?e (Seq (Group 1 (Plus (Ch name_star_char))) (Group 2 (Alt WordB Eol))) 1 [] = (Suc (length t), c') # us"
    using ways_Seq_first [OF a c'(1)] by blast
  have "ways ?e (Lit ''.'') 0 [] = [(1, [])]" by (simp add: Lit_def)
  then have "ways ?e (Seq (Lit ''.'') (Seq (Group 1 (Plus (Ch name_star_char))) (Group 2 (Alt WordB Eol)))) 0 [] = (Suc (length t), c') # us"
    using us by (simp only: ways.simps(3) list.map case_prod_conv concat.simps append_Nil2)
  from match_first [OF this c'(2)] show ?thesis unfolding className_re_def by simp
qed

text \<open>A sign between spaces.\<close>

lemma ways_spaces_one:
  assumes "x \<noteq> []" "\<not> is_space (hd x)"
  shows "ways (u @ CHR '' '' # x) spaces (length u) c = [(Suc (length u), c), (length u, c)]"
proof -
  have "takeWhile is_space (drop (length u) (u @ CHR '' '' # x)) = '' ''"
    using assms by (cases x) (auto simp: is_space_def)
  then show ?thesis unfolding spaces_def using ways_Star_Ch [of "length u" "u @ CHR '' '' # x" is_space c] by simp
qed

lemma match_combinator:
  assumes "x \<noteq> []" "\<not> is_space (hd x)" "\<not> is_space s"
  shows "\<exists>m. regex_match (combinator_re [s]) (CHR '' '' # s # CHR '' '' # x) = Some m \<and> m_text m = [CHR '' '', s, CHR '' '']"
proof -
  let ?e = "CHR '' '' # s # CHR '' '' # x"
  have a: "ways ?e spaces 0 [] = [(1, []), (0, [])]" using ways_spaces_one [of "s # CHR '' '' # x" "[]"] assms(3) by simp
  have b: "ways ?e (Lit [s]) 1 [] = [(2, [])]" by (simp add: Lit_def)
  have c: "ways ?e spaces 2 [] = [(3, []), (2, [])]"
    using ways_spaces_one [of x "[CHR '' '', s]"] assms(1,2) by (simp add: numeral_2_eq_2 numeral_3_eq_3)
  have "\<exists>ws. ways ?e (Seq spaces (Seq (Lit [s]) spaces)) 0 [] = (3, []) # ws" using a b c by simp
  then show ?thesis unfolding combinator_re_def match_Bol by (auto simp: numeral_3_eq_3)
qed

lemma no_combinator_space:
  assumes "\<not> is_space f" "f \<noteq> s" "s \<noteq> CHR '' ''"
  shows "regex_match (combinator_re [s]) (CHR '' '' # f # y) = None"
proof -
  have "ways (CHR '' '' # f # y) spaces 0 [] = [(1, []), (0, [])]" using ways_spaces_one [of "f # y" "[]"] assms(1) by simp
  then show ?thesis unfolding combinator_re_def match_Bol using assms by (simp add: Lit_def)
qed

lemma match_descendant: "\<exists>m. regex_match descendant_re (CHR '' '' # y) = Some m \<and> m_text m = '' ''"
  unfolding descendant_re_def match_Bol by (simp add: is_space_def)

lemma no_tagName:
  assumes "e \<noteq> []" "\<not> is_space (hd e)" "\<not> name_char (hd e)" "hd e \<noteq> CHR ''*''"
  shows "regex_match tagName_re e = None"
proof -
  have "ways e (Group 1 (Alt (Lit ''*'') (Plus (Ch name_char)))) 0 [] = []"
    using assms by (cases e) (auto simp: Lit_def Plus_def)
  then show ?thesis using ways_spaces_none [of e "[]"] assms unfolding tagName_re_def match_Bol by simp
qed

lemma no_id: "e \<noteq> [] \<Longrightarrow> hd e \<noteq> CHR ''#'' \<Longrightarrow> regex_match id_re e = None"
  unfolding id_re_def match_Bol by (cases e) (auto simp: Lit_def)

text \<open>The first pattern that matches a text that starts with a simple selector or with a combinator.\<close>

definition selector_start :: "string \<Rightarrow> bool" where
  "selector_start x \<longleftrightarrow> x \<noteq> [] \<and> \<not> is_space (hd x) \<and> hd x \<notin> set ''~>+''"

lemma interpret_Str: "String_interpret (Str t) = t"
  by (simp add: String_interpret_def loose_eq_def)

lemma first_tagName:
  assumes "simple_name t \<or> t = ''*''" "rest = [] \<or> \<not> name_char (hd rest)"
  shows "first_match patterns (t @ rest) = Some (TagName t, t)"
proof -
  have t: "t \<noteq> []" "\<not> is_space (hd t)" "hd t \<notin> set ''~>+''"
    using assms(1) tag_no_space [OF assms(1), of "[]"] word_not_sign by (cases t; auto simp: simple_name_def)+
  then have "hd (t @ rest) = hd t" "t @ rest \<noteq> []" by simp_all
  moreover obtain m where "regex_match tagName_re (t @ rest) = Some m" "m_text m = t" "group m 1 = Str t"
    using match_tagName [OF assms] by blast
  ultimately show ?thesis using t no_combinator [of "t @ rest"] no_descendant [of "t @ rest"]
    by (simp add: patterns_def interpret_Str)
qed

lemma first_className:
  assumes "simple_name t" "rest = [] \<or> \<not> is_word (hd rest) \<and> hd rest \<noteq> CHR ''-'' \<and> hd rest \<noteq> CHR ''*''"
  shows "first_match patterns (CHR ''.'' # t @ rest) = Some (ClassName t, CHR ''.'' # t)"
proof -
  let ?e = "CHR ''.'' # t @ rest"
  obtain m where m: "regex_match className_re ?e = Some m" "m_text m = CHR ''.'' # t" "group m 1 = Str t"
    using match_className [OF assms] by blast
  have dot: "\<not> is_space CHR ''.''" "\<not> name_char CHR ''.''" by code_simp+
  have "regex_match tagName_re ?e = None" "regex_match id_re ?e = None" "regex_match descendant_re ?e = None"
    using no_tagName [of ?e] no_id [of ?e] no_descendant [of ?e] dot by simp_all
  then show ?thesis using m no_combinator [of ?e] dot by (simp add: patterns_def interpret_Str)
qed

lemma first_combinator:
  assumes "selector_start x"
  shows "first_match patterns (text_of (CombineWith c) @ x) = Some (CombineWith c, text_of (CombineWith c))"
proof -
  have x: "x \<noteq> []" "\<not> is_space (hd x)" "hd x \<notin> set ''~>+''" using assms by (auto simp: selector_start_def)
  have sp: "\<not> is_space CHR ''~''" "\<not> is_space CHR ''>''" "\<not> is_space CHR ''+''" by code_simp+
  obtain m1 m2 m3 m4 where m: "regex_match (combinator_re ''~'') ('' ~ '' @ x) = Some m1" "m_text m1 = '' ~ ''"
    "regex_match (combinator_re ''>'') ('' > '' @ x) = Some m2" "m_text m2 = '' > ''"
    "regex_match (combinator_re ''+'') ('' + '' @ x) = Some m3" "m_text m3 = '' + ''"
    "regex_match descendant_re ('' '' @ x) = Some m4" "m_text m4 = '' ''"
    using match_combinator [OF x(1,2) sp(1)] match_combinator [OF x(1,2) sp(2)] match_combinator [OF x(1,2) sp(3)]
      match_descendant [of x] by auto
  show ?thesis
  proof (cases c)
    case Descendant
    have "regex_match (combinator_re [s]) ('' '' @ x) = None" if "s \<in> set ''~>+''" for s
      using no_combinator_space [of "hd x" s "tl x"] x that by auto
    then show ?thesis using m Descendant by (simp add: patterns_def)
  qed (use m sp no_combinator_space in \<open>simp_all add: patterns_def\<close>)
qed

lemma starts_self: "starts t (t @ rest)"
  by (induction t) simp_all

lemma remove_front: "remove_text t (t @ rest) = rest"
proof (cases "t @ rest")
  case (Cons c e)
  then have "indexOf (t @ rest) t = 0" using starts_self [of t rest] by (simp add: indexOf_def)
  then show ?thesis by (simp add: remove_text_def)
qed (simp add: remove_text_def Let_def)

lemma compile_step:
  assumes "first_match patterns (t @ rest) = Some (k, t)" "t \<noteq> []" "\<not> list_all is_space (t @ rest)"
  shows "compile_loop (t @ rest) = k # compile_loop rest"
  using assms by (simp add: compile_loop.simps [of "t @ rest"] remove_front Let_def)

text \<open>A selector without identifiers, attributes and pseudo classes.\<close>

fun simple_class :: "criterion \<Rightarrow> bool" where
  "simple_class (ClassName c) = simple_name c"
| "simple_class _ = False"

fun simple_head :: "criterion \<Rightarrow> bool" where
  "simple_head (TagName t) = (simple_name t \<or> t = ''*'')"
| "simple_head k = simple_class k"

definition simple_compound :: "criterion list \<Rightarrow> bool" where
  "simple_compound ks = (case ks of [] \<Rightarrow> False | k # ks' \<Rightarrow> simple_head k \<and> list_all simple_class ks')"

fun simple_css :: "css \<Rightarrow> bool" where
  "simple_css (First ks) = simple_compound ks"
| "simple_css (Step s c ks) = (simple_css s \<and> simple_compound ks)"

definition css_text :: "css \<Rightarrow> string" where
  "css_text s = concat (map text_of (criteria_of s))"

definition ends_here :: "string \<Rightarrow> bool" where
  "ends_here rest \<longleftrightarrow> rest = [] \<or> hd rest = CHR '' '' \<or> hd rest = CHR ''.''"

lemma ends_here_word:
  assumes "ends_here rest"
  shows "rest = [] \<or> \<not> name_char (hd rest)" "rest = [] \<or> \<not> is_word (hd rest) \<and> hd rest \<noteq> CHR ''-'' \<and> hd rest \<noteq> CHR ''*''"
  using assms by (auto simp: ends_here_def name_char_def is_word_def is_digit_def is_upper_def is_lower_def)

lemma compile_head:
  assumes "simple_head k" "ends_here rest"
  shows "compile_loop (text_of k @ rest) = k # compile_loop rest"
proof (cases k)
  case (TagName t)
  then have t: "simple_name t \<or> t = ''*''" using assms(1) by simp
  show ?thesis using compile_step [OF first_tagName [OF t ends_here_word(1) [OF assms(2)]]] tag_no_space [OF t] TagName
    by (cases t) auto
next
  case (ClassName t)
  have "\<not> is_space CHR ''.''" by code_simp
  then show ?thesis using compile_step [of "CHR ''.'' # t" rest k] first_className [of t rest] ends_here_word(2) [OF assms(2)] assms(1) ClassName
    by simp
qed (use assms in simp_all)

lemma simple_class_head: "simple_class k \<Longrightarrow> simple_head k"
  by (cases k) simp_all

lemma class_ends: "list_all simple_class ks \<Longrightarrow> ends_here rest \<Longrightarrow> ends_here (concat (map text_of ks) @ rest)"
proof (cases ks)
  case (Cons k ks')
  moreover assume "list_all simple_class ks"
  ultimately show ?thesis by (cases k) (simp_all add: ends_here_def)
qed simp

lemma compile_classes:
  "list_all simple_class ks \<Longrightarrow> ends_here rest \<Longrightarrow> compile_loop (concat (map text_of ks) @ rest) = ks @ compile_loop rest"
proof (induction ks)
  case (Cons k ks)
  then show ?case using compile_head [of k "concat (map text_of ks) @ rest"] class_ends [of ks rest] by (simp add: simple_class_head)
qed simp

lemma compile_compound:
  "simple_compound ks \<Longrightarrow> ends_here rest \<Longrightarrow> compile_loop (concat (map text_of ks) @ rest) = ks @ compile_loop rest"
  using compile_head [of "hd ks" "concat (map text_of (tl ks)) @ rest"] compile_classes [of "tl ks" rest] class_ends [of "tl ks" rest]
  by (cases ks) (simp_all add: simple_compound_def)

lemma compound_start:
  assumes "simple_compound ks"
  shows "selector_start (concat (map text_of ks) @ rest)"
proof (cases ks)
  case (Cons k ks')
  then have k: "simple_head k" using assms by (simp add: simple_compound_def)
  show ?thesis
  proof (cases k)
    case (TagName t)
    then have t: "simple_name t \<or> t = ''*''" using k by simp
    have "hd t \<notin> set ''~>+''" using t word_not_sign by (cases t; auto simp: simple_name_def)
    then show ?thesis using tag_no_space [OF t, of "[]"] Cons TagName by (simp add: selector_start_def)
  next
    case (ClassName c)
    then show ?thesis using Cons by (simp add: selector_start_def is_space_def)
  qed (use k in simp_all)
qed (use assms in \<open>simp add: simple_compound_def\<close>)

lemma compile_combinator:
  "selector_start x \<Longrightarrow> compile_loop (text_of (CombineWith c) @ x) = CombineWith c # compile_loop x"
  using compile_step [OF first_combinator [of x c]] by (cases c; cases x) (auto simp: selector_start_def)

lemma combinator_ends: "ends_here (text_of (CombineWith c) @ x)"
  by (cases c) (simp_all add: ends_here_def)

lemma compile_css:
  "simple_css s \<Longrightarrow> ends_here rest \<Longrightarrow> compile_loop (css_text s @ rest) = criteria_of s @ compile_loop rest"
proof (induction s arbitrary: rest)
  case (First ks)
  then show ?case by (simp add: css_text_def compile_compound)
next
  case (Step s c ks)
  let ?x = "concat (map text_of ks) @ rest"
  have "compile_loop (css_text (Step s c ks) @ rest) = compile_loop (css_text s @ text_of (CombineWith c) @ ?x)"
    by (simp add: css_text_def)
  also have "\<dots> = criteria_of s @ compile_loop (text_of (CombineWith c) @ ?x)" using Step combinator_ends by simp
  also have "\<dots> = criteria_of s @ CombineWith c # compile_loop ?x" using compile_combinator compound_start Step.prems by simp
  also have "\<dots> = criteria_of (Step s c ks) @ compile_loop rest" using compile_compound Step.prems by simp
  finally show ?case .
qed

lemma simple_ends:
  assumes "simple_head k"
  shows "text_of k \<noteq> [] \<and> \<not> is_space (last (text_of k))"
proof -
  have "\<not> is_space (last t)" if "simple_name t" for t
    using that word_not_space [of "last t"] by (simp add: simple_name_def name_char_def)
  then show ?thesis using assms by (cases k) (auto simp: simple_name_def is_space_def)
qed

lemma compound_ends:
  assumes "simple_compound ks"
  shows "concat (map text_of ks) \<noteq> [] \<and> \<not> is_space (last (concat (map text_of ks)))"
proof -
  have ks: "ks \<noteq> []" "\<And>k. k \<in> set ks \<Longrightarrow> simple_head k"
    using assms simple_class_head by (auto simp: simple_compound_def list_all_iff split: list.splits)
  obtain ks' k where e: "ks = ks' @ [k]" using ks(1) by (metis rev_exhaust)
  then have "simple_head k" using ks(2) by simp
  then show ?thesis using simple_ends [of k] e by simp
qed

lemma css_text_start: "simple_css s \<Longrightarrow> css_text s \<noteq> [] \<and> \<not> is_space (hd (css_text s))"
proof (induction s)
  case (First ks)
  then show ?case using compound_start [of ks "[]"] by (simp add: css_text_def selector_start_def)
next
  case (Step s c ks)
  then show ?case by (simp add: css_text_def)
qed

lemma css_text_end: "simple_css s \<Longrightarrow> \<not> is_space (last (css_text s))"
  using compound_ends by (cases s) (auto simp: css_text_def)

lemma strip_css: "simple_css s \<Longrightarrow> String_strip (css_text s) = css_text s"
proof -
  assume s: "simple_css s"
  then have "dropWhile is_space (css_text s) = css_text s" "dropWhile is_space (rev (css_text s)) = rev (css_text s)"
    using css_text_start [OF s] css_text_end [OF s]
    by (cases "css_text s", simp_all) (cases "rev (css_text s)", auto simp: hd_rev [symmetric])
  then show ?thesis by (simp add: String_strip_def strip_left strip_right trim_right_def)
qed

lemma simple_writable: "simple_css s \<Longrightarrow> list_all writable (criteria_of s)"
proof -
  have h: "writable k" if "simple_head k" for k using that by (cases k) (simp_all add: writable_def)
  have "list_all writable ks" if "simple_compound ks" for ks
    using that h simple_class_head by (auto simp: simple_compound_def list_all_iff split: list.splits)
  then show "simple_css s \<Longrightarrow> list_all writable (criteria_of s)"
    by (induction s) (simp_all add: writable_def)
qed

lemma compile_simple: "simple_css s \<Longrightarrow> compileMatcher (css_text s) = Some (criteria_of s)"
  using compile_css [of s "[]"] simple_writable [of s]
  by (simp add: compileMatcher_def strip_css ends_here_def compile_loop.simps [of "[]"])

lemma simple_class_name: "simple_name c \<Longrightarrow> class_name c"
  using word_not_space [of "CHR '' ''"] by (auto simp: simple_name_def class_name_def list_all_iff is_space_def)

lemma simple_ok: "simple_css s \<Longrightarrow> css_ok s"
proof -
  have t: "trailing k" if "simple_class k" for k using that by (cases k) (simp_all add: simple_class_name)
  have h: "leading k" if "simple_head k" for k using that by (cases k) (simp_all add: simple_class_name)
  have "compound ks" if "simple_compound ks" for ks
    using that t h by (auto simp: simple_compound_def compound_def list_all_iff split: list.splits)
  then show "simple_css s \<Longrightarrow> css_ok s" by (induction s) simp_all
qed

lemma find_simple:
  assumes "simple_css s" "counted m = {}"
  shows "\<exists>ns. findElements d scope (css_text s) m = Some (Inr ns, m) \<and> distinct ns \<and> set ns = {n. css_matches d scope s n}"
  using criteria_run [OF simple_ok [OF assms(1)] assms(2)] compile_simple [OF assms(1)]
  by (simp add: findElements_def)

text \<open>
  C3: finding the elements of the text of a selector of tag names and class names with combinators between them, on a document
  without marks, returns exactly the elements in scope that the selector matches, each once, and leaves no marks.
\<close>

theorem select_finds:
  assumes "simple_css s" "counted m = {}"
  shows "\<exists>ns. findElements d scope (css_text s) m = Some (Inr ns, m) \<and> distinct ns \<and> set ns = {n. css_matches d scope s n}"
  using assms by (rule find_simple)

section \<open>Finding relatives\<close>

lemma match_elements:
  assumes "simple_css s" "counted m = {}"
  shows "matchElements d es (css_text s) m = Some (Inr (filter (css_matches d 0 s) es), m)"
proof -
  obtain ns where ns: "findElements d 0 (css_text s) m = Some (Inr ns, m)" "set ns = {n. css_matches d 0 s n}"
    using find_simple [OF assms] by blast
  have "h_unmark ns (h_mark ns m) = m" using assms(2) by (cases m) (simp add: h_unmark_def h_mark_def)
  moreover have "counted (h_mark ns m) = set ns" using assms(2) by (simp add: h_mark_def)
  ultimately show ?thesis using ns by (auto simp: matchElements_def p_bind_def intro!: filter_cong)
qed

lemma pick_first:
  assumes "simple_css s" "counted m = {}"
  shows "pick_from d es (Some (Expr (css_text s))) 0 m = Some (Inr (find (css_matches d 0 s) es), m)"
proof -
  have "nth_node (filter p xs) 0 = find p xs" for p xs
    by (induction xs) (auto simp: nth_node_def)
  then show ?thesis using match_elements [OF assms] css_text_start [OF assms(1)]
    by (simp add: pick_from_def Selector_findElement_def p_bind_def p_ret_def nth_node_def)
qed

text \<open>The ancestors, from the parent upwards.\<close>

function ancestry :: "document \<Rightarrow> nat \<Rightarrow> nat list" where
  "ancestry d n = (case parentNode d n of None \<Rightarrow> [] | Some p \<Rightarrow> p # ancestry d p)"
  by pat_completeness auto
termination
  by (relation "measure (\<lambda>(d, n). n)") (auto dest: parentNode_less)

declare ancestry.simps [simp del]

lemma ancestors_spec: "Element_ancestors d n = Some (filter (is_element d) (ancestry d n))"
  unfolding Element_ancestors_def by (rule parents.collect_spec) (rule ancestry.simps)

lemma ancestry_set: "a \<in> set (ancestry d n) \<longleftrightarrow> descendantOf d n a"
proof (induction d n rule: ancestry.induct)
  case (1 d n)
  then show ?case by (subst ancestry.simps, subst descendantOf.simps) (auto split: option.split)
qed

lemma ancestry_less: "a \<in> set (ancestry d n) \<Longrightarrow> a < n"
proof (induction d n rule: ancestry.induct)
  case (1 d n)
  then show ?case using ancestry.simps [of d n] parentNode_less [of d n] by (cases "parentNode d n") fastforce+
qed

lemma find_ancestor:
  "find p (filter e (ancestry d n)) = Some a \<longleftrightarrow> descendantOf d n a \<and> e a \<and> p a \<and> (\<forall>b. descendantOf d n b \<and> e b \<and> p b \<longrightarrow> b \<le> a)"
proof (induction d n rule: ancestry.induct)
  case (1 d n)
  show ?case
  proof (cases "parentNode d n")
    case None
    then show ?thesis by (simp add: ancestry.simps [of d n] descendantOf.simps [of d n])
  next
    case (Some q)
    have d: "descendantOf d n b \<longleftrightarrow> b = q \<or> descendantOf d q b" for b using Some by (simp add: descendantOf.simps [of d n])
    have lt: "b < q" if "descendantOf d q b" for b using that ancestry_less ancestry_set by blast
    show ?thesis
    proof (cases "e q \<and> p q")
      case True
      then have "q = a \<longleftrightarrow> descendantOf d n a \<and> e a \<and> p a \<and> (\<forall>b. descendantOf d n b \<and> e b \<and> p b \<longrightarrow> b \<le> a)"
        unfolding d using lt by (force dest: leD less_imp_le)
      then show ?thesis using Some True by (simp add: ancestry.simps [of d n])
    next
      case False
      then show ?thesis using Some d 1 [OF Some] by (auto simp: ancestry.simps [of d n])
    qed
  qed
qed

text \<open>
  C11: \<^verbatim>\<open>up\<close> with a selector of tag names, class names and combinators returns the nearest ancestor that the selector matches, or
  \<^verbatim>\<open>undefined\<close> when there is none, and leaves no marks.
\<close>

theorem up_nearest:
  assumes "simple_css s" "counted m = {}"
  shows "\<exists>r. Element_up d n (Some (Some (Expr (css_text s)), 0)) m = Some (Inr r, m) \<and>
    (\<forall>a. r = Some a \<longleftrightarrow> descendantOf d n a \<and> is_element d a \<and> css_matches d 0 s a \<and>
      (\<forall>b. descendantOf d n b \<and> is_element d b \<and> css_matches d 0 s b \<longrightarrow> b \<le> a))"
  using pick_first [OF assms, of d "filter (is_element d) (ancestry d n)"]
  by (simp add: Element_up_def pick_option_def ancestors_spec find_ancestor)

section \<open>Counting siblings\<close>

text \<open>The place of an element among the elements of its parent, from one.\<close>

definition position :: "document \<Rightarrow> nat \<Rightarrow> nat" where
  "position d n = Suc (length (filter (is_element d) (preceding d n)))"

lemma takeWhile_upto: "q \<notin> set xs \<Longrightarrow> takeWhile (\<lambda>x. x \<noteq> q) (xs @ q # ys) = xs"
  by (induction xs) auto

lemma index_loop:
  "distinct xs \<Longrightarrow> foldl (\<lambda>(j, m) node. if E node then (Suc j, m\<lparr>nodeIndex := (nodeIndex m)(node \<mapsto> j)\<rparr>) else (j, m)) (1, m) xs =
     (Suc (length (filter E xs)), m\<lparr>nodeIndex := \<lambda>q. if q \<in> set xs \<and> E q
        then Some (Suc (length (filter E (takeWhile (\<lambda>x. x \<noteq> q) xs)))) else nodeIndex m q\<rparr>)"
proof (induction xs rule: rev_induct)
  case (snoc x xs)
  have t: "takeWhile (\<lambda>y. y \<noteq> x) (xs @ [x]) = xs" using snoc.prems takeWhile_upto [of x xs "[]"] by simp
  have u: "takeWhile (\<lambda>y. y \<noteq> q) (xs @ [x]) = takeWhile (\<lambda>y. y \<noteq> q) xs" if "q \<in> set xs" for q
    using that by (simp add: takeWhile_append1)
  let ?new = "\<lambda>xs q. if q \<in> set xs \<and> E q then Some (Suc (length (filter E (takeWhile (\<lambda>x. x \<noteq> q) xs)))) else nodeIndex m q"
  have "?new (xs @ [x]) = (if E x then (?new xs)(x \<mapsto> Suc (length (filter E xs))) else ?new xs)"
    using t u snoc.prems by (auto simp: fun_eq_iff)
  then show ?case using snoc by simp
qed simp

lemma takeWhile_filter_upt: "P q \<Longrightarrow> q < n \<Longrightarrow> takeWhile (\<lambda>x. x \<noteq> q) (filter P [0..<n]) = filter P [0..<q]"
proof -
  assume P: "P q" and q: "q < n"
  have "[0..<n] = [0..<q] @ q # [Suc q..<n]" using upt_add_eq_append [of 0 q "n - q"] q by (simp add: upt_conv_Cons)
  then show ?thesis using P takeWhile_upto [of q "filter P [0..<q]"] by simp
qed

lemma distinct_children: "distinct (childNodes d p)"
  by (simp add: childNodes_def)

lemma index_spec:
  "h_index d False False p m = m\<lparr>counted := insert p (counted m),
     nodeIndex := \<lambda>q. if parentNode d q = Some p \<and> is_element d q then Some (position d q) else nodeIndex m q\<rparr>"
proof -
  have c: "q \<in> set (childNodes d p) \<longleftrightarrow> parentNode d q = Some p" for q
    using parentNode_less [of d q p] by (auto simp: childNodes_def)
  have "takeWhile (\<lambda>x. x \<noteq> q) (childNodes d p) = preceding d q" if "parentNode d q = Some p" for q
    using that takeWhile_filter_upt [of "\<lambda>i. parentNode d i = Some p" q "length d"] parentNode_less [of d q p]
    by (simp add: childNodes_def preceding_def)
  then show ?thesis unfolding h_index_def Let_def
    using index_loop [of "childNodes d p" "is_element d" "m\<lparr>counted := insert p (counted m)\<rparr>"] distinct_children [of d p]
    by (simp add: c position_def cong: if_cong)
qed

lemma index_parents_flat:
  assumes "\<forall>n \<in> set nodes. is_element d n \<and> (\<exists>p. parentNode d n = Some p \<and> p \<notin> N)"
    "counted m = N \<union> set indexed"
    "\<forall>q. is_element d q \<and> (\<exists>p \<in> set indexed. parentNode d q = Some p) \<longrightarrow> nodeIndex m q = Some (position d q)"
  shows "\<exists>ps m'. index_parents d False False nodes indexed m = Some (Inr ps, m') \<and> counted m' = N \<union> set ps \<and> set indexed \<subseteq> set ps \<and>
    (\<forall>q. is_element d q \<and> (\<exists>p \<in> set ps. parentNode d q = Some p) \<longrightarrow> nodeIndex m' q = Some (position d q)) \<and>
    (\<forall>n \<in> set nodes. \<exists>p \<in> set ps. parentNode d n = Some p)"
  using assms
proof (induction nodes arbitrary: indexed m)
  case (Cons n nodes)
  then obtain p where p: "parentNode d n = Some p" "p \<notin> N" by auto
  show ?case
  proof (cases "p \<in> set indexed")
    case True
    then have "p \<in> counted m" using Cons.prems(2) by simp
    then have "index_parents d False False (n # nodes) indexed m = index_parents d False False nodes indexed m"
      using p by simp
    then show ?thesis using Cons.IH [of m indexed] Cons.prems True p(1) by (auto 0 4)
  next
    case False
    then have "p \<notin> counted m" using Cons.prems(2) p(2) by simp
    then have e: "index_parents d False False (n # nodes) indexed m =
        index_parents d False False nodes (indexed @ [p]) (h_index d False False p m)" using p by simp
    have 1: "\<forall>n \<in> set nodes. is_element d n \<and> (\<exists>p. parentNode d n = Some p \<and> p \<notin> N)" using Cons.prems(1) by simp
    have 2: "counted (h_index d False False p m) = N \<union> set (indexed @ [p])" using Cons.prems(2) by (auto simp: index_spec)
    have 3: "\<forall>q. is_element d q \<and> (\<exists>p' \<in> set (indexed @ [p]). parentNode d q = Some p') \<longrightarrow>
        nodeIndex (h_index d False False p m) q = Some (position d q)" using Cons.prems(3) by (auto simp: index_spec)
    obtain ps m' where r: "index_parents d False False nodes (indexed @ [p]) (h_index d False False p m) = Some (Inr ps, m')"
      "counted m' = N \<union> set ps" "set (indexed @ [p]) \<subseteq> set ps"
      "\<forall>q. is_element d q \<and> (\<exists>p \<in> set ps. parentNode d q = Some p) \<longrightarrow> nodeIndex m' q = Some (position d q)"
      "\<forall>n \<in> set nodes. \<exists>p \<in> set ps. parentNode d n = Some p"
      using Cons.IH [OF 1 2 3] by blast
    then show ?thesis using e p(1) by (intro exI [of _ ps] exI [of _ m']) auto
  qed
qed simp

lemma digits_number: "f \<noteq> [] \<Longrightarrow> list_all is_digit f \<Longrightarrow> regex_test number_re f"
proof -
  assume "f \<noteq> []" "list_all is_digit f"
  then obtain ws where "ways f (Plus (Ch is_digit)) 0 [] = (length f, []) # ws"
    using ways_Plus_first [of f is_digit "[]" "[]" "[]"] by auto
  then have "ways f (Seq (Plus (Ch is_digit)) Eol) 0 [] \<noteq> []" by simp
  then show ?thesis unfolding regex_test_def number_re_def using match_Bol by (auto simp: regex_match_def split: list.splits)
qed

text \<open>
  C19: \<^verbatim>\<open>:nth-child\<close> with a number keeps, among elements none of which is the parent of another, exactly those with that many elements
  of the same parent up to them, and removes the marks it leaves on them and on their parents.
\<close>

theorem nth_child_flat:
  assumes "counted m = {}" "\<forall>n \<in> set nodes. is_element d n \<and> (\<exists>p. parentNode d n = Some p \<and> p \<notin> set nodes)"
    "formula \<noteq> []" "list_all is_digit formula"
  shows "\<exists>m'. pseudos neg d ''nth-child'' nodes formula m =
      Some (Inr (filter (\<lambda>n. int (position d n) = digits_val 0 formula) nodes), m') \<and> counted m' = {}"
proof (cases "nodes = []")
  case True
  then show ?thesis using assms(1) by (simp add: pseudos_def pseudo_nth_def)
next
  case False
  obtain ps m' where r: "index_parents d False False nodes [] (h_mark nodes m) = Some (Inr ps, m')"
    "counted m' = set nodes \<union> set ps"
    "\<forall>q. is_element d q \<and> (\<exists>p \<in> set ps. parentNode d q = Some p) \<longrightarrow> nodeIndex m' q = Some (position d q)"
    "\<forall>n \<in> set nodes. \<exists>p \<in> set ps. parentNode d n = Some p"
    using index_parents_flat [of nodes d "set nodes" "h_mark nodes m" "[]"] assms(1,2) by (auto simp: h_mark_def)
  have "\<not> is_digit CHR ''e''" "\<not> is_digit CHR ''o''" by code_simp+
  then have f: "formula \<noteq> ''even''" "formula \<noteq> ''odd''" using assms(4) by auto
  have "nth_select formula nodes m' = filter (\<lambda>n. int (position d n) = digits_val 0 formula) nodes"
    unfolding nth_select_def using digits_number [OF assms(3,4)] r(3,4) assms(2) by (auto intro!: filter_cong)
  moreover have "counted (h_unmark ps (h_unmark nodes m')) = {}" using r(2) by (auto simp: h_unmark_def)
  ultimately show ?thesis using False f r(1) by (simp add: pseudos_def pseudo_nth_def)
qed

text \<open>The indices of the children of a marked node are not written.\<close>

lemma index_other:
  assumes "parentNode d q = Some p" "p \<noteq> p'"
  shows "nodeIndex (h_index d reverse ofType p' m) q = nodeIndex m q \<and> counted m \<subseteq> counted (h_index d reverse ofType p' m)"
proof -
  have q: "q \<notin> set (childNodes d p')" using assms by (simp add: childNodes_def)
  have "nodeIndex (snd (foldl (\<lambda>(j, m) node. if is_element d node \<and> (\<not> ofType \<or> node \<in> counted m)
      then (Suc j, m\<lparr>nodeIndex := (nodeIndex m)(node \<mapsto> j)\<rparr>) else (j, m)) (j, m) xs)) q = nodeIndex m q \<and>
    counted (snd (foldl (\<lambda>(j, m) node. if is_element d node \<and> (\<not> ofType \<or> node \<in> counted m)
      then (Suc j, m\<lparr>nodeIndex := (nodeIndex m)(node \<mapsto> j)\<rparr>) else (j, m)) (j, m) xs)) = counted m"
    if "q \<notin> set xs" for xs j and m :: marks
    using that by (induction xs arbitrary: j m) auto
  from this [of "if reverse then rev (childNodes d p') else childNodes d p'"] show ?thesis
    using q by (simp add: h_index_def Let_def) blast
qed

lemma index_parents_other:
  "index_parents d reverse ofType nodes indexed m = Some (Inr ps, m') \<Longrightarrow> parentNode d q = Some p \<Longrightarrow> p \<in> counted m \<Longrightarrow>
     nodeIndex m' q = nodeIndex m q"
proof (induction nodes arbitrary: indexed m)
  case (Cons n nodes)
  then obtain p' where p': "parentNode d n = Some p'" by (cases "parentNode d n") auto
  show ?case
  proof (cases "p' \<in> counted m")
    case True
    then show ?thesis using Cons p' by simp
  next
    case False
    then have "p \<noteq> p'" using Cons.prems(3) by auto
    then show ?thesis using Cons.IH [of "indexed @ [p']" "h_index d reverse ofType p' m"] Cons.prems False p'
        index_other [OF Cons.prems(2), of p' reverse ofType m] by auto
  qed
qed simp

text \<open>
  C29: an element whose parent is among the elements too gets no index from \<^verbatim>\<open>:nth-child\<close> and its relatives, whatever its place and
  the formula, since the mark of its parent keeps its index from being written: it keeps the index that an earlier call may have left,
  and without one it is not selected.
\<close>

theorem nth_nested_missed:
  assumes "parentNode d q = Some p" "p \<in> set nodes"
    "pseudo_nth d nodes formula reverse ofType m = Some (Inr ns, m')"
  shows "nodeIndex m' q = nodeIndex m q \<and> (nodeIndex m q = None \<longrightarrow> q \<notin> set ns)"
proof -
  let ?f = "if formula = ''even'' then ''2n+0'' else if formula = ''odd'' then ''2n+1'' else formula"
  have ne: "nodes \<noteq> []" using assms(2) by auto
  obtain x m1 where x: "index_parents d reverse ofType nodes [] (h_mark nodes m) = Some (x, m1)"
    using assms(3) ne by (cases "index_parents d reverse ofType nodes [] (h_mark nodes m)") (simp_all add: pseudo_nth_def Let_def split_paired_all)
  obtain ps where ps: "x = Inr ps" using assms(3) ne x by (cases x) (simp_all add: pseudo_nth_def Let_def)
  have r: "index_parents d reverse ofType nodes [] (h_mark nodes m) = Some (Inr ps, m1)" using x ps by simp
  have ns: "ns = nth_select ?f nodes m1" and m': "m' = h_unmark ps (h_unmark nodes m1)"
    using assms(3) ne unfolding pseudo_nth_def Let_def r by simp_all
  have "nodeIndex m1 q = nodeIndex m q" using index_parents_other [OF r assms(1)] assms(2) by (simp add: h_mark_def)
  moreover from this have "q \<notin> set ns" if "nodeIndex m q = None"
    using ns that by (auto simp: nth_select_def Let_def split: if_splits option.splits)
  ultimately show ?thesis using m' by (simp add: h_unmark_def)
qed

section \<open>The fuel is enough\<close>

text \<open>What a group captures starts where the pattern was tried, or later.\<close>

lemma ways_caps:
  "(j, d) \<in> set (ways s r i c) \<Longrightarrow> i \<le> length s \<Longrightarrow> x \<in> set d \<Longrightarrow> x \<in> set c \<or> i \<le> fst (snd x)"
proof (induction s r i c arbitrary: j d rule: ways.induct)
  case (3 s a b i c)
  then obtain k e where k: "(k, e) \<in> set (ways s a i c)" "(j, d) \<in> set (ways s b k e)" by auto
  have ik: "i \<le> k" "k \<le> length s" using ways_forward [OF k(1) "3.prems"(2)] by auto
  have "x \<in> set e \<or> k \<le> fst (snd x)" using "3.IH"(2) [OF k(1) refl k(2) ik(2) "3.prems"(3)] .
  then show ?case using "3.IH"(1) [OF k(1) "3.prems"(2)] ik(1) by auto
next
  case (5 s greedy r i c)
  show ?case
  proof (cases "(j, d) = (i, c)")
    case True
    then show ?thesis using "5.prems"(3) by simp
  next
    case False
    with "5.prems"(1) have "(j, d) \<in> set (concat (map (\<lambda>(k, e).
        if i < k \<and> k \<le> length s then ways s (Star greedy r) k e else [])
        (ways s r i (forget (groups r) c))))"
      by (simp add: ways.simps(5) [of s greedy r i c] Let_def del: set_concat split: if_splits)
        (blast+)
    then obtain k e where ke: "(k, e) \<in> set (ways s r i (forget (groups r) c))"
      "(j, d) \<in> set (if i < k \<and> k \<le> length s then ways s (Star greedy r) k e else [])"
      by (simp only: set_concat set_map UN_iff image_iff bex_simps) (auto simp only: prod.case)
    note k = in_if_D [OF ke(2)]
    from k have "x \<in> set e \<or> k \<le> fst (snd x)" using "5.IH"(2) [OF ke(1) refl, of j d] "5.prems"(3) by blast
    moreover have "x \<in> set e \<Longrightarrow> x \<in> set (forget (groups r) c) \<or> i \<le> fst (snd x)"
      using "5.IH"(1) [OF ke(1) "5.prems"(2)] by blast
    moreover have "set (forget (groups r) c) \<subseteq> set c" by (auto simp: forget_def)
    ultimately show ?thesis using k by auto
  qed
next
  case (6 s n r i c)
  then obtain d' where "(j, d') \<in> set (ways s r i c)" "d = (n, (i, j)) # forget [n] d'" by auto
  then show ?case using "6.IH" [of j d'] "6.prems"(2,3) by (auto simp: forget_def)
next
  case (11 s r i c)
  from "11.prems"(1) obtain k where "(k, d) \<in> set (ways s r i c)" by (cases "ways s r i c") auto
  then show ?case using "11.IH" [of k d] "11.prems"(2,3) by simp
next
  case (4 s a b i c)
  from "4.prems"(1) have "(j, d) \<in> set (ways s a i c) \<or> (j, d) \<in> set (ways s b i c)" by simp
  then show ?case using "4.IH"(1) [of j d] "4.IH"(2) [of j d] "4.prems"(2,3) by blast
next
  case (7 s n i c)
  then show ?case by (auto simp: Let_def split: option.splits if_splits)
qed (simp_all split: if_splits)

text \<open>The argument of a pseudo class is shorter than the expression.\<close>

lemma pseudo_argument:
  assumes "regex_match pseudo_re e = Some m"
  shows "length (String_interpret (group m 6)) < length e"
proof -
  let ?r = "Seq (Group 1 pseudo_name) (Seq (Opt (Group 5 (Seq (Lit ''('') (Seq (Group 6 (Star False dot)) (Lit '')'')))))
       (Group 7 (Alt WordB (Alt Eol (Alt (Ch is_space) (Look (Lit '':''))))))) "
  have r: "pseudo_re = Seq Bol (Seq (Lit '':'') ?r)" by (simp only: pseudo_re_def)
  obtain j c ws where w: "ways e (Seq (Lit '':'') ?r) 0 [] = (j, c) # ws"
    and m: "m_groups m = map (\<lambda>(n, (a, b)). (n, take (b - a) (drop a e))) c"
    using assms unfolding r match_Bol by (auto split: list.splits)
  have e: "e \<noteq> []" using w by (cases e) (auto simp: Lit_def)
  have l: "ways e (Lit '':'') 0 [] = [(1, [])]" using w by (cases e) (auto simp: Lit_def split: if_splits)
  have "(j, c) \<in> set (ways e ?r 1 [])" using w l by (simp only: ways.simps(3) list.map case_prod_conv concat.simps append_Nil2) simp
  then have a: "\<And>x. x \<in> set c \<Longrightarrow> 1 \<le> fst (snd x)" using ways_caps [of j c e ?r 1 "[]"] e by (cases e) auto
  show ?thesis
  proof (cases "map_of (m_groups m) 6")
    case None
    then show ?thesis using e by (simp add: group_def String_interpret_def loose_eq_def)
  next
    case (Some t)
    then obtain x where "x \<in> set c" "t = take (snd (snd x) - fst (snd x)) (drop (fst (snd x)) e)"
      unfolding m by (auto dest!: map_of_SomeD)
    then have "length t \<le> length e - 1" using a [of x] by (simp add: min.coboundedI2 diff_le_mono2)
    moreover have "length e - 1 < length e" using e by (cases e) auto
    ultimately show ?thesis using Some by (simp add: group_def interpret_Str)
  qed
qed

lemma first_match_pseudo: "first_match patterns e = Some (Pseudo t v, u) \<Longrightarrow> length (String_interpret v) < length e"
  by (auto simp: patterns_def pseudo_argument split: option.splits)

lemma compile_pseudo: "Pseudo t v \<in> set (compile_loop e) \<Longrightarrow> length (String_interpret v) < length e"
proof (induction e rule: compile_loop.induct)
  case (1 e)
  show ?case
  proof (cases "list_all is_space e \<or> first_match patterns e = None")
    case True
    then have "compile_loop e = []" by (subst compile_loop.simps) auto
    then show ?thesis using "1.prems" by simp
  next
    case False
    then obtain k u where f: "\<not> list_all is_space e" "first_match patterns e = Some (k, u)" by auto
    show ?thesis
    proof (cases "k = Pseudo t v")
      case True
      then show ?thesis using first_match_pseudo f(2) by blast
    next
      case k: False
      then have "length (remove_text u e) < length e" "Pseudo t v \<in> set (compile_loop (remove_text u e))"
        using "1.prems" f by (auto simp: compile_loop.simps [of e] Let_def split: if_splits)
      then show ?thesis using "1.IH" [OF f(1) f(2) refl refl] by (meson less_trans)
    qed
  qed
qed

lemma run_criteria_neg:
  "(\<And>t v. Pseudo t v \<in> set ks \<Longrightarrow> neg (String_interpret v) = neg' (String_interpret v)) \<Longrightarrow>
     run_criteria neg d scope ks n c = run_criteria neg' d scope ks n c"
proof (induction ks arbitrary: n c)
  case (Cons k ks)
  have rest: "run_criteria neg d scope ks n' c' = run_criteria neg' d scope ks n' c'" for n' c'
  proof (rule Cons.IH)
    show "neg (String_interpret v) = neg' (String_interpret v)" if "Pseudo t v \<in> set ks" for t v
      using that by (intro Cons.prems [of t v]) simp
  qed
  have "token neg d scope k n c = token neg' d scope k n c"
  proof (cases k)
    case (Pseudo t v)
    then have "neg (String_interpret v) = neg' (String_interpret v)" by (intro Cons.prems [of t v]) simp
    then show ?thesis using Pseudo by (simp add: token_def h_pseudo_def pseudos_def pseudo_not_def)
  qed (simp_all add: token_def)
  then show ?case using rest by (cases k) simp_all
qed simp

lemma strip_shorter: "length (String_strip e) \<le> length e"
  using length_dropWhile_le [of is_space e] length_dropWhile_le [of is_space "rev (dropWhile is_space e)"]
  by (simp add: String_strip_def strip_left strip_right trim_right_def)

lemma fuel_irrelevant: "length e < k \<Longrightarrow> length e < k' \<Longrightarrow> find_elements k d scope e = find_elements k' d scope e"
proof (induction k arbitrary: k' e)
  case (Suc k)
  then obtain j where j: "k' = Suc j" by (cases k') auto
  have "find_elements k d scope (String_interpret v) = find_elements j d scope (String_interpret v)"
    if "Pseudo t v \<in> set (compile_loop (String_strip e))" for t v
    using Suc.IH [of "String_interpret v" j] compile_pseudo [OF that] strip_shorter [of e] Suc.prems j by simp
  then have "run_criteria (find_elements k d scope) d scope (compile_loop (String_strip e)) None None =
      run_criteria (find_elements j d scope) d scope (compile_loop (String_strip e)) None None"
    by (rule run_criteria_neg)
  then show ?case using j by (simp add: fun_eq_iff compileMatcher_def Let_def split: option.splits)
qed simp

text \<open>
  The number of nested calls that \<^verbatim>\<open>findElements\<close> is allowed is enough, whatever the expression: with more the result is the same.
\<close>

theorem findElements_fuel: "length e < k \<Longrightarrow> find_elements k d scope e = findElements d scope e"
  unfolding findElements_def by (rule fuel_irrelevant) simp_all

section \<open>What the handlers do not do\<close>

text \<open>
  C34: an identifier after \<^verbatim>\<open>>\<close>, \<^verbatim>\<open>+\<close> or a space is found, without regard to the combinator, whenever its element is among the elements before
  the combinator: the loops that test the combinator fall through to the loop for selectors without one.
\<close>

theorem id_ignores_combinator:
  assumes "getElementById d i = Some t" "t \<in> set ns" "c \<noteq> LaterSibling"
  shows "token neg d scope (Id i) (Some ns) (Some c) m = Some (Inr [t], m)"
  using assms by (cases c) (simp_all add: token_def h_id_def Let_def id_among_def p_ret_def)

lemma compile_presence: "compileMatcher ''[href]'' = Some [AttrPresence ''href'']"
  by code_simp

text \<open>
  A selector that starts with the presence of an attribute throws, on every document, since \<^verbatim>\<open>attrPresence\<close> does not take all
  elements when there are none before it, as \<^verbatim>\<open>attr\<close> does.
\<close>

theorem presence_throws: "findElements d scope ''[href]'' m = Some (Inl TypeError, m)"
  by (simp add: findElements_def compile_presence token_def h_attrPresence_def p_bind_def p_throw_def)

section \<open>Examples\<close>

theorem select_finds_witness:
  "\<exists>ns. findElements sample 0 ''div.inner > ul li.a + .b'' no_marks = Some (Inr ns, no_marks) \<and> distinct ns \<and>
     set ns = {n. css_matches sample 0 (Step (Step (Step (First [TagName ''div'', ClassName ''inner'']) Child [TagName ''ul'']) Descendant
       [TagName ''li'', ClassName ''a'']) Adjacent [ClassName ''b'']) n}"
proof -
  let ?s = "Step (Step (Step (First [TagName ''div'', ClassName ''inner'']) Child [TagName ''ul'']) Descendant
       [TagName ''li'', ClassName ''a'']) Adjacent [ClassName ''b'']"
  have "css_text ?s = ''div.inner > ul li.a + .b''" "simple_css ?s" by code_simp+
  then show ?thesis using select_finds [of ?s no_marks sample 0] by (simp add: no_marks_def)
qed

theorem up_nearest_witness:
  "\<exists>r. Element_up sample 6 (Some (Some (Expr ''div.box''), 0)) no_marks = Some (Inr r, no_marks) \<and>
    (\<forall>a. r = Some a \<longleftrightarrow> descendantOf sample 6 a \<and> is_element sample a \<and>
        css_matches sample 0 (First [TagName ''div'', ClassName ''box'']) a \<and>
      (\<forall>b. descendantOf sample 6 b \<and> is_element sample b \<and>
        css_matches sample 0 (First [TagName ''div'', ClassName ''box'']) b \<longrightarrow> b \<le> a))"
proof -
  let ?s = "First [TagName ''div'', ClassName ''box'']"
  have "css_text ?s = ''div.box''" "simple_css ?s" by code_simp+
  then show ?thesis using up_nearest [of ?s no_marks sample 6] by (simp add: no_marks_def)
qed

lemma sample_parents:
  "\<forall>n \<in> set [4, 6, 7]. is_element sample n \<and> parentNode sample n = Some 3"
  by code_simp

theorem nth_child_flat_witness:
  "\<exists>m'. pseudos (\<lambda>_ _. None) sample ''nth-child'' [4, 6, 7] ''2'' no_marks =
      Some (Inr (filter (\<lambda>n. int (position sample n) = digits_val 0 ''2'') [4, 6, 7]), m') \<and> counted m' = {}"
proof -
  have "list_all is_digit ''2''" by code_simp
  then show ?thesis using nth_child_flat [of no_marks "[4, 6, 7]" sample "''2''"] sample_parents by (simp add: no_marks_def)
qed

theorem nth_nested_missed_witness:
  "\<exists>ns m'. pseudo_nth sample [1, 2] ''1'' False False no_marks = Some (Inr ns, m') \<and> nodeIndex m' 2 = None \<and> 2 \<notin> set ns"
proof -
  have p: "parentNode sample 2 = Some 1" "parentNode sample 1 = Some 0" by code_simp+
  have "\<exists>ns m'. pseudo_nth sample [1, 2] ''1'' False False no_marks = Some (Inr ns, m')"
    using p by (simp add: pseudo_nth_def no_marks_def h_mark_def index_spec)
  then obtain ns m' where r: "pseudo_nth sample [1, 2] ''1'' False False no_marks = Some (Inr ns, m')" by blast
  then show ?thesis using nth_nested_missed [OF p(1) _ r] by (simp add: no_marks_def)
qed

theorem id_ignores_combinator_witness:
  "token (\<lambda>_ _. None) [an_element ''DIV'' None []\<lparr>nd_id := ''m''\<rparr>] 0 (Id ''m'') (Some [0]) (Some Child) no_marks = Some (Inr [0], no_marks)"
proof -
  have "getElementById [an_element ''DIV'' None []\<lparr>nd_id := ''m''\<rparr>] ''m'' = Some 0" by code_simp
  then show ?thesis using id_ignores_combinator [of "[an_element ''DIV'' None []\<lparr>nd_id := ''m''\<rparr>]" "''m''" 0 "[0]" Child] by simp
qed

theorem findElements_fuel_witness: "find_elements 50 sample 0 ''li:not(.a)'' = findElements sample 0 ''li:not(.a)''"
  by (rule findElements_fuel) simp

end
