(* ===== verification/Selector_XPath.thy ===== *)
theory Selector_XPath
  imports Selector_Text
begin

text \<open>
  The other half of the class Selector: for browsers with XPath a selector is translated to the text of a path, which
  the browser evaluates.  The translation is modelled as the code has it, and compared with the handlers of the first half.
\<close>

section \<open>The translation\<close>

definition quoted :: "string \<Rightarrow> string" where
  "quoted t = CHR 0x27 # t @ [CHR 0x27]"

fun xpath_combinator :: "combinator \<Rightarrow> string" where
  "xpath_combinator Descendant = ''//*''"
| "xpath_combinator Child = ''/*''"
| "xpath_combinator Adjacent = ''/following-sibling::*[1]''"
| "xpath_combinator LaterSibling = ''/following-sibling::*''"

definition xpath_tagName :: "string \<Rightarrow> string" where
  "xpath_tagName t = (if t = ''*'' then []
     else ''[local-name()='' @ quoted (toLowerCase t) @ '' or local-name()='' @ quoted (toUpperCase t) @ '']'')"

definition xpath_className :: "string \<Rightarrow> string" where
  "xpath_className c = ''[contains(concat('' @ quoted '' '' @ '', @class, '' @ quoted '' '' @ ''), '' @ quoted ('' '' @ c @ '' '') @ '')]''"

definition xpath_operators :: "string \<Rightarrow> string \<Rightarrow> string \<Rightarrow> string option" where
  "xpath_operators p a v = map_of
     [(''='', ''[@'' @ a @ ''='' @ quoted v @ '']''),
      (''!='', ''[@'' @ a @ ''!='' @ quoted v @ '']''),
      (''^='', ''[starts-with(@'' @ a @ '', '' @ quoted v @ '')]''),
      (''$='', ''[substring(@'' @ a @ '', (string-length(@'' @ a @ '') - string-length('' @ quoted v @ '') + 1))='' @ quoted v @ '']''),
      (''*='', ''[contains(@'' @ a @ '', '' @ quoted v @ '')]''),
      (''~='', ''[contains(concat('' @ quoted '' '' @ '', @'' @ a @ '', '' @ quoted '' '' @ ''), '' @ quoted ('' '' @ v @ '' '') @ '')]''),
      (''|='', ''[contains(concat('' @ quoted ''-'' @ '', @'' @ a @ '', '' @ quoted ''-'' @ ''), '' @ quoted (''-'' @ v @ ''-'') @ '')]'')] p"

text \<open>\<^verbatim>\<open>nth\<close>: a missing formula has no \<^verbatim>\<open>match\<close>; one that neither pattern matches gives \<^verbatim>\<open>undefined\<close>.\<close>

definition xpath_nth :: "string \<Rightarrow> jsval \<Rightarrow> exn + jsval" where
  "xpath_nth fragment formula0 = (case formula0 of
     Str f \<Rightarrow>
       (let formula = (if f = ''even'' then ''2n+0'' else if f = ''odd'' then ''2n+1'' else f) in
        if regex_test number_re formula then Inr (Str (''['' @ fragment @ ''= '' @ formula @ '']''))
        else case regex_match nth_re formula of
          None \<Rightarrow> Inr Undefined
        | Some mm \<Rightarrow>
            (let m1 = String_interpret (group mm 1); m2 = String_interpret (group mm 2);
                 a = num_to_string (if m1 = ''-'' then Fin (- 1) else if m1 \<noteq> [] then fl (of_int (signed_val m1)) else Fin 1);
                 b = num_to_string (if m2 \<noteq> [] then fl (of_int (signed_val m2)) else Fin 0)
             in Inr (Str (''[(('' @ fragment @ '' - '' @ b @ '') mod '' @ a @ '' = 0) and (('' @ fragment @ '' - '' @ b @ '') div '' @ a @ '' >= 0)]''))))
   | _ \<Rightarrow> Inl TypeError)"

definition xpath_child :: "string \<Rightarrow> string" where
  "xpath_child way = ''(count(./'' @ way @ ''-sibling::*) + 1) ''"

definition xpath_of_type :: "bool \<Rightarrow> string" where
  "xpath_of_type from_end = (if from_end then ''(last() + 1 - position()) '' else ''position() '')"

text \<open>The pseudo classes without \<^verbatim>\<open>not\<close>\<close>

definition xpath_pseudo :: "string \<Rightarrow> jsval \<Rightarrow> exn + jsval" where
  "xpath_pseudo t v =
     (if t = ''first-child'' then Inr (Str ''[not(preceding-sibling::*)]'')
      else if t = ''last-child'' then Inr (Str ''[not(following-sibling::*)]'')
      else if t = ''only-child'' then Inr (Str ''[not(preceding-sibling::* or following-sibling::*)]'')
      else if t = ''empty'' then Inr (Str (''[count(*) = 0 and (count(text()) = 0 or translate(text(), '' @
        quoted [CHR '' '', CHR 0x09, CHR 0x0D, CHR 0x0A] @ '', '' @ quoted [] @ '') = '' @ quoted [] @ '')]''))
      else if t = ''checked'' then Inr (Str ''[@checked]'')
      else if t = ''disabled'' then Inr (Str ''[@disabled]'')
      else if t = ''enabled'' then Inr (Str ''[not(@disabled)]'')
      else if t = ''nth-child'' then xpath_nth (xpath_child ''preceding'') v
      else if t = ''nth-last-child'' then xpath_nth (xpath_child ''following'') v
      else if t = ''nth-of-type'' then xpath_nth (xpath_of_type False) v
      else if t = ''nth-last-of-type'' then xpath_nth (xpath_of_type True) v
      else if t = ''first-of-type'' then xpath_nth (xpath_of_type False) (Str ''1'')
      else if t = ''last-of-type'' then xpath_nth (xpath_of_type True) (Str ''1'')
      else if t = ''only-of-type'' then
        (case (xpath_nth (xpath_of_type False) (Str ''1''), xpath_nth (xpath_of_type True) (Str ''1'')) of
           (Inr (Str x), Inr (Str y)) \<Rightarrow> Inr (Str (x @ y)) | _ \<Rightarrow> Inl TypeError)
      else Inr (Str []))"

text \<open>
  The text of one criterion.  In \<^verbatim>\<open>:not(...)\<close> the criteria are read anew, each is stripped of its brackets, and they are joined by
  \<^verbatim>\<open>and\<close>; a text that is \<^verbatim>\<open>undefined\<close> has no \<^verbatim>\<open>substring\<close>.
\<close>

definition stripped :: "(exn + jsval) option \<Rightarrow> (exn + string) option" where
  "stripped r = (case r of
     None \<Rightarrow> None
   | Some (Inl e) \<Rightarrow> Some (Inl e)
   | Some (Inr (Str v)) \<Rightarrow> Some (Inr (''('' @ substring v 1 (int (length v) - 1) @ '')''))
   | Some (Inr _) \<Rightarrow> Some (Inl TypeError))"

fun in_order :: "(exn + 'a) option list \<Rightarrow> (exn + 'a list) option" where
  "in_order [] = Some (Inr [])"
| "in_order (r # rs) = (case r of
     None \<Rightarrow> None
   | Some (Inl e) \<Rightarrow> Some (Inl e)
   | Some (Inr x) \<Rightarrow> map_option (map_sum id (\<lambda>xs. x # xs)) (in_order rs))"

fun xpath_of :: "nat \<Rightarrow> criterion \<Rightarrow> (exn + jsval) option" where
  "xpath_of k (CombineWith c) = Some (Inr (Str (xpath_combinator c)))"
| "xpath_of k (TagName t) = Some (Inr (Str (xpath_tagName t)))"
| "xpath_of k (ClassName c) = Some (Inr (Str (xpath_className c)))"
| "xpath_of k (Id i) = Some (Inr (Str (''[@id='' @ quoted i @ '']'')))"
| "xpath_of k (AttrPresence a) = Some (Inr (Str (''[@'' @ a @ '']'')))"
| "xpath_of k (Attr a v p) = Some (case xpath_operators p a v of None \<Rightarrow> Inl TypeError | Some x \<Rightarrow> Inr (Str x))"
| "xpath_of 0 (Pseudo t v) = (if t = ''not'' then None else Some (xpath_pseudo t v))"
| "xpath_of (Suc k) (Pseudo t v) =
     (if t = ''not'' then
        map_option (map_sum id (\<lambda>exclusion. Str (''[not('' @ join '' and '' exclusion @ '')]'')))
          (in_order (map (\<lambda>c. stripped (xpath_of k c)) (compile_loop (String_interpret v))))
      else Some (xpath_pseudo t v))"

definition compileXPathMatcher :: "string \<Rightarrow> (exn + string) option" where
  "compileXPathMatcher expression = (let e = String_strip expression in
     map_option (map_sum id (\<lambda>vs. ''.//*'' @ concat (map String_interpret vs)))
       (in_order (map (xpath_of (length e)) (compile_loop e))))"

text \<open>Selectors with a namespace in an attribute are left to the handlers.\<close>

definition namespace_re :: regex where
  "namespace_re = Seq (Lit ''['') (Seq (Star False (Ch name_char)) (Lit '':''))"

definition uses_xpath :: "bool \<Rightarrow> string \<Rightarrow> bool" where
  "uses_xpath browser_has expression \<longleftrightarrow> browser_has \<and> \<not> regex_test namespace_re (String_strip expression)"

section \<open>Reading a path\<close>

text \<open>
  A reader of the paths of XPath, as far as selectors of tag names, class names and combinators need it, which knows nothing of
  the translation: a relative path is a dot with steps, each introduced by \<^verbatim>\<open>/\<close> or by \<^verbatim>\<open>//\<close>, which goes to the descendants first; a step is an
  axis with \<^verbatim>\<open>*\<close> and predicates.
\<close>

datatype xaxis = ChildAxis | FollowingSibling | PrecedingSibling

datatype xtest =
    PositionIs nat                         \<comment> \<open>\<^verbatim>\<open>[k]\<close>\<close>
  | LocalName string string                \<comment> \<open>\<^verbatim>\<open>[local-name()=a or local-name()=b]\<close>\<close>
  | ClassContains string string string     \<comment> \<open>\<^verbatim>\<open>[contains(concat(u, @class, v), w)]\<close>\<close>

datatype xstep = XStep bool xaxis "xtest list"

fun strip_prefix :: "string \<Rightarrow> string \<Rightarrow> string option" where
  "strip_prefix [] s = Some s"
| "strip_prefix (p # ps) (c # s) = (if p = c then strip_prefix ps s else None)"
| "strip_prefix (p # ps) [] = None"

text \<open>A text between apostrophes.\<close>

definition read_literal :: "string \<Rightarrow> (string \<times> string) option" where
  "read_literal s = Option.bind (strip_prefix [CHR 0x27] s) (\<lambda>r.
     map_option (\<lambda>r'. (takeWhile (\<lambda>c. c \<noteq> CHR 0x27) r, r')) (strip_prefix [CHR 0x27] (dropWhile (\<lambda>c. c \<noteq> CHR 0x27) r)))"

definition read_local :: "string \<Rightarrow> (xtest \<times> string) option" where
  "read_local s = Option.bind (strip_prefix ''[local-name()='' s) (\<lambda>r. Option.bind (read_literal r) (\<lambda>(a, r).
     Option.bind (strip_prefix '' or local-name()='' r) (\<lambda>r. Option.bind (read_literal r) (\<lambda>(b, r).
       map_option (\<lambda>r. (LocalName a b, r)) (strip_prefix '']'' r)))))"

definition read_class :: "string \<Rightarrow> (xtest \<times> string) option" where
  "read_class s = Option.bind (strip_prefix ''[contains(concat('' s) (\<lambda>r. Option.bind (read_literal r) (\<lambda>(u, r).
     Option.bind (strip_prefix '', @class, '' r) (\<lambda>r. Option.bind (read_literal r) (\<lambda>(v, r).
       Option.bind (strip_prefix ''), '' r) (\<lambda>r. Option.bind (read_literal r) (\<lambda>(w, r).
         map_option (\<lambda>r. (ClassContains u v w, r)) (strip_prefix '')]'' r)))))))"

definition read_position :: "string \<Rightarrow> (xtest \<times> string) option" where
  "read_position s = Option.bind (strip_prefix ''['' s) (\<lambda>r.
     if takeWhile is_digit r = [] then None
     else map_option (\<lambda>r'. (PositionIs (nat (digits_val 0 (takeWhile is_digit r))), r')) (strip_prefix '']'' (dropWhile is_digit r)))"

definition read_test :: "string \<Rightarrow> (xtest \<times> string) option" where
  "read_test s = (case read_local s of Some x \<Rightarrow> Some x | None \<Rightarrow> (case read_class s of Some x \<Rightarrow> Some x | None \<Rightarrow> read_position s))"

definition read_axis :: "string \<Rightarrow> (xaxis \<times> string) option" where
  "read_axis s = (case strip_prefix ''following-sibling::*'' s of Some r \<Rightarrow> Some (FollowingSibling, r)
     | None \<Rightarrow> (case strip_prefix ''preceding-sibling::*'' s of Some r \<Rightarrow> Some (PrecedingSibling, r)
     | None \<Rightarrow> map_option (\<lambda>r. (ChildAxis, r)) (strip_prefix ''*'' s)))"

definition read_step :: "string \<Rightarrow> ((bool \<times> xaxis) \<times> string) option" where
  "read_step s = (case strip_prefix ''//'' s of
       Some r \<Rightarrow> map_option (\<lambda>(x, r). ((True, x), r)) (read_axis r)
     | None \<Rightarrow> Option.bind (strip_prefix ''/'' s) (\<lambda>r. map_option (\<lambda>(x, r). ((False, x), r)) (read_axis r)))"

text \<open>Every reader shortens the text.\<close>

lemma strip_prefix_Some: "strip_prefix p s = Some r \<longleftrightarrow> s = p @ r"
  by (induction p s rule: strip_prefix.induct) auto

lemma read_literal_shorter: "read_literal s = Some (a, r) \<Longrightarrow> length r < length s"
proof -
  assume "read_literal s = Some (a, r)"
  then obtain u where u: "s = CHR 0x27 # u" "dropWhile (\<lambda>c. c \<noteq> CHR 0x27) u = CHR 0x27 # r"
    by (auto simp: read_literal_def strip_prefix_Some split: Option.bind_splits)
  then show ?thesis using length_dropWhile_le [of "\<lambda>c. c \<noteq> CHR 0x27" u] by simp
qed

lemma read_test_shorter: "read_test s = Some (t, r) \<Longrightarrow> length r < length s"
proof -
  have "read_local s = Some (t, r) \<Longrightarrow> length r < length s"
    by (fastforce simp: read_local_def strip_prefix_Some split: Option.bind_splits dest!: read_literal_shorter)
  moreover have "read_class s = Some (t, r) \<Longrightarrow> length r < length s"
    by (fastforce simp: read_class_def strip_prefix_Some split: Option.bind_splits dest!: read_literal_shorter)
  moreover have "length r < length s" if p: "read_position s = Some (t, r)"
  proof -
    obtain u where "s = CHR ''['' # u" "dropWhile is_digit u = CHR '']'' # r"
      using p by (auto simp: read_position_def strip_prefix_Some split: Option.bind_splits if_splits)
    then show ?thesis using length_dropWhile_le [of is_digit u] by simp
  qed
  ultimately show "read_test s = Some (t, r) \<Longrightarrow> length r < length s"
    by (auto simp: read_test_def split: option.splits)
qed

lemma read_step_shorter: "read_step s = Some (x, r) \<Longrightarrow> length r < length s"
proof -
  have "read_axis u = Some (y, v) \<Longrightarrow> length v < length u" for u v y
    by (auto simp: read_axis_def strip_prefix_Some split: option.splits)
  then show "read_step s = Some (x, r) \<Longrightarrow> length r < length s"
    by (fastforce simp: read_step_def strip_prefix_Some split: option.splits Option.bind_splits)
qed

function read_tests :: "string \<Rightarrow> xtest list \<times> string" where
  "read_tests s = (case read_test s of None \<Rightarrow> ([], s)
     | Some (t, r) \<Rightarrow> (case read_tests r of (ts, r') \<Rightarrow> (t # ts, r')))"
  by pat_completeness auto
termination
  by (relation "measure length") (auto dest: read_test_shorter)

declare read_tests.simps [simp del]

lemma read_tests_shorter: "length (snd (read_tests s)) \<le> length s"
proof (induction s rule: read_tests.induct)
  case (1 s)
  then show ?case by (subst read_tests.simps) (force split: option.splits prod.splits dest: read_test_shorter)
qed

function read_steps :: "string \<Rightarrow> xstep list option" where
  "read_steps s = (if s = [] then Some [] else case read_step s of None \<Rightarrow> None
     | Some ((b, x), r) \<Rightarrow> map_option (\<lambda>sts. XStep b x (fst (read_tests r)) # sts) (read_steps (snd (read_tests r))))"
  by pat_completeness auto
termination
  by (relation "measure length") (auto dest!: read_step_shorter intro: le_less_trans [OF read_tests_shorter])

declare read_steps.simps [simp del]

definition read_path :: "string \<Rightarrow> xstep list option" where
  "read_path s = Option.bind (strip_prefix ''.'' s) read_steps"

section \<open>What a path selects\<close>

text \<open>
  The meaning of a path, as the standard of XPath has it: every step goes from each node to the list of the nodes on its axis, in the
  order of the axis, which the predicates filter one after the other; a number is the place in the list at that point.
\<close>

fun axis_nodes :: "document \<Rightarrow> xaxis \<Rightarrow> nat \<Rightarrow> nat list" where
  "axis_nodes d ChildAxis m = filter (is_element d) (childNodes d m)"
| "axis_nodes d FollowingSibling m = filter (is_element d) (following d m)"
| "axis_nodes d PrecedingSibling m = filter (is_element d) (rev (preceding d m))"

fun contains_text :: "string \<Rightarrow> string \<Rightarrow> bool" where
  "contains_text [] w \<longleftrightarrow> w = []"
| "contains_text (c # s) w \<longleftrightarrow> starts w (c # s) \<or> contains_text s w"

fun apply_test :: "document \<Rightarrow> xtest \<Rightarrow> nat list \<Rightarrow> nat list" where
  "apply_test d (PositionIs k) ns = (if 1 \<le> k \<and> k \<le> length ns then [ns ! (k - 1)] else [])"
| "apply_test d (LocalName a b) ns = filter (\<lambda>n. nd_tag (d ! n) = a \<or> nd_tag (d ! n) = b) ns"
| "apply_test d (ClassContains u v w) ns = filter (\<lambda>n. contains_text (u @ nd_class (d ! n) @ v) w) ns"

definition apply_tests :: "document \<Rightarrow> xtest list \<Rightarrow> nat list \<Rightarrow> nat list" where
  "apply_tests d ts ns = foldl (\<lambda>ns t. apply_test d t ns) ns ts"

text \<open>The node with its descendants, for \<^verbatim>\<open>//\<close>.\<close>

definition self_or_descendants :: "document \<Rightarrow> nat \<Rightarrow> nat list" where
  "self_or_descendants d m = m # filter (\<lambda>n. descendantOf d n m) [0..<length d]"

fun step_nodes :: "document \<Rightarrow> xstep \<Rightarrow> nat \<Rightarrow> nat list" where
  "step_nodes d (XStep b x ts) m =
     concat (map (\<lambda>k. apply_tests d ts (axis_nodes d x k)) (if b then self_or_descendants d m else [m]))"

definition eval_path :: "document \<Rightarrow> xstep list \<Rightarrow> nat list \<Rightarrow> nat list" where
  "eval_path d sts ms = foldl (\<lambda>ms st. concat (map (step_nodes d st) ms)) ms sts"

section \<open>The two halves agree\<close>

text \<open>A document of HTML: the names of its elements are in upper case, and none is a comment.\<close>

definition html_names :: "document \<Rightarrow> bool" where
  "html_names d \<longleftrightarrow> (\<forall>n. is_element d n \<longrightarrow> toUpperCase (nd_tag (d ! n)) = nd_tag (d ! n) \<and> nd_tag (d ! n) \<noteq> ''!'')"

lemma upper_lower_char:
  assumes "name_char c"
  shows "upper_char (lower_char c) = upper_char c"
proof (cases "is_upper c")
  case True
  then have c: "65 \<le> code c" "code c \<le> 90" by (auto simp: is_upper_def)
  then have l: "lower_char c = char_of (code c + 32)" "code (char_of (code c + 32)) = code c + 32"
    using True by (simp_all add: lower_char_def)
  then have "is_lower (char_of (code c + 32))" using c by (simp add: is_lower_def)
  then have "upper_char (lower_char c) = [c]" using l by (simp add: upper_char_def)
  moreover have "upper_char c = [c]" using c by (simp add: upper_char_def is_lower_def)
  ultimately show ?thesis by simp
next
  case False
  then have "lower_char c = c" using assms by (auto simp: lower_char_def name_char_def is_word_def is_digit_def is_lower_def is_upper_def)
  then show ?thesis by simp
qed

lemma upper_lower: "list_all name_char t \<Longrightarrow> toUpperCase (toLowerCase t) = toUpperCase t"
  unfolding toUpperCase_def toLowerCase_def by (induction t) (simp_all add: upper_lower_char)

text \<open>The tests and steps that selectors stand for, and their text.\<close>

fun tests_of :: "criterion \<Rightarrow> xtest list" where
  "tests_of (TagName t) = (if t = ''*'' then [] else [LocalName (toLowerCase t) (toUpperCase t)])"
| "tests_of (ClassName c) = [ClassContains '' '' '' '' ('' '' @ c @ '' '')]"
| "tests_of _ = []"

fun step_of :: "combinator \<Rightarrow> xtest list \<Rightarrow> xstep" where
  "step_of Descendant ts = XStep True ChildAxis ts"
| "step_of Child ts = XStep False ChildAxis ts"
| "step_of Adjacent ts = XStep False FollowingSibling (PositionIs 1 # ts)"
| "step_of LaterSibling ts = XStep False FollowingSibling ts"

fun steps_of :: "css \<Rightarrow> xstep list" where
  "steps_of (First ks) = [XStep True ChildAxis (concat (map tests_of ks))]"
| "steps_of (Step s c ks) = steps_of s @ [step_of c (concat (map tests_of ks))]"

fun test_text :: "xtest \<Rightarrow> string" where
  "test_text (PositionIs k) = ''[1]''"
| "test_text (LocalName a b) = ''[local-name()='' @ quoted a @ '' or local-name()='' @ quoted b @ '']''"
| "test_text (ClassContains u v w) = ''[contains(concat('' @ quoted u @ '', @class, '' @ quoted v @ ''), '' @ quoted w @ '')]''"

fun step_text :: "xstep \<Rightarrow> string" where
  "step_text (XStep b x ts) = (if b then ''//'' else ''/'') @
     (case x of ChildAxis \<Rightarrow> ''*'' | FollowingSibling \<Rightarrow> ''following-sibling::*'' | PrecedingSibling \<Rightarrow> ''preceding-sibling::*'') @
     concat (map test_text ts)"

text \<open>The texts in the tests have no apostrophes, and the only place is the first.\<close>

fun readable :: "xtest \<Rightarrow> bool" where
  "readable (PositionIs k) \<longleftrightarrow> k = 1"
| "readable (LocalName a b) \<longleftrightarrow> CHR 0x27 \<notin> set a \<union> set b"
| "readable (ClassContains u v w) \<longleftrightarrow> CHR 0x27 \<notin> set u \<union> set v \<union> set w"

subsection \<open>The reader reads the text of steps\<close>

lemma strip_prefix_append [simp]: "strip_prefix p (p @ r) = Some r"
  by (simp add: strip_prefix_Some)

lemma read_literal_quoted [simp]: "CHR 0x27 \<notin> set a \<Longrightarrow> read_literal (quoted a @ r) = Some (a, r)"
proof -
  assume "CHR 0x27 \<notin> set a"
  then have "takeWhile (\<lambda>c. c \<noteq> CHR 0x27) (a @ CHR 0x27 # r) = a" "dropWhile (\<lambda>c. c \<noteq> CHR 0x27) (a @ CHR 0x27 # r) = CHR 0x27 # r"
    by (induction a) auto
  then show ?thesis by (simp add: read_literal_def quoted_def)
qed

lemma read_test_text: "readable t \<Longrightarrow> read_test (test_text t @ r) = Some (t, r)"
proof (cases t)
  case (PositionIs k)
  moreover have "read_position (''[1]'' @ r) = Some (PositionIs 1, r)"
  proof -
    have "is_digit CHR ''1''" "\<not> is_digit CHR '']''" "digits_val 0 ''1'' = 1" by code_simp+
    then show ?thesis by (simp add: read_position_def)
  qed
  ultimately show "readable t \<Longrightarrow> ?thesis" by (simp add: read_test_def read_local_def read_class_def)
next
  case (LocalName a b)
  then have "readable t \<Longrightarrow> read_local (test_text t @ r) = Some (t, r)"
    using read_literal_quoted [of a "'' or local-name()='' @ quoted b @ '']'' @ r"] read_literal_quoted [of b "'']'' @ r"]
    by (simp add: read_local_def)
  then show "readable t \<Longrightarrow> ?thesis" by (simp add: read_test_def)
next
  case (ClassContains u v w)
  then have "readable t \<Longrightarrow> read_class (test_text t @ r) = Some (t, r)"
    using read_literal_quoted [of u "'', @class, '' @ quoted v @ ''), '' @ quoted w @ '')]'' @ r"]
      read_literal_quoted [of v "''), '' @ quoted w @ '')]'' @ r"] read_literal_quoted [of w "'')]'' @ r"]
    by (simp add: read_class_def)
  moreover have "read_local (test_text t @ r) = None" using ClassContains by (simp add: read_local_def)
  ultimately show "readable t \<Longrightarrow> ?thesis" by (simp add: read_test_def)
qed

definition stops_tests :: "string \<Rightarrow> bool" where
  "stops_tests r \<longleftrightarrow> r = [] \<or> (\<exists>s. r = CHR ''/'' # s)"

lemma read_tests_text:
  "list_all readable ts \<Longrightarrow> stops_tests r \<Longrightarrow> read_tests (concat (map test_text ts) @ r) = (ts, r)"
proof (induction ts)
  case Nil
  then have "read_test r = None"
    by (auto simp: stops_tests_def read_test_def read_local_def read_class_def read_position_def)
  then show ?case by (simp add: read_tests.simps)
next
  case (Cons t ts)
  then show ?case by (subst read_tests.simps) (simp add: read_test_text)
qed

fun step_readable :: "xstep \<Rightarrow> bool" where
  "step_readable (XStep b x ts) = list_all readable ts"

lemma read_step_text:
  "read_step ((if b then ''//'' else ''/'') @
     (case x of ChildAxis \<Rightarrow> ''*'' | FollowingSibling \<Rightarrow> ''following-sibling::*'' | PrecedingSibling \<Rightarrow> ''preceding-sibling::*'') @ r) =
   Some ((b, x), r)"
  by (cases x; cases b) (simp_all add: read_step_def read_axis_def)

lemma read_steps_text: "list_all step_readable sts \<Longrightarrow> read_steps (concat (map step_text sts)) = Some sts"
proof (induction sts)
  case Nil
  show ?case by (simp add: read_steps.simps)
next
  case (Cons st sts)
  obtain b x ts where st: "st = XStep b x ts" by (cases st)
  let ?r = "concat (map step_text sts)"
  have "stops_tests ?r"
  proof (cases sts)
    case (Cons s sts')
    moreover have "\<exists>u. step_text s = CHR ''/'' # u" by (cases s, rename_tac b x ts, case_tac b) auto
    then obtain u where "step_text s = CHR ''/'' # u" by blast
    ultimately show ?thesis by (simp add: stops_tests_def)
  qed (simp add: stops_tests_def)
  then have "read_tests (concat (map test_text ts) @ ?r) = (ts, ?r)" using read_tests_text Cons.prems st by simp
  then show ?case using Cons read_step_text [of b x "concat (map test_text ts) @ ?r"] st
    by (subst read_steps.simps) simp
qed

subsection \<open>The meaning of the steps\<close>

lemma contains_text_iff: "contains_text s w \<longleftrightarrow> (\<exists>u v. s = u @ w @ v)"
proof (induction s)
  case (Cons c s)
  have st: "starts w t \<longleftrightarrow> (\<exists>v. t = w @ v)" for t by (induction w t rule: starts.induct) auto
  show ?case by (auto simp: Cons st Cons_eq_append_conv)
qed simp

fun passes :: "document \<Rightarrow> xtest \<Rightarrow> nat \<Rightarrow> bool" where
  "passes d (LocalName a b) n = (nd_tag (d ! n) = a \<or> nd_tag (d ! n) = b)"
| "passes d (ClassContains u v w) n = contains_text (u @ nd_class (d ! n) @ v) w"
| "passes d (PositionIs k) n = True"

lemma apply_tests_filter:
  "list_all (\<lambda>t. \<forall>k. t \<noteq> PositionIs k) ts \<Longrightarrow> apply_tests d ts ns = filter (\<lambda>n. list_all (\<lambda>t. passes d t n) ts) ns"
proof (induction ts arbitrary: ns)
  case (Cons t ts)
  then have "apply_test d t ns = filter (\<lambda>n. passes d t n) ns" by (cases t) (auto intro!: filter_cong)
  then show ?case using Cons by (simp add: apply_tests_def conj_commute)
qed (simp add: apply_tests_def)

lemma tests_of_places: "t \<in> set (tests_of k) \<Longrightarrow> t \<noteq> PositionIs j"
  by (cases k) (auto split: if_splits)

lemma compound_places: "list_all (\<lambda>t. \<forall>j. t \<noteq> PositionIs j) (concat (map tests_of ks))"
  using tests_of_places by (fastforce simp: list_all_iff)

lemma apply_first: "apply_test d (PositionIs 1) ns = (case ns of [] \<Rightarrow> [] | n # _ \<Rightarrow> [n])"
  by (cases ns) simp_all

lemma first_find: "set (case filter p xs of [] \<Rightarrow> [] | n # _ \<Rightarrow> [n]) = {n. find p xs = Some n}"
  by (induction xs) auto

lemma in_document: "parentNode d n = Some p \<Longrightarrow> n < length d"
  by (auto simp: parentNode_def split: if_splits)

lemma descendant_child: "descendantOf d n m \<longleftrightarrow> (\<exists>k. parentNode d n = Some k \<and> (k = m \<or> descendantOf d k m))"
  by (subst descendantOf.simps) (auto split: option.splits)

lemma set_self_or_descendants: "set (self_or_descendants d m) = {k. k = m \<or> descendantOf d k m}"
proof -
  have "descendantOf d k m \<Longrightarrow> k < length d" for k using descendant_child [of d k m] in_document by blast
  then show ?thesis by (auto simp: self_or_descendants_def)
qed

text \<open>The nodes of a step are those that stand in the relation of the combinator and pass the tests.\<close>

lemma adjacent_nodes:
  assumes "list_all (\<lambda>t. \<forall>j. t \<noteq> PositionIs j) ts"
  shows "set (step_nodes d (step_of Adjacent ts) m) = {n. related d Adjacent m n \<and> list_all (\<lambda>t. passes d t n) ts}"
proof -
  let ?first = "case axis_nodes d FollowingSibling m of [] \<Rightarrow> [] | n # _ \<Rightarrow> [n]"
  have "apply_tests d (PositionIs 1 # ts) ns = apply_tests d ts (apply_test d (PositionIs 1) ns)" for ts ns
    by (simp add: apply_tests_def del: apply_test.simps)
  then have "step_nodes d (step_of Adjacent ts) m = filter (\<lambda>n. list_all (\<lambda>t. passes d t n) ts) ?first"
    by (simp add: apply_tests_filter [OF assms] apply_first [unfolded One_nat_def] del: apply_test.simps axis_nodes.simps)
  moreover have "set ?first = {n. related d Adjacent m n}"
    using first_find [of "is_element d" "following d m"] related_adjacent [of d m] unfolding nextElementSibling_find
    by (simp del: related.simps)
  ultimately show ?thesis by (simp only: set_filter) blast
qed

lemma descendant_nodes:
  assumes "list_all (\<lambda>t. \<forall>j. t \<noteq> PositionIs j) ts"
  shows "set (step_nodes d (step_of Descendant ts) m) = {n. related d Descendant m n \<and> list_all (\<lambda>t. passes d t n) ts}"
proof (intro set_eqI)
  fix n
  have "n \<in> set (step_nodes d (step_of Descendant ts) m) \<longleftrightarrow> (\<exists>k. (k = m \<or> descendantOf d k m) \<and>
      n \<in> set (childNodes d k) \<and> is_element d n \<and> list_all (\<lambda>t. passes d t n) ts)"
    by (simp add: apply_tests_filter [OF assms] set_self_or_descendants) blast
  also have "\<dots> \<longleftrightarrow> (\<exists>k. parentNode d n = Some k \<and> (k = m \<or> descendantOf d k m)) \<and> is_element d n \<and> list_all (\<lambda>t. passes d t n) ts"
    using in_document [of d n] by (simp add: childNodes_def) blast
  also have "\<dots> \<longleftrightarrow> n \<in> {n. related d Descendant m n \<and> list_all (\<lambda>t. passes d t n) ts}"
    unfolding descendant_child [symmetric] by auto
  finally show "n \<in> set (step_nodes d (step_of Descendant ts) m) \<longleftrightarrow>
    n \<in> {n. related d Descendant m n \<and> list_all (\<lambda>t. passes d t n) ts}" .
qed

lemma step_nodes_related:
  assumes "html_names d" "list_all (\<lambda>t. \<forall>j. t \<noteq> PositionIs j) ts"
  shows "set (step_nodes d (step_of c ts) m) = {n. related d c m n \<and> list_all (\<lambda>t. passes d t n) ts}"
proof (cases c)
  case LaterSibling
  then show ?thesis using set_following [of d m] by (auto simp: apply_tests_filter [OF assms(2)])
next
  case Child
  then show ?thesis using assms(1) in_document [of d _ m]
    by (auto simp: apply_tests_filter [OF assms(2)] childNodes_def html_names_def)
qed (use adjacent_nodes [OF assms(2)] descendant_nodes [OF assms(2)] in \<open>simp_all only:\<close>)

lemma tests_hold:
  assumes "html_names d" "is_element d n" "simple_head k"
  shows "list_all (\<lambda>t. passes d t n) (tests_of k) \<longleftrightarrow> holds d k n"
proof (cases k)
  case (TagName t)
  have u: "toUpperCase (nd_tag (d ! n)) = nd_tag (d ! n)" using assms(1,2) by (simp add: html_names_def)
  show ?thesis
  proof (cases "t = ''*''")
    case False
    then have "toUpperCase (toLowerCase t) = toUpperCase t" using assms(3) TagName upper_lower by (simp add: simple_name_def)
    then have "nd_tag (d ! n) = toLowerCase t \<or> nd_tag (d ! n) = toUpperCase t \<longleftrightarrow> toUpperCase (nd_tag (d ! n)) = toUpperCase t"
      using u by metis
    then show ?thesis using TagName False by simp
  qed (use TagName in simp)
next
  case (ClassName c)
  then have "class_name c" using assms(3) simple_class_name by simp
  then have "CHR '' '' \<notin> set c" by (simp add: class_name_def)
  then show ?thesis
    using ClassName split_chr_between [of "CHR '' ''" c "nd_class (d ! n)"] by (simp add: between_def contains_text_iff)
qed (use assms in simp_all)

lemma compound_heads: "simple_compound ks \<Longrightarrow> k \<in> set ks \<Longrightarrow> simple_head k"
  using simple_class_head by (auto simp: simple_compound_def list_all_iff split: list.splits)

lemma compound_tests:
  assumes "html_names d" "is_element d n" "simple_compound ks"
  shows "list_all (\<lambda>t. passes d t n) (concat (map tests_of ks)) \<longleftrightarrow> list_all (\<lambda>k. holds d k n) ks"
  using compound_heads [OF assms(3)] tests_hold [OF assms(1,2)] by (induction ks) auto

lemma related_element: "related d c m n \<Longrightarrow> is_element d n"
  by (cases c) simp_all

lemma steps_match:
  assumes "html_names d"
  shows "simple_css s \<Longrightarrow> set (eval_path d (steps_of s) [scope]) = {n. css_matches d scope s n}"
proof (induction s)
  case (First ks)
  have "eval_path d (steps_of (First ks)) [scope] = step_nodes d (step_of Descendant (concat (map tests_of ks))) scope"
    by (simp add: eval_path_def)
  then show ?case
    using First compound_tests [OF assms, of _ ks] by (simp only: descendant_nodes [OF compound_places]) auto
next
  case (Step s c ks)
  then have "set (eval_path d (steps_of (Step s c ks)) [scope]) =
      {n. \<exists>m. css_matches d scope s m \<and> related d c m n \<and> list_all (\<lambda>t. passes d t n) (concat (map tests_of ks))}"
    using step_nodes_related [OF assms compound_places [of ks], of c] by (auto simp: eval_path_def simp del: step_nodes.simps related.simps)
  also have "\<dots> = {n. css_matches d scope (Step s c ks) n}"
    using compound_tests [OF assms, of _ ks] related_element Step.prems by (auto simp del: related.simps)
  finally show ?case .
qed

subsection \<open>The text of the translation\<close>

lemma name_no_quote: "list_all name_char t \<Longrightarrow> CHR 0x27 \<notin> set t"
proof -
  have "\<not> name_char CHR 0x27" by code_simp
  then show "list_all name_char t \<Longrightarrow> CHR 0x27 \<notin> set t" by (auto simp: list_all_iff)
qed

lemma case_no_quote:
  assumes "list_all name_char t"
  shows "CHR 0x27 \<notin> set (toLowerCase t)" "CHR 0x27 \<notin> set (toUpperCase t)"
proof -
  have q: "x = CHR 0x27 \<Longrightarrow> code x = 39" for x by simp
  have "lower_char c \<noteq> CHR 0x27 \<and> CHR 0x27 \<notin> set (upper_char c)" if c: "name_char c" for c
  proof -
    have "lower_char c = c \<or> lower_char c = char_of (code c + 32) \<and> 65 \<le> code c \<and> code c \<le> 90"
      "upper_char c = [c] \<or> upper_char c = [char_of (code c - 32)] \<and> 97 \<le> code c \<and> code c \<le> 122"
      using c by (auto simp: lower_char_def upper_char_def name_char_def is_word_def is_digit_def is_lower_def is_upper_def)
    moreover have "code c \<noteq> 39" using c by (auto simp: name_char_def is_word_def is_digit_def is_lower_def is_upper_def)
    moreover have "65 \<le> code c \<and> code c \<le> 90 \<Longrightarrow> code (char_of (code c + 32)) \<noteq> 39"
      "97 \<le> code c \<and> code c \<le> 122 \<Longrightarrow> code (char_of (code c - 32)) \<noteq> 39"
      using mod_less [of "code c - 32" 256] by auto
    ultimately show ?thesis using q by (metis empty_iff list.set(1) set_ConsD)
  qed
  then have "\<forall>c \<in> set t. lower_char c \<noteq> CHR 0x27" "\<forall>c \<in> set t. CHR 0x27 \<notin> set (upper_char c)"
    using assms by (simp_all add: list_all_iff)
  then show "CHR 0x27 \<notin> set (toLowerCase t)" "CHR 0x27 \<notin> set (toUpperCase t)"
    by (induction t) (simp_all add: toLowerCase_def toUpperCase_def eq_commute [of "CHR 0x27"])
qed

lemma head_readable: "simple_head k \<Longrightarrow> list_all readable (tests_of k)"
proof (cases k)
  case (TagName t)
  moreover assume "simple_head k"
  ultimately show ?thesis using case_no_quote [of t] by (auto simp: simple_name_def)
next
  case (ClassName c)
  moreover assume "simple_head k"
  ultimately show ?thesis using name_no_quote [of c] by (auto simp: simple_name_def)
qed simp_all

lemma compound_readable: "simple_compound ks \<Longrightarrow> list_all readable (concat (map tests_of ks))"
  using compound_heads [of ks] head_readable by (fastforce simp: list_all_iff)

lemma steps_readable: "simple_css s \<Longrightarrow> list_all step_readable (steps_of s)"
proof (induction s)
  case (Step s c ks)
  then show ?case using compound_readable [of ks] by (cases c) simp_all
qed (simp add: compound_readable)

lemma in_order_texts: "(\<And>x. x \<in> set xs \<Longrightarrow> f x = Some (Inr (g x))) \<Longrightarrow> in_order (map f xs) = Some (Inr (map g xs))"
  by (induction xs) simp_all

text \<open>The text of a criterion of a simple selector.\<close>

fun criterion_text :: "criterion \<Rightarrow> string" where
  "criterion_text (CombineWith c) = xpath_combinator c"
| "criterion_text k = concat (map test_text (tests_of k))"

lemma xpath_simple: "simple_head k \<or> (\<exists>c. k = CombineWith c) \<Longrightarrow> xpath_of j k = Some (Inr (Str (criterion_text k)))"
  by (cases k) (auto simp: xpath_tagName_def xpath_className_def)

lemma simple_criteria: "simple_css s \<Longrightarrow> k \<in> set (criteria_of s) \<Longrightarrow> simple_head k \<or> (\<exists>c. k = CombineWith c)"
  by (induction s) (auto dest: compound_heads)

lemma compound_text:
  "simple_compound ks \<Longrightarrow> concat (map criterion_text ks) = concat (map test_text (concat (map tests_of ks)))"
proof -
  assume "simple_compound ks"
  then have "\<And>k. k \<in> set ks \<Longrightarrow> criterion_text k = concat (map test_text (tests_of k))"
    using compound_heads by (metis criterion.exhaust criterion_text.simps simple_class.simps simple_head.simps)
  then show ?thesis by (induction ks) simp_all
qed

text \<open>The text of each combinator is the text of its step.\<close>

lemma combinator_text: "xpath_combinator c @ concat (map test_text ts) = step_text (step_of c ts)"
  by (cases c) simp_all

lemma steps_text: "simple_css s \<Longrightarrow> ''//*'' @ concat (map criterion_text (criteria_of s)) = concat (map step_text (steps_of s))"
proof (induction s)
  case (Step s c ks)
  then have "''//*'' @ concat (map criterion_text (criteria_of s)) = concat (map step_text (steps_of s))" by simp
  then show ?case using Step.prems combinator_text [of c "concat (map tests_of ks)"]
    by (simp add: compound_text flip: append_assoc) 
qed (simp add: compound_text)

lemma compile_path:
  assumes "simple_css s"
  shows "compileXPathMatcher (css_text s) = Some (Inr (CHR ''.'' # concat (map step_text (steps_of s))))"
proof -
  have "compile_loop (css_text s) = criteria_of s"
    using compile_css [OF assms, of "[]"] by (simp add: ends_here_def compile_loop.simps [of "[]"])
  moreover have "in_order (map (xpath_of j) (criteria_of s)) = Some (Inr (map (\<lambda>k. Str (criterion_text k)) (criteria_of s)))" for j
    by (rule in_order_texts) (use xpath_simple simple_criteria [OF assms] in blast)
  ultimately show ?thesis
    using steps_text [OF assms] by (simp add: compileXPathMatcher_def strip_css [OF assms] Let_def interpret_Str comp_def)
qed

text \<open>
  C6: on a document of HTML the two halves of the class agree on selectors of tag names, class names and combinators: read as a path
  of XPath, the text that \<^verbatim>\<open>compileXPathMatcher\<close> makes selects exactly the elements that the handlers find.
\<close>

theorem xpath_agrees:
  assumes "simple_css s" "html_names d" "counted m = {}"
  shows "\<exists>t p ns. compileXPathMatcher (css_text s) = Some (Inr t) \<and> read_path t = Some p \<and>
    findElements d scope (css_text s) m = Some (Inr ns, m) \<and> set ns = set (eval_path d p [scope])"
proof -
  have "read_path (CHR ''.'' # concat (map step_text (steps_of s))) = Some (steps_of s)"
    using read_steps_text [OF steps_readable [OF assms(1)]] by (simp add: read_path_def)
  then show ?thesis
    using compile_path [OF assms(1)] find_simple [OF assms(1,3), of d scope] steps_match [OF assms(2,1), of scope] by auto
qed

theorem xpath_agrees_witness:
  "\<exists>t p ns. compileXPathMatcher ''ul > li.a + li'' = Some (Inr t) \<and> read_path t = Some p \<and>
    findElements sample 0 ''ul > li.a + li'' no_marks = Some (Inr ns, no_marks) \<and> set ns = set (eval_path sample p [0])"
proof -
  let ?s = "Step (Step (First [TagName ''ul'']) Child [TagName ''li'', ClassName ''a'']) Adjacent [TagName ''li'']"
  have "css_text ?s = ''ul > li.a + li''" "simple_css ?s" by code_simp+
  moreover have "list_all (\<lambda>e. toUpperCase (nd_tag e) = nd_tag e \<and> nd_tag e \<noteq> ''!'') (filter (\<lambda>e. nodeType e = 1) sample)" by code_simp
  then have "html_names sample" by (auto simp: html_names_def is_element_def list_all_iff)
  ultimately show ?thesis using xpath_agrees [of ?s sample no_marks 0] by (simp add: no_marks_def)
qed

section \<open>The translation ends\<close>

lemma in_order_returns: "(\<And>r. r \<in> set rs \<Longrightarrow> r \<noteq> None) \<Longrightarrow> in_order rs \<noteq> None"
  by (induction rs) (auto split: option.splits sum.splits)

lemma stripped_returns: "r \<noteq> None \<Longrightarrow> stripped r \<noteq> None"
  by (auto simp: stripped_def split: option.splits sum.splits jsval.splits)

lemma xpath_of_returns: "c \<in> set (compile_loop e) \<Longrightarrow> length e \<le> k \<Longrightarrow> xpath_of k c \<noteq> None"
proof (induction k arbitrary: e c)
  case 0
  then show ?case by (simp add: compile_loop.simps [of "[]"])
next
  case (Suc k)
  show ?case
  proof (cases "\<exists>v. c = Pseudo ''not'' v")
    case True
    then obtain v where v: "c = Pseudo ''not'' v" by blast
    then have "length (String_interpret v) \<le> k" using compile_pseudo Suc.prems by fastforce
    then have "in_order (map (\<lambda>c. stripped (xpath_of k c)) (compile_loop (String_interpret v))) \<noteq> None"
      using Suc.IH [of _ "String_interpret v"] stripped_returns by (intro in_order_returns) auto
    then show ?thesis using v by simp
  qed (cases c; simp)
qed

text \<open>The translation returns a text or throws, for every expression, also with nested \<^verbatim>\<open>:not(...)\<close>.\<close>

theorem xpath_returns: "\<exists>r. compileXPathMatcher expression = Some r"
proof -
  have "in_order (map (xpath_of (length e)) (compile_loop e)) \<noteq> None" for e
    using xpath_of_returns [of _ e "length e"] by (intro in_order_returns) auto
  then show ?thesis by (simp add: compileXPathMatcher_def Let_def)
qed

section \<open>Where they do not agree\<close>

text \<open>
  The operator for prefixes of languages ignores case in the handlers and not in XPath: of two elements with the languages
  \<^verbatim>\<open>en\<close> and \<^verbatim>\<open>EN\<close> the handlers select both with either.
\<close>

theorem language_case: "operators ''|='' = Some f \<Longrightarrow> f ''EN'' ''en'' \<and> f ''en'' ''EN''"
proof -
  have "String_include (''-'' @ toUpperCase ''EN'' @ ''-'') (''-'' @ toUpperCase ''en'' @ ''-'')"
    "String_include (''-'' @ toUpperCase ''en'' @ ''-'') (''-'' @ toUpperCase ''EN'' @ ''-'')" by code_simp+
  then show "operators ''|='' = Some f \<Longrightarrow> f ''EN'' ''en'' \<and> f ''en'' ''EN''" by (auto simp: operators_def)
qed

end
