(* ===== verification/Prototype_Style.thy ===== *)
theory Prototype_Style
  imports Prototype_Element
begin

text \<open>
  Methods of elements that change them, from \<^verbatim>\<open>htdocs/prototype.js\<close>: styles, visibility, dimensions, positioning, clipping, the removal of white
  space, and the insertion of markup.  The inline style of an element keeps the keywords and lengths that the methods write to it;
  what it keeps of a value of the user, and what the browser computes from it, styles and sizes, are parameters.
\<close>

section \<open>Styles\<close>

text \<open>An element with what the methods read and write; \<^verbatim>\<open>_overflow\<close> is empty when it is not set.\<close>

record styled =
  inline :: "string \<Rightarrow> string"
  madePositioned :: bool
  clip_overflow :: string

text \<open>
  The browser: the computed style, if any, and the sizes \<^verbatim>\<open>offsetWidth\<close>, \<^verbatim>\<open>offsetHeight\<close>, \<^verbatim>\<open>clientWidth\<close> and \<^verbatim>\<open>clientHeight\<close> of an
  element with a given inline style.
\<close>

record browser =
  computed :: "(string \<Rightarrow> string) \<Rightarrow> (string \<Rightarrow> string) option"
  offset_size :: "(string \<Rightarrow> string) \<Rightarrow> int \<times> int"
  client_size :: "(string \<Rightarrow> string) \<Rightarrow> int \<times> int"
  opera :: bool

text \<open>
  The methods write keywords, lengths and texts that were read from the same style, which a style keeps as they
  are.
\<close>

definition set_inline :: "string \<Rightarrow> string \<Rightarrow> 'a styled_scheme \<Rightarrow> 'a styled_scheme" where
  "set_inline p v e = e\<lparr>inline := (inline e)(p := v)\<rparr>"

text \<open>
  A value of the user: \<^verbatim>\<open>null\<close> is the empty text, and \<open>assign\<close> is what the browser makes of a text that is assigned to a
  property: it may ignore or normalise it, and may change other properties with it.
\<close>

type_synonym style_assignment = "string \<Rightarrow> string \<Rightarrow> (string \<Rightarrow> string) \<Rightarrow> (string \<Rightarrow> string)"

definition style_value :: "jsval \<Rightarrow> string" where
  "style_value v = (if v = Null then [] else to_str v)"

definition write_style :: "style_assignment \<Rightarrow> string \<Rightarrow> string \<Rightarrow> 'a styled_scheme \<Rightarrow> 'a styled_scheme" where
  "write_style assign p t e = e\<lparr>inline := assign p t (inline e)\<rparr>"

definition visible :: "styled \<Rightarrow> bool" where
  "visible e \<longleftrightarrow> inline e ''display'' \<noteq> ''none''"

definition hide :: "styled \<Rightarrow> styled" where
  "hide e = set_inline ''display'' ''none'' e"

definition show_element :: "styled \<Rightarrow> styled" where
  "show_element e = set_inline ''display'' [] e"

definition toggle :: "styled \<Rightarrow> styled" where
  "toggle e = (if visible e then hide e else show_element e)"

definition getStyle :: "browser \<Rightarrow> styled \<Rightarrow> string \<Rightarrow> jsval" where
  "getStyle b e style0 =
     (let style = (if style0 = ''float'' then ''cssFloat'' else String_camelize style0);
          value = Str (inline e style);
          value = (if truthy value then value
                   else case computed b (inline e) of Some css \<Rightarrow> Str (css style) | None \<Rightarrow> Null)
      in if style = ''opacity'' then (if truthy value then Num (parseFloat (to_str value)) else Num (Fin 1))
         else if value = Str ''auto'' then Null else value)"

text \<open>The version of Opera asks for the position first.\<close>

definition getStyle_opera :: "browser \<Rightarrow> styled \<Rightarrow> string \<Rightarrow> jsval" where
  "getStyle_opera b e style =
     (if style \<in> {''left'', ''top'', ''right'', ''bottom''} \<and> getStyle b e ''position'' = Str ''static'' then Null
      else getStyle b e style)"

definition getOpacity :: "browser \<Rightarrow> styled \<Rightarrow> jsval" where
  "getOpacity b e = getStyle b e ''opacity''"

text \<open>\<^verbatim>\<open>value < 0.00001\<close> compares numbers.\<close>

definition tiny :: "jsval \<Rightarrow> bool" where
  "tiny v \<longleftrightarrow> to_num v < Fin (1 / 100000)"

definition setOpacity :: "style_assignment \<Rightarrow> jsval \<Rightarrow> styled \<Rightarrow> styled" where
  "setOpacity assign v e = write_style assign ''opacity''
     (if loose_eq v (Num (Fin 1)) \<or> v = Str [] then [] else if tiny v then ''0'' else style_value v) e"

definition setOpacity_gecko :: "style_assignment \<Rightarrow> jsval \<Rightarrow> styled \<Rightarrow> styled" where
  "setOpacity_gecko assign v e = write_style assign ''opacity''
     (if loose_eq v (Num (Fin 1)) then ''0.999999'' else if v = Str [] then [] else if tiny v then ''0'' else style_value v) e"

text \<open>\<open>styleFloat\<close>: whether the style has a property of that name.\<close>

definition style_property :: "bool \<Rightarrow> bool \<Rightarrow> string \<Rightarrow> string" where
  "style_property styleFloat camelized p =
     (if p = ''float'' \<or> p = ''cssFloat'' then (if styleFloat then ''styleFloat'' else ''cssFloat'')
      else if camelized then p else String_camelize p)"

definition setStyle :: "style_assignment \<Rightarrow> bool \<Rightarrow> (string \<times> jsval) list \<Rightarrow> bool \<Rightarrow> styled \<Rightarrow> styled" where
  "setStyle assign styleFloat styles camelized e =
     foldl (\<lambda>e (p, v). if p = ''opacity'' then setOpacity assign v e
        else write_style assign (style_property styleFloat camelized p) (style_value v) e) e styles"

definition getDimensions :: "browser \<Rightarrow> styled \<Rightarrow> (int \<times> int) \<times> styled" where
  "getDimensions b e =
     (let display = getStyle b e ''display'' in
      if display \<noteq> Str ''none'' \<and> display \<noteq> Null then (offset_size b (inline e), e)
      else
        let originalVisibility = inline e ''visibility'';
            originalPosition = inline e ''position'';
            originalDisplay = inline e ''display'';
            e1 = set_inline ''display'' ''block'' (set_inline ''position'' ''absolute'' (set_inline ''visibility'' ''hidden'' e));
            size0 = client_size b (inline e1)
        in (size0, set_inline ''visibility'' originalVisibility (set_inline ''position'' originalPosition
              (set_inline ''display'' originalDisplay e1))))"

definition getWidth :: "browser \<Rightarrow> styled \<Rightarrow> int \<times> styled" where
  "getWidth b e = (case getDimensions b e of (s, e') \<Rightarrow> (fst s, e'))"

definition getHeight :: "browser \<Rightarrow> styled \<Rightarrow> int \<times> styled" where
  "getHeight b e = (case getDimensions b e of (s, e') \<Rightarrow> (snd s, e'))"

definition makePositioned :: "browser \<Rightarrow> styled \<Rightarrow> styled" where
  "makePositioned b e =
     (let pos = getStyle b e ''position'' in
      if pos = Str ''static'' \<or> \<not> truthy pos then
        (let e1 = set_inline ''position'' ''relative'' (e\<lparr>madePositioned := True\<rparr>) in
         if opera b then set_inline ''left'' ''0'' (set_inline ''top'' ''0'' e1) else e1)
      else e)"

definition undoPositioned :: "styled \<Rightarrow> styled" where
  "undoPositioned e =
     (if madePositioned e then
        set_inline ''position'' [] (set_inline ''top'' [] (set_inline ''left'' [] (set_inline ''bottom'' []
          (set_inline ''right'' [] (e\<lparr>madePositioned := False\<rparr>)))))
      else e)"

definition makeClipping :: "browser \<Rightarrow> styled \<Rightarrow> styled" where
  "makeClipping b e =
     (if clip_overflow e \<noteq> [] then e
      else let e1 = e\<lparr>clip_overflow := (if inline e ''overflow'' \<noteq> [] then inline e ''overflow'' else ''auto'')\<rparr>;
               current = getStyle b e1 ''overflow''
           in if (if truthy current then current else Str ''visible'') \<noteq> Str ''hidden''
              then set_inline ''overflow'' ''hidden'' e1 else e1)"

definition undoClipping :: "styled \<Rightarrow> styled" where
  "undoClipping e =
     (if clip_overflow e = [] then e
      else set_inline ''overflow'' (if clip_overflow e = ''auto'' then [] else clip_overflow e) e\<lparr>clip_overflow := []\<rparr>)"

section \<open>Children\<close>

text \<open>\<^verbatim>\<open>cleanWhitespace\<close> on the children of an element; \<open>blank_text\<close> tells the text nodes without other characters.\<close>

definition blank_text :: "document \<Rightarrow> (nat \<Rightarrow> string) \<Rightarrow> nat \<Rightarrow> bool" where
  "blank_text d nodeValue n \<longleftrightarrow> nodeType (d ! n) = 3 \<and> list_all is_space (nodeValue n)"

text \<open>The loop reads the next sibling before it removes the node.\<close>

fun clean_loop :: "(nat \<Rightarrow> bool) \<Rightarrow> nat list \<Rightarrow> nat list \<Rightarrow> nat list" where
  "clean_loop p [] children = children"
| "clean_loop p (node # rest) children = clean_loop p rest (if p node then remove1 node children else children)"

definition cleanWhitespace :: "document \<Rightarrow> (nat \<Rightarrow> string) \<Rightarrow> nat list \<Rightarrow> nat list" where
  "cleanWhitespace d nodeValue children = clean_loop (blank_text d nodeValue) children children"

text \<open>\<^verbatim>\<open>insertBefore\<close> of the nodes of a fragment; without a node to insert before, they go to the end.\<close>

definition insertBefore :: "nat list \<Rightarrow> nat option \<Rightarrow> nat list \<Rightarrow> nat list" where
  "insertBefore fragment ref children = (case ref of
     None \<Rightarrow> children @ fragment
   | Some r \<Rightarrow> takeWhile (\<lambda>x. x \<noteq> r) children @ fragment @ dropWhile (\<lambda>x. x \<noteq> r) children)"

definition first_of :: "nat list \<Rightarrow> nat option" where
  "first_of xs = (case xs of [] \<Rightarrow> None | x # _ \<Rightarrow> Some x)"

definition next_of :: "nat \<Rightarrow> nat list \<Rightarrow> nat option" where
  "next_of n children = first_of (tl (dropWhile (\<lambda>x. x \<noteq> n) children))"

text \<open>The four places; \<^verbatim>\<open>Before\<close> and \<^verbatim>\<open>After\<close> change the children of the parent of the element, the others its own.\<close>

datatype insertion = Before | Top | Bottom | After

fun insertContent :: "insertion \<Rightarrow> nat \<Rightarrow> nat list list \<Rightarrow> nat list \<Rightarrow> nat list" where
  "insertContent Before element fragments children =
     foldl (\<lambda>xs fragment. insertBefore fragment (Some element) xs) children fragments"
| "insertContent Top element fragments children =
     foldl (\<lambda>xs fragment. insertBefore fragment (first_of xs) xs) children (rev fragments)"
| "insertContent Bottom element fragments children =
     foldl (\<lambda>xs fragment. insertBefore fragment None xs) children fragments"
| "insertContent After element fragments children =
     foldl (\<lambda>xs fragment. insertBefore fragment (next_of element xs) xs) children fragments"

text \<open>
  What the browser does with markup: \<^verbatim>\<open>insertAdjacentHTML\<close>, if it has it, the rows of the table that
  \<^verbatim>\<open>contentFromAnonymousTable\<close> makes, and \<^verbatim>\<open>createContextualFragment\<close>.
\<close>

record markup =
  insertAdjacentHTML :: "(string \<Rightarrow> string \<Rightarrow> nat list \<Rightarrow> exn + nat list) option"
  table_rows :: "string \<Rightarrow> nat list"
  contextualFragment :: "string \<Rightarrow> nat list"

fun adjacency :: "insertion \<Rightarrow> string" where
  "adjacency Before = ''beforeBegin''"
| "adjacency Top = ''afterBegin''"
| "adjacency Bottom = ''beforeEnd''"
| "adjacency After = ''afterEnd''"

definition contentFromAnonymousTable :: "markup \<Rightarrow> string \<Rightarrow> nat list list" where
  "contentFromAnonymousTable w content =
     map (\<lambda>n. [n]) (table_rows w (''<table><tbody>'' @ content @ ''</tbody></table>''))"

definition Insertion_initialize :: "markup \<Rightarrow> insertion \<Rightarrow> nat \<Rightarrow> string \<Rightarrow> string \<Rightarrow> nat list \<Rightarrow> exn + nat list" where
  "Insertion_initialize w kind element tag content0 children =
     (let content = String_stripScripts content0 in
      case insertAdjacentHTML w of
        Some insert_html \<Rightarrow> (case insert_html (adjacency kind) content children of
            Inr children' \<Rightarrow> Inr children'
          | Inl e \<Rightarrow> if toUpperCase tag \<in> {''TBODY'', ''TR''}
                     then Inr (insertContent kind element (contentFromAnonymousTable w content) children) else Inl e)
      | None \<Rightarrow> Inr (insertContent kind element [contextualFragment w content] children))"

section \<open>Properties\<close>

text \<open>
  C27: \<^verbatim>\<open>getDimensions\<close> leaves the element as it was, whatever the browser computes, and measures an element that is not displayed
  while it is hidden, out of the flow and a block.
\<close>

theorem dimensions_restore:
  "snd (getDimensions b e) = e \<and>
   (getStyle b e ''display'' = Str ''none'' \<longrightarrow>
      fst (getDimensions b e) = client_size b ((inline e)(''visibility'' := ''hidden'', ''position'' := ''absolute'', ''display'' := ''block'')))"
  by (cases e) (simp add: getDimensions_def Let_def set_inline_def fun_eq_iff)

theorem dimensions_restore_witness:
  "let b = \<lparr>computed = \<lambda>_. None, offset_size = \<lambda>_. (0, 0), client_size = \<lambda>st. if st ''display'' = ''block'' then (20, 10) else (0, 0), opera = False\<rparr>;
       e = \<lparr>inline = (\<lambda>_. [])(''display'' := ''none''), madePositioned = False, clip_overflow = []\<rparr>
   in getDimensions b e = ((20, 10), e)"
proof -
  let ?b = "\<lparr>computed = \<lambda>_. None, offset_size = \<lambda>_. (0, 0), client_size = \<lambda>st. if st ''display'' = ''block'' then (20, 10) else (0, 0), opera = False\<rparr>"
  let ?e = "\<lparr>inline = (\<lambda>_. [])(''display'' := ''none''), madePositioned = False, clip_overflow = []\<rparr>"
  have "String_camelize ''display'' = ''display''" by code_simp
  then have "getStyle ?b ?e ''display'' = Str ''none''" by (simp add: getStyle_def)
  then show ?thesis using dimensions_restore [of ?b ?e] by (simp add: prod_eq_iff)
qed

text \<open>
  \<^verbatim>\<open>undoClipping\<close> after \<^verbatim>\<open>makeClipping\<close> brings back the inline overflow of an element, except that \<^verbatim>\<open>auto\<close> becomes
  the empty text, and changes nothing else; a second \<^verbatim>\<open>makeClipping\<close> does nothing.
\<close>

theorem clipping_undone:
  assumes "clip_overflow e = []"
  shows "undoClipping (makeClipping b e) =
      e\<lparr>inline := (inline e)(''overflow'' := if inline e ''overflow'' = ''auto'' then [] else inline e ''overflow'')\<rparr> \<and>
    makeClipping b (makeClipping b e) = makeClipping b e"
  using assms by (cases e) (simp add: undoClipping_def makeClipping_def Let_def set_inline_def)

theorem clipping_undone_witness:
  "inline (undoClipping (makeClipping \<lparr>computed = \<lambda>_. None, offset_size = \<lambda>_. (0, 0), client_size = \<lambda>_. (0, 0), opera = False\<rparr>
     \<lparr>inline = (\<lambda>_. [])(''overflow'' := ''auto''), madePositioned = False, clip_overflow = []\<rparr>)) ''overflow'' = []"
  by (subst clipping_undone [THEN conjunct1]) simp_all

text \<open>Toggling twice shows a visible element again, without the kind of display it had inline.\<close>

theorem toggle_twice: "toggle (toggle e) = (if visible e then show_element e else e)"
  by (cases e) (simp add: toggle_def visible_def hide_def show_element_def set_inline_def fun_upd_idem)

text \<open>\<^verbatim>\<open>undoPositioned\<close> after \<^verbatim>\<open>makePositioned\<close> empties the offsets of an element that was static, also those it had.\<close>

theorem positioned_undone:
  assumes "\<not> madePositioned e" "getStyle b e ''position'' = Str ''static''"
  shows "undoPositioned (makePositioned b e) = e\<lparr>inline := (inline e)(''right'' := [], ''bottom'' := [], ''left'' := [], ''top'' := [], ''position'' := [])\<rparr>"
  using assms by (cases e) (simp add: undoPositioned_def makePositioned_def Let_def set_inline_def fun_eq_iff)

section \<open>Writing and reading styles\<close>

text \<open>The property that \<^verbatim>\<open>setStyle\<close> writes for a name.\<close>

definition written :: "string \<Rightarrow> string" where
  "written p = (if p = ''opacity'' then p else style_property False False p)"

text \<open>Assigning to one of the properties leaves the property \<open>q\<close> as it is.\<close>

definition leaves :: "style_assignment \<Rightarrow> string \<Rightarrow> string \<Rightarrow> bool" where
  "leaves assign q p \<longleftrightarrow> (\<forall>t st. assign p t st q = st q)"

lemma setStyle_snoc:
  "setStyle assign False (styles @ [(p, v)]) False e =
     (if p = ''opacity'' then setOpacity assign v (setStyle assign False styles False e)
      else write_style assign (written p) (style_value v) (setStyle assign False styles False e))"
  by (simp only: setStyle_def foldl_append foldl.simps case_prod_conv written_def split: if_split) simp

lemma setStyle_snoc_leaves:
  "leaves assign q (written p) \<Longrightarrow>
     inline (setStyle assign False (styles @ [(p, v)]) False e) q = inline (setStyle assign False styles False e) q"
  by (simp add: setStyle_snoc setOpacity_def write_style_def leaves_def written_def split: if_splits)

lemma setStyle_inline:
  assumes "\<And>st. assign (written p) (style_value v) st (written p) = x" "written p \<noteq> ''opacity''"
  shows "(p, v) \<in> set styles \<Longrightarrow>
     (\<And>q w. (q, w) \<in> set styles \<Longrightarrow> (q, w) \<noteq> (p, v) \<Longrightarrow> leaves assign (written p) (written q)) \<Longrightarrow>
     inline (setStyle assign False styles False e) (written p) = x"
proof (induction styles rule: rev_induct)
  case (snoc s styles)
  obtain q w where s: "s = (q, w)" by (cases s)
  have p: "p \<noteq> ''opacity''" using assms(2) by (auto simp: written_def)
  show ?case
  proof (cases "(q, w) = (p, v)")
    case True
    then show ?thesis using s p assms(1) by (simp add: setStyle_snoc write_style_def)
  next
    case False
    then have "inline (setStyle assign False styles False e) (written p) = x" "leaves assign (written p) (written q)"
      using snoc s by auto
    then show ?thesis using s by (simp add: setStyle_snoc_leaves)
  qed
qed simp

text \<open>
  C31: \<^verbatim>\<open>getStyle\<close> (in the version of the standard, and on styles without \<^verbatim>\<open>styleFloat\<close>) reads back what the browser
  keeps of a value that \<^verbatim>\<open>setStyle\<close> has written, under the name with which it was written, when assigning the other
  properties of the call does not change it; the exceptions are the empty text, \<^verbatim>\<open>auto\<close> and the opacity.
\<close>

theorem setStyle_reads_back:
  assumes "(p, v) \<in> set styles" "written p \<noteq> ''opacity''"
    and "\<And>st. assign (written p) (style_value v) st (written p) = x" "x \<noteq> []" "x \<noteq> ''auto''"
    and "\<And>q w. (q, w) \<in> set styles \<Longrightarrow> (q, w) \<noteq> (p, v) \<Longrightarrow> leaves assign (written p) (written q)"
  shows "getStyle b (setStyle assign False styles False e) p = Str x"
proof -
  have c: "String_camelize ''cssFloat'' = ''cssFloat''" by code_simp
  have p: "p \<noteq> ''opacity''" using assms(2) by (auto simp: written_def)
  have w: "(if p = ''float'' then ''cssFloat'' else String_camelize p) = written p"
    using p c by (simp add: written_def style_property_def)
  show ?thesis unfolding getStyle_def w Let_def
    using setStyle_inline [OF assms(3,2,1,6)] assms(2,4,5) by simp
qed

text \<open>A browser that keeps values in lower case.\<close>

definition lower_assign :: style_assignment where
  "lower_assign p t st = st(p := toLowerCase t)"

lemma lower_assign_leaves: "q \<noteq> p \<Longrightarrow> leaves lower_assign q p"
  by (simp add: leaves_def lower_assign_def)

theorem setStyle_reads_back_witness:
  "getStyle \<lparr>computed = \<lambda>_. None, offset_size = \<lambda>_. (0, 0), client_size = \<lambda>_. (0, 0), opera = False\<rparr>
     (setStyle lower_assign False [(''float'', Str ''left''), (''font-size'', Str ''9PX'')] False
       \<lparr>inline = \<lambda>_. [], madePositioned = False, clip_overflow = []\<rparr>) ''font-size'' = Str ''9px''"
proof -
  have w: "written ''font-size'' = ''fontSize''" "written ''float'' = ''cssFloat''" "toLowerCase (style_value (Str ''9PX'')) = ''9px''"
    by code_simp+
  show ?thesis
    by (rule setStyle_reads_back [where v = "Str ''9PX''"]) (use w in \<open>auto simp: lower_assign_def intro!: lower_assign_leaves\<close>)
qed

section \<open>Children\<close>

lemma clean_loop_filter:
  "distinct (kept @ rest) \<Longrightarrow> \<forall>x \<in> set kept. \<not> p x \<Longrightarrow> clean_loop p rest (kept @ rest) = kept @ filter (\<lambda>x. \<not> p x) rest"
proof (induction rest arbitrary: kept)
  case (Cons x rest)
  show ?case
  proof (cases "p x")
    case True
    then have "remove1 x (kept @ x # rest) = kept @ rest" using Cons.prems(1) by (simp add: remove1_append)
    then show ?thesis using True Cons by simp
  next
    case False
    then show ?thesis using Cons.IH [of "kept @ [x]"] Cons.prems by simp
  qed
qed simp

text \<open>\<^verbatim>\<open>cleanWhitespace\<close> removes exactly the blank text nodes, although it removes while it walks.\<close>

theorem cleanWhitespace_filter:
  "distinct children \<Longrightarrow> cleanWhitespace d nodeValue children = filter (\<lambda>n. \<not> blank_text d nodeValue n) children"
  unfolding cleanWhitespace_def using clean_loop_filter [of "[]" children] by simp

lemma insert_before_at: "r \<notin> set pre \<Longrightarrow> insertBefore f (Some r) (pre @ r # post) = pre @ f @ r # post"
  by (induction pre) (simp_all add: insertBefore_def)

lemma insert_after_at:
  assumes "el \<notin> set pre" "distinct (pre @ el # post)"
  shows "insertBefore f (next_of el (pre @ el # post)) (pre @ el # post) = pre @ el # f @ post"
proof -
  have n: "next_of el (pre @ el # post) = first_of post"
    unfolding next_of_def using assms(1) by (induction pre) simp_all
  show ?thesis
  proof (cases post)
    case Nil
    then show ?thesis unfolding n by (simp add: first_of_def insertBefore_def)
  next
    case (Cons q post')
    then have "q \<notin> set (pre @ [el])" using assms(2) by auto
    from insert_before_at [OF this, of f post'] show ?thesis unfolding n using Cons by (simp add: first_of_def)
  qed
qed

lemma insert_first: "insertBefore f (first_of xs) xs = f @ xs"
  by (cases xs) (simp_all add: first_of_def insertBefore_def)

text \<open>
  C21: where the four insertions put several fragments: before the element, at its start and at its end in their order, but after the
  element in reverse order, since the next sibling of the element is read anew for every fragment.
\<close>

theorem insertion_places:
  assumes "distinct (pre @ el # concat fragments @ post)"
  shows "insertContent Before el fragments (pre @ el # post) = pre @ concat fragments @ el # post \<and>
    insertContent Top el fragments children = concat fragments @ children \<and>
    insertContent Bottom el fragments children = children @ concat fragments \<and>
    insertContent After el fragments (pre @ el # post) = pre @ el # concat (rev fragments) @ post"
proof (intro conjI)
  show "insertContent Before el fragments (pre @ el # post) = pre @ concat fragments @ el # post"
    using assms
  proof (induction fragments arbitrary: pre)
    case (Cons f fragments)
    then show ?case using insert_before_at [of el pre f post] Cons.IH [of "pre @ f"] by auto
  qed simp
  show "insertContent After el fragments (pre @ el # post) = pre @ el # concat (rev fragments) @ post"
    using assms
  proof (induction fragments arbitrary: post)
    case (Cons f fragments)
    then have "distinct (pre @ el # post)" "distinct (pre @ el # concat fragments @ f @ post)" "el \<notin> set pre" by auto
    then show ?case using insert_after_at [of el pre post f] Cons.IH [of "f @ post"] by simp
  qed simp
  show "insertContent Bottom el fragments children = children @ concat fragments"
    by (induction fragments arbitrary: children) (simp_all add: insertBefore_def)
  have "foldl (\<lambda>xs fragment. insertBefore fragment (first_of xs) xs) children fs = concat (rev fs) @ children" for fs
    by (induction fs arbitrary: children) (simp_all add: insert_first)
  then show "insertContent Top el fragments children = concat fragments @ children" by simp
qed

theorem insertion_places_witness: "insertContent After 2 [[5], [6]] [1, 2, 3] = [1, 2, 6, 5, 3]"
  using insertion_places [of "[1]" 2 "[[5], [6]]" "[3]" "[]"] by simp

end
