(* ===== verification/Prototype_Event.thy ===== *)
theory Prototype_Event
  imports Prototype_Style "HOL-Library.Multiset"
begin

text \<open>
  The object Event of \<^verbatim>\<open>htdocs/prototype.js\<close>: the pointer, and the registration of observers with the cache that is emptied when
  the page is left.  The listeners that the browser holds are part of the state: \<^verbatim>\<open>addEventListener\<close> keeps one of
  each, \<^verbatim>\<open>attachEvent\<close> of Internet Explorer as many as were attached.
\<close>

section \<open>The pointer\<close>

definition isLeftClick :: "jsval \<Rightarrow> jsval \<Rightarrow> bool" where
  "isLeftClick which button \<longleftrightarrow>
     truthy which \<and> loose_eq which (Num (Fin 1)) \<or> truthy button \<and> loose_eq button (Num (Fin 1))"

text \<open>The coordinates are whole numbers; \<open>page\<close> is undefined in some browsers.\<close>

definition pointer :: "int option \<Rightarrow> int \<Rightarrow> int \<Rightarrow> int \<Rightarrow> int" where
  "pointer page client root_scroll body_scroll = (case page of
     Some p \<Rightarrow> if p \<noteq> 0 then p else client + (if root_scroll \<noteq> 0 then root_scroll else body_scroll)
   | None \<Rightarrow> client + (if root_scroll \<noteq> 0 then root_scroll else body_scroll))"

record event_flags =
  defaultPrevented :: bool
  propagationStopped :: bool
  returnValue :: bool
  cancelBubble :: bool

text \<open>\<^verbatim>\<open>Event.stop\<close>, with or without \<^verbatim>\<open>preventDefault\<close>\<close>

definition Event_stop :: "bool \<Rightarrow> event_flags \<Rightarrow> event_flags" where
  "Event_stop preventDefault ev =
     (if preventDefault then ev\<lparr>defaultPrevented := True, propagationStopped := True\<rparr>
      else ev\<lparr>returnValue := False, cancelBubble := True\<rparr>)"

section \<open>Observers\<close>

text \<open>What an element of the page can do, and whether its \<^verbatim>\<open>detachEvent\<close> throws.\<close>

record support =
  addEventListener :: bool
  removeEventListener :: bool
  attachEvent :: bool
  detachEvent :: bool
  detach_throws :: bool

type_synonym registration = "nat \<times> string \<times> nat \<times> bool"

datatype listener = Added registration | Attached nat string nat

record event_state =
  observers :: "registration list option"
  listeners :: "listener multiset"

definition event_name :: "bool \<Rightarrow> support \<Rightarrow> string \<Rightarrow> string" where
  "event_name webkit can name0 = (if name0 = ''keypress'' \<and> (webkit \<or> attachEvent can) then ''keydown'' else name0)"

definition observeAndCache :: "(nat \<Rightarrow> support) \<Rightarrow> registration \<Rightarrow> event_state \<Rightarrow> event_state" where
  "observeAndCache can r s = (case r of (element, name0, observer, useCapture) \<Rightarrow>
     let cache = (case observers s of None \<Rightarrow> [] | Some os \<Rightarrow> os) in
     if addEventListener (can element) then
       s\<lparr>observers := Some (cache @ [r]),
         listeners := (if Added r \<in># listeners s then listeners s else add_mset (Added r) (listeners s))\<rparr>
     else if attachEvent (can element) then
       s\<lparr>observers := Some (cache @ [r]), listeners := add_mset (Attached element (''on'' @ name0) observer) (listeners s)\<rparr>
     else s\<lparr>observers := Some cache\<rparr>)"

definition observe :: "bool \<Rightarrow> (nat \<Rightarrow> support) \<Rightarrow> registration \<Rightarrow> event_state \<Rightarrow> event_state" where
  "observe webkit can r s = (case r of (element, name0, observer, useCapture) \<Rightarrow>
     observeAndCache can (element, event_name webkit (can element) name0, observer, useCapture) s)"

text \<open>An exception of \<^verbatim>\<open>detachEvent\<close> is caught, and nothing is detached then.\<close>

definition stopObserving :: "bool \<Rightarrow> (nat \<Rightarrow> support) \<Rightarrow> registration \<Rightarrow> event_state \<Rightarrow> event_state" where
  "stopObserving webkit can r s = (case r of (element, name0, observer, useCapture) \<Rightarrow>
     let n = event_name webkit (can element) name0 in
     if removeEventListener (can element) then s\<lparr>listeners := listeners s - {#Added (element, n, observer, useCapture)#}\<rparr>
     else if detachEvent (can element) then
       (if detach_throws (can element) then s else s\<lparr>listeners := listeners s - {#Attached element (''on'' @ n) observer#}\<rparr>)
     else s)"

definition unloadCache :: "bool \<Rightarrow> (nat \<Rightarrow> support) \<Rightarrow> event_state \<Rightarrow> event_state" where
  "unloadCache webkit can s = (case observers s of
     None \<Rightarrow> s
   | Some os \<Rightarrow> (foldl (\<lambda>s r. stopObserving webkit can r s) s os)\<lparr>observers := None\<rparr>)"

definition no_events :: event_state where
  "no_events = \<lparr>observers = None, listeners = {#}\<rparr>"

section \<open>Leaving the page\<close>

text \<open>An element that can add listeners can remove them, and does not throw instead.\<close>

definition paired :: "(nat \<Rightarrow> support) \<Rightarrow> bool" where
  "paired can \<longleftrightarrow> (\<forall>e. addEventListener (can e) = removeEventListener (can e) \<and> attachEvent (can e) = detachEvent (can e) \<and>
     \<not> detach_throws (can e))"

text \<open>The states that calls of \<^verbatim>\<open>observe\<close>, \<^verbatim>\<open>stopObserving\<close> and \<^verbatim>\<open>unloadCache\<close> reach.\<close>

inductive event_reach :: "bool \<Rightarrow> (nat \<Rightarrow> support) \<Rightarrow> event_state \<Rightarrow> bool" for webkit can where
  start: "event_reach webkit can no_events"
| observes: "event_reach webkit can s \<Longrightarrow> event_reach webkit can (observe webkit can r s)"
| stops: "event_reach webkit can s \<Longrightarrow> event_reach webkit can (stopObserving webkit can r s)"
| unloads: "event_reach webkit can s \<Longrightarrow> event_reach webkit can (unloadCache webkit can s)"

text \<open>The listener that a registration in the cache stands for.\<close>

definition listener_of :: "(nat \<Rightarrow> support) \<Rightarrow> registration \<Rightarrow> listener option" where
  "listener_of can r = (case r of (e, n, ob, c) \<Rightarrow>
     if addEventListener (can e) then Some (Added r) else if attachEvent (can e) then Some (Attached e (''on'' @ n) ob) else None)"

definition cached :: "(nat \<Rightarrow> support) \<Rightarrow> event_state \<Rightarrow> listener multiset" where
  "cached can s = mset (List.map_filter (listener_of can) (case observers s of None \<Rightarrow> [] | Some os \<Rightarrow> os))"

definition settled :: "bool \<Rightarrow> (nat \<Rightarrow> support) \<Rightarrow> registration \<Rightarrow> bool" where
  "settled webkit can r \<longleftrightarrow> (case r of (e, n, ob, c) \<Rightarrow> event_name webkit (can e) n = n)"

definition event_inv :: "bool \<Rightarrow> (nat \<Rightarrow> support) \<Rightarrow> event_state \<Rightarrow> bool" where
  "event_inv webkit can s \<longleftrightarrow> listeners s \<subseteq># cached can s \<and>
     (case observers s of None \<Rightarrow> True | Some os \<Rightarrow> list_all (settled webkit can) os)"

lemma event_name_twice [simp]: "event_name webkit can (event_name webkit can n) = event_name webkit can n"
  by (simp add: event_name_def)

lemma stop_settled:
  assumes "paired can" "settled webkit can r"
  shows "stopObserving webkit can r s = (case listener_of can r of None \<Rightarrow> s | Some l \<Rightarrow> s\<lparr>listeners := listeners s - {#l#}\<rparr>)"
  using assms by (cases r) (auto simp: stopObserving_def listener_of_def settled_def paired_def Let_def)

lemma stop_removes:
  "\<exists>l. stopObserving webkit can r s = s\<lparr>listeners := listeners s - l\<rparr>"
  by (cases r; cases s) (auto simp: stopObserving_def Let_def intro: exI [of _ "{#}"])

lemma unload_loop:
  assumes "paired can" "list_all (settled webkit can) os"
  shows "foldl (\<lambda>s r. stopObserving webkit can r s) s os =
    s\<lparr>listeners := listeners s - mset (List.map_filter (listener_of can) os)\<rparr>"
  using assms(2)
proof (induction os arbitrary: s)
  case (Cons r os)
  then show ?case using stop_settled [OF assms(1), of webkit r s]
    by (cases "listener_of can r") (simp_all add: List.map_filter_def)
qed (simp add: List.map_filter_def)

lemma observe_inv:
  assumes "event_inv webkit can s"
  shows "event_inv webkit can (observe webkit can r s)"
proof -
  obtain e n ob c where r: "r = (e, n, ob, c)" by (cases r)
  have sub: "listeners s \<subseteq># add_mset x (cached can s)" for x
    using assms unfolding event_inv_def by (metis add_mset_add_single mset_subset_eq_add_left subset_mset.order_trans)
  have st: "settled webkit can (e, event_name webkit (can e) n, ob, c)" by (simp add: settled_def)
  let ?r = "(e, event_name webkit (can e) n, ob, c)"
  have c: "mset (List.map_filter (listener_of can) ((case observers s of None \<Rightarrow> [] | Some os \<Rightarrow> os) @ [?r])) =
      (case listener_of can ?r of None \<Rightarrow> cached can s | Some l \<Rightarrow> add_mset l (cached can s))"
    by (cases "listener_of can ?r") (simp_all add: cached_def List.map_filter_def)
  have os: "list_all (settled webkit can) (case observers s of None \<Rightarrow> [] | Some os \<Rightarrow> os)"
    using assms by (auto simp: event_inv_def split: option.splits)
  show ?thesis
    using assms sub st c os r unfolding event_inv_def observe_def observeAndCache_def
    by (auto simp: Let_def cached_def listener_of_def split: option.splits)
qed

lemma stop_inv:
  assumes "event_inv webkit can s"
  shows "event_inv webkit can (stopObserving webkit can r s)"
proof -
  obtain l where "stopObserving webkit can r s = s\<lparr>listeners := listeners s - l\<rparr>" using stop_removes by blast
  then show ?thesis using assms by (auto simp: event_inv_def cached_def intro: subset_mset.order_trans [OF diff_subset_eq_self])
qed

lemma unload_empty:
  assumes "paired can" "event_inv webkit can s"
  shows "unloadCache webkit can s = no_events"
proof (cases "observers s")
  case None
  then show ?thesis using assms(2) by (cases s) (simp add: event_inv_def unloadCache_def no_events_def cached_def List.map_filter_def)
next
  case (Some os)
  then show ?thesis using assms unload_loop [OF assms(1), of webkit os s]
    by (cases s) (auto simp: event_inv_def unloadCache_def no_events_def cached_def Diff_eq_empty_iff_mset)
qed

lemma reach_inv: "event_reach webkit can s \<Longrightarrow> paired can \<Longrightarrow> event_inv webkit can s"
proof (induction rule: event_reach.induct)
  case start
  show ?case by (simp add: event_inv_def no_events_def cached_def List.map_filter_def)
next
  case (unloads s)
  then have "unloadCache webkit can s = no_events" using unload_empty by blast
  then show ?case by (simp add: event_inv_def no_events_def cached_def List.map_filter_def)
qed (auto intro: observe_inv stop_inv)

text \<open>
  C9: when every element can remove the listeners it can add, then whatever observers were registered and removed, and in whatever order, \<^verbatim>\<open>unloadCache\<close> removes every listener that
  \<^verbatim>\<open>observe\<close> has registered, also those registered several times, and forgets the cache.
\<close>

theorem unload_removes_all:
  assumes "paired can" "event_reach webkit can s"
  shows "unloadCache webkit can s = no_events"
  using unload_empty [OF assms(1) reach_inv [OF assms(2,1)]] .

text \<open>An element of Internet Explorer, and its observer registered twice.\<close>

theorem unload_removes_all_witness:
  "unloadCache False (\<lambda>_. \<lparr>addEventListener = False, removeEventListener = False, attachEvent = True, detachEvent = True, detach_throws = False\<rparr>)
     (observe False (\<lambda>_. \<lparr>addEventListener = False, removeEventListener = False, attachEvent = True, detachEvent = True, detach_throws = False\<rparr>) (1, ''click'', 7, False)
     (observe False (\<lambda>_. \<lparr>addEventListener = False, removeEventListener = False, attachEvent = True, detachEvent = True, detach_throws = False\<rparr>) (1, ''click'', 7, False)
        no_events)) = no_events"
  by (rule unload_removes_all) (simp_all add: paired_def event_reach.intros)

text \<open>When \<^verbatim>\<open>detachEvent\<close> throws, the listener stays although the cache is forgotten.\<close>

theorem detach_throw_leaks:
  "unloadCache False (\<lambda>_. \<lparr>addEventListener = False, removeEventListener = False, attachEvent = True, detachEvent = True, detach_throws = True\<rparr>)
     (observe False (\<lambda>_. \<lparr>addEventListener = False, removeEventListener = False, attachEvent = True, detachEvent = True, detach_throws = True\<rparr>)
        (1, ''click'', 7, False) no_events) = \<lparr>observers = None, listeners = {#Attached 1 ''onclick'' 7#}\<rparr>"
  by (simp add: unloadCache_def observe_def observeAndCache_def stopObserving_def no_events_def event_name_def)

text \<open>\<^verbatim>\<open>stopObserving\<close> leaves the cache as it is: it grows with every call of \<^verbatim>\<open>observe\<close> until the page is left.\<close>

theorem cache_grows:
  assumes "addEventListener (can e)"
  shows "length (the (observers (stopObserving webkit can (e, n, ob, c) (observe webkit can (e, n, ob, c) s)))) =
    Suc (case observers s of None \<Rightarrow> 0 | Some os \<Rightarrow> length os)"
proof -
  obtain l where "stopObserving webkit can (e, n, ob, c) (observe webkit can (e, n, ob, c) s) =
      (observe webkit can (e, n, ob, c) s)\<lparr>listeners := listeners (observe webkit can (e, n, ob, c) s) - l\<rparr>"
    using stop_removes by blast
  then show ?thesis using assms by (simp add: observe_def observeAndCache_def Let_def split: option.splits)
qed

end
