(* ===== verification/Prototype_Position.thy ===== *)
theory Prototype_Position
  imports Prototype_Style
begin

text \<open>
  The object Position of \<^verbatim>\<open>htdocs/prototype.js\<close>: offsets of elements, points within them, and the change
  between relative and absolute positions.  The layout that the browser has computed is a parameter,
  in whole pixels; a value that a node does not have is \<open>None\<close>.
\<close>

section \<open>Offsets\<close>

record layout =
  offsetTop :: "nat \<Rightarrow> int option"
  offsetLeft :: "nat \<Rightarrow> int option"
  scrollTop :: "nat \<Rightarrow> int option"
  scrollLeft :: "nat \<Rightarrow> int option"
  offsetParent :: "nat \<Rightarrow> nat option"
  offsetWidth :: "nat \<Rightarrow> int"
  offsetHeight :: "nat \<Rightarrow> int"
  clientWidth :: "nat \<Rightarrow> int"
  clientHeight :: "nat \<Rightarrow> int"
  position_of :: "nat \<Rightarrow> jsval"
  body_node :: nat
  pageOffset :: "int \<times> int"
  rootScroll :: "int \<times> int"
  bodyScroll :: "int \<times> int"

text \<open>\<^verbatim>\<open>value || 0\<close>\<close>

definition or_zero :: "int option \<Rightarrow> int" where
  "or_zero v = (case v of Some z \<Rightarrow> z | None \<Rightarrow> 0)"

text \<open>Pairs are, as in the code, left and top.\<close>

definition offset_at :: "layout \<Rightarrow> nat \<Rightarrow> int \<times> int" where
  "offset_at g n = (or_zero (offsetLeft g n), or_zero (offsetTop g n))"

definition scroll_at :: "layout \<Rightarrow> nat \<Rightarrow> int \<times> int" where
  "scroll_at g n = (or_zero (scrollLeft g n), or_zero (scrollTop g n))"

text \<open>
  The loop that the functions share: add up a value, and go on to the next node until there is none or the loop is left
  with \<^verbatim>\<open>break\<close>.
\<close>

partial_function (option) add_up :: "(nat \<Rightarrow> int \<times> int) \<Rightarrow> (nat \<Rightarrow> bool) \<Rightarrow> (nat \<Rightarrow> nat option) \<Rightarrow> int \<times> int \<Rightarrow> nat \<Rightarrow> (int \<times> int) option" where
  "add_up value leave next acc element =
     (let sum = (fst acc + fst (value element), snd acc + snd (value element)) in
      if leave element then Some sum
      else case next element of None \<Rightarrow> Some sum | Some q \<Rightarrow> add_up value leave next sum q)"

declare add_up.simps [code]

definition realOffset :: "document \<Rightarrow> layout \<Rightarrow> nat \<Rightarrow> (int \<times> int) option" where
  "realOffset d g element = add_up (scroll_at g) (\<lambda>_. False) (parentNode d) (0, 0) element"

definition cumulativeOffset :: "layout \<Rightarrow> nat \<Rightarrow> (int \<times> int) option" where
  "cumulativeOffset g element = add_up (offset_at g) (\<lambda>_. False) (offsetParent g) (0, 0) element"

definition under_body :: "layout \<Rightarrow> nat \<Rightarrow> bool" where
  "under_body g n \<longleftrightarrow> offsetParent g n = Some (body_node g) \<and> position_of g n = Str ''absolute''"

definition cumulativeOffset_webkit :: "layout \<Rightarrow> nat \<Rightarrow> (int \<times> int) option" where
  "cumulativeOffset_webkit g element = add_up (offset_at g) (under_body g) (offsetParent g) (0, 0) element"

definition positioned_parent :: "document \<Rightarrow> layout \<Rightarrow> nat \<Rightarrow> bool" where
  "positioned_parent d g n \<longleftrightarrow> (case offsetParent g n of None \<Rightarrow> False
     | Some q \<Rightarrow> nd_tag (d ! q) = ''BODY'' \<or> position_of g q = Str ''relative'' \<or> position_of g q = Str ''absolute'')"

definition positionedOffset :: "document \<Rightarrow> layout \<Rightarrow> nat \<Rightarrow> (int \<times> int) option" where
  "positionedOffset d g element = add_up (offset_at g) (positioned_parent d g) (offsetParent g) (0, 0) element"

definition neg_pair :: "int \<times> int \<Rightarrow> int \<times> int" where
  "neg_pair p = (- fst p, - snd p)"

definition page_offset :: "document \<Rightarrow> layout \<Rightarrow> bool \<Rightarrow> nat \<Rightarrow> (int \<times> int) option" where
  "page_offset d g opera0 element =
     Option.bind (add_up (offset_at g) (under_body g) (offsetParent g) (0, 0) element) (\<lambda>acc.
       add_up (\<lambda>n. if \<not> opera0 \<or> nd_tag (d ! n) = ''BODY'' then neg_pair (scroll_at g n) else (0, 0)) (\<lambda>_. False) (parentNode d) acc element)"

text \<open>\<^verbatim>\<open>Position.offsetParent\<close>.  The document, node 0, has no style: asking for it throws.\<close>

function offset_parent_loop :: "document \<Rightarrow> layout \<Rightarrow> nat \<Rightarrow> exn + nat" where
  "offset_parent_loop d g element = (case parentNode d element of
     None \<Rightarrow> Inr (body_node g)
   | Some p \<Rightarrow>
       if p = body_node g then Inr (body_node g)
       else if p = 0 then Inl TypeError
       else if position_of g p \<noteq> Str ''static'' then Inr p
       else offset_parent_loop d g p)"
  by pat_completeness auto
termination
  by (relation "measure (\<lambda>(d, g, n). n)") (auto dest: parentNode_less)

declare offset_parent_loop.simps [simp del]

definition Position_offsetParent :: "document \<Rightarrow> layout \<Rightarrow> nat \<Rightarrow> exn + nat" where
  "Position_offsetParent d g element = (case offsetParent g element of
     Some p \<Rightarrow> Inr p
   | None \<Rightarrow> if element = body_node g then Inr element else offset_parent_loop d g element)"

section \<open>Points within elements\<close>

text \<open>
  The properties of the object.  \<open>delta\<close> is not set before \<^verbatim>\<open>prepare\<close>; the arithmetic with it then gives NaN, which is \<open>None\<close>
  for a coordinate here.
\<close>

record position_state =
  includeScrollOffsets :: bool
  delta :: "(int \<times> int) option"
  xcomp :: "int option"
  ycomp :: "int option"
  offset_cache :: "int \<times> int"

definition first_nonzero :: "int \<Rightarrow> int \<Rightarrow> int \<Rightarrow> int" where
  "first_nonzero a b c = (if a \<noteq> 0 then a else if b \<noteq> 0 then b else c)"

definition Position_prepare :: "layout \<Rightarrow> position_state \<Rightarrow> position_state" where
  "Position_prepare g s = s\<lparr>delta := Some
     (first_nonzero (fst (pageOffset g)) (fst (rootScroll g)) (fst (bodyScroll g)),
      first_nonzero (snd (pageOffset g)) (snd (rootScroll g)) (snd (bodyScroll g)))\<rparr>"

definition in_box :: "layout \<Rightarrow> nat \<Rightarrow> int \<times> int \<Rightarrow> int option \<Rightarrow> int option \<Rightarrow> bool" where
  "in_box g element off x y = (case (x, y) of
     (Some x, Some y) \<Rightarrow> y \<ge> snd off \<and> y < snd off + offsetHeight g element \<and> x \<ge> fst off \<and> x < fst off + offsetWidth g element
   | _ \<Rightarrow> False)"

definition withinIncludingScrolloffsets :: "document \<Rightarrow> layout \<Rightarrow> nat \<Rightarrow> int \<Rightarrow> int \<Rightarrow> position_state \<Rightarrow> (bool \<times> position_state) option" where
  "withinIncludingScrolloffsets d g element x y s =
     Option.bind (realOffset d g element) (\<lambda>cache. Option.bind (cumulativeOffset g element) (\<lambda>off.
       let s' = s\<lparr>xcomp := map_option (\<lambda>dl. x + fst cache - fst dl) (delta s),
                  ycomp := map_option (\<lambda>dl. y + snd cache - snd dl) (delta s), offset_cache := off\<rparr>
       in Some (in_box g element off (xcomp s') (ycomp s'), s')))"

definition Position_within :: "document \<Rightarrow> layout \<Rightarrow> nat \<Rightarrow> int \<Rightarrow> int \<Rightarrow> position_state \<Rightarrow> (bool \<times> position_state) option" where
  "Position_within d g element x y s =
     (if includeScrollOffsets s then withinIncludingScrolloffsets d g element x y s
      else Option.bind (cumulativeOffset g element) (\<lambda>off.
        let s' = s\<lparr>xcomp := Some x, ycomp := Some y, offset_cache := off\<rparr>
        in Some (in_box g element off (Some x) (Some y), s')))"

definition int_num :: "int option \<Rightarrow> jsnum" where
  "int_num v = (case v of Some z \<Rightarrow> Fin (of_int z) | None \<Rightarrow> NaN)"

definition overlap :: "layout \<Rightarrow> string \<Rightarrow> nat \<Rightarrow> position_state \<Rightarrow> jsval" where
  "overlap g mode element s =
     (if mode = [] then Num (Fin 0)
      else if mode = ''vertical'' then
        Num ((int_num (Some (snd (offset_cache s) + offsetHeight g element)) - int_num (ycomp s)) / Fin (of_int (offsetHeight g element)))
      else if mode = ''horizontal'' then
        Num ((int_num (Some (fst (offset_cache s) + offsetWidth g element)) - int_num (xcomp s)) / Fin (of_int (offsetWidth g element)))
      else Undefined)"

section \<open>Moving elements\<close>

definition px :: "jsnum \<Rightarrow> string" where
  "px n = num_to_string n @ ''px''"

record clone_options =
  setLeft :: bool
  setTop :: bool
  setWidth :: bool
  setHeight :: bool
  offTop :: int
  offLeft :: int

definition clone_defaults :: clone_options where
  "clone_defaults = \<lparr>setLeft = True, setTop = True, setWidth = True, setHeight = True, offTop = 0, offLeft = 0\<rparr>"

definition clone_delta :: "document \<Rightarrow> layout \<Rightarrow> bool \<Rightarrow> nat \<Rightarrow> (exn + int \<times> int) option" where
  "clone_delta d g opera0 target =
     (if position_of g target = Str ''absolute'' then
        (case Position_offsetParent d g target of
           Inl e \<Rightarrow> Some (Inl e)
         | Inr parent \<Rightarrow> map_option (\<lambda>p. Inr (if parent = body_node g
             then (fst p - or_zero (offsetLeft g parent), snd p - or_zero (offsetTop g parent)) else p))
             (page_offset d g opera0 parent))
      else Some (Inr (0, 0)))"

definition Position_clone :: "document \<Rightarrow> layout \<Rightarrow> bool \<Rightarrow> clone_options \<Rightarrow> nat \<Rightarrow> nat \<Rightarrow> 'a styled_scheme \<Rightarrow> (exn + 'a styled_scheme) option" where
  "Position_clone d g opera0 opts source target e =
     Option.bind (page_offset d g opera0 source) (\<lambda>p. map_option (map_sum id (\<lambda>dl.
       let e1 = (if setLeft opts then set_inline ''left'' (px (Fin (of_int (fst p - fst dl + offLeft opts)))) e else e);
           e2 = (if setTop opts then set_inline ''top'' (px (Fin (of_int (snd p - snd dl + offTop opts)))) e1 else e1);
           e3 = (if setWidth opts then set_inline ''width'' (px (Fin (of_int (offsetWidth g source)))) e2 else e2)
       in if setHeight opts then set_inline ''height'' (px (Fin (of_int (offsetHeight g source)))) e3 else e3))
       (clone_delta d g opera0 target))"

text \<open>An element with the properties that \<^verbatim>\<open>absolutize\<close> leaves on it.\<close>

record movable = styled +
  originalLeft :: "jsnum option"
  originalTop :: "jsnum option"
  originalWidth :: string
  originalHeight :: string

text \<open>\<^verbatim>\<open>parseFloat(value || 0)\<close>\<close>

definition style_number :: "string \<Rightarrow> jsnum" where
  "style_number v = (if v = [] then Fin 0 else parseFloat v)"

definition absolutize :: "document \<Rightarrow> layout \<Rightarrow> nat \<Rightarrow> movable \<times> position_state \<Rightarrow> (movable \<times> position_state) option" where
  "absolutize d g element es = (case es of (e, s) \<Rightarrow>
     if inline e ''position'' = ''absolute'' then Some (e, s)
     else map_option (\<lambda>offsets.
        let top0 = Fin (of_int (snd offsets)); left0 = Fin (of_int (fst offsets));
            e1 = e\<lparr>originalLeft := Some (left0 - style_number (inline e ''left'')),
                   originalTop := Some (top0 - style_number (inline e ''top'')),
                   originalWidth := inline e ''width'', originalHeight := inline e ''height''\<rparr>
        in (set_inline ''height'' (px (Fin (of_int (clientHeight g element))))
             (set_inline ''width'' (px (Fin (of_int (clientWidth g element))))
             (set_inline ''left'' (px left0) (set_inline ''top'' (px top0) (set_inline ''position'' ''absolute'' e1)))),
            Position_prepare g s))
        (positionedOffset d g element))"

definition num_or_zero :: "jsnum option \<Rightarrow> jsnum" where
  "num_or_zero v = (case v of Some n \<Rightarrow> if num_truthy n then n else Fin 0 | None \<Rightarrow> Fin 0)"

definition relativize :: "layout \<Rightarrow> movable \<times> position_state \<Rightarrow> movable \<times> position_state" where
  "relativize g es = (case es of (e, s) \<Rightarrow>
     if inline e ''position'' = ''relative'' then (e, s)
     else
       let e1 = set_inline ''position'' ''relative'' e;
           top0 = style_number (inline e1 ''top'') - num_or_zero (originalTop e);
           left0 = style_number (inline e1 ''left'') - num_or_zero (originalLeft e)
       in (set_inline ''width'' (originalWidth e) (set_inline ''height'' (originalHeight e)
             (set_inline ''left'' (px left0) (set_inline ''top'' (px top0) e1))), Position_prepare g s))"

section \<open>The loops end\<close>

context linked
begin

lemma add_up_returns: "\<exists>r. add_up value leave succ_node acc n = Some r"
proof (induction "rank n" arbitrary: n acc rule: less_induct)
  case less
  show ?case
  proof (cases "succ_node n")
    case None
    then show ?thesis by (subst add_up.simps) (simp add: Let_def)
  next
    case (Some m)
    then show ?thesis using less rank_less by (subst add_up.simps) (simp add: Let_def)
  qed
qed

text \<open>What is there at the start stays, and loops add.\<close>

lemma add_up_start:
  "add_up value leave succ_node acc n = map_option (\<lambda>r. (fst acc + fst r, snd acc + snd r)) (add_up value leave succ_node (0, 0) n)"
proof (induction "rank n" arbitrary: n acc rule: less_induct)
  case less
  show ?case
  proof (cases "leave n \<or> succ_node n = None")
    case True
    then show ?thesis by (subst (1 2) add_up.simps) (auto simp: Let_def)
  next
    case False
    then obtain m where m: "succ_node n = Some m" "\<not> leave n" by auto
    have r: "rank m < rank n" using m(1) by (rule rank_less)
    have "add_up value leave succ_node acc n = add_up value leave succ_node (fst acc + fst (value n), snd acc + snd (value n)) m"
      using m by (subst add_up.simps) (simp add: Let_def)
    moreover have "add_up value leave succ_node (0, 0) n = add_up value leave succ_node (value n) m"
      using m by (subst add_up.simps) (simp add: Let_def)
    ultimately show ?thesis
      using less [OF r, of "(fst acc + fst (value n), snd acc + snd (value n))"] less [OF r, of "value n"]
      by (simp add: option.map_comp comp_def add.assoc)
  qed
qed

lemma add_up_neg:
  "add_up (\<lambda>n. neg_pair (value n)) leave succ_node (neg_pair acc) n = map_option neg_pair (add_up value leave succ_node acc n)"
proof (induction "rank n" arbitrary: n acc rule: less_induct)
  case less
  have s: "(fst (neg_pair acc) + fst (neg_pair (value n)), snd (neg_pair acc) + snd (neg_pair (value n))) =
      neg_pair (fst acc + fst (value n), snd acc + snd (value n))" by (simp add: neg_pair_def)
  show ?case
  proof (cases "leave n \<or> succ_node n = None")
    case True
    then show ?thesis using s by (subst (1 2) add_up.simps) (auto simp: Let_def)
  next
    case False
    then obtain m where "succ_node n = Some m" "\<not> leave n" by auto
    then show ?thesis using less [OF rank_less, of m "(fst acc + fst (value n), snd acc + snd (value n))"] s
      by (subst (1 2) add_up.simps) (simp add: Let_def)
  qed
qed

text \<open>A condition that is not met on the way does not matter.\<close>

lemma add_up_leave:
  assumes "\<And>m. m \<in> on_way \<Longrightarrow> \<not> leave m" "\<And>m q. m \<in> on_way \<Longrightarrow> succ_node m = Some q \<Longrightarrow> q \<in> on_way"
  shows "n \<in> on_way \<Longrightarrow> add_up value leave succ_node acc n = add_up value (\<lambda>_. False) succ_node acc n"
proof (induction "rank n" arbitrary: n acc rule: less_induct)
  case less
  show ?case
  proof (cases "succ_node n")
    case None
    then show ?thesis using assms(1) [OF less.prems] by (subst (1 2) add_up.simps) (simp add: Let_def)
  next
    case (Some m)
    then show ?thesis using less.hyps [OF rank_less [OF Some] assms(2) [OF less.prems Some]] assms(1) [OF less.prems]
      by (subst (1 2) add_up.simps) (simp add: Let_def)
  qed
qed

end

text \<open>The offset parent of a node is one of its ancestors, as the standard says; so it comes before it.\<close>

definition layout_ok :: "layout \<Rightarrow> bool" where
  "layout_ok g \<longleftrightarrow> (\<forall>n p. offsetParent g n = Some p \<longrightarrow> p < n)"

lemma offset_linked: "layout_ok g \<Longrightarrow> linked (offsetParent g) (\<lambda>n. n)"
  by unfold_locales (simp add: layout_ok_def)

text \<open>
  C18: outside Opera, and when offset parents are ancestors, the place of an element on the page is what the version of
  \<^verbatim>\<open>cumulativeOffset\<close> for WebKit gives, which stops at an element that stands absolutely under the body, less what the element and
  its ancestors are scrolled; the standard version gives the same when no such element is on the way. The functions return.
\<close>

theorem page_is_difference:
  assumes "layout_ok g"
  shows "\<exists>c r. cumulativeOffset_webkit g n = Some c \<and> realOffset d g n = Some r \<and>
    page_offset d g False n = Some (fst c - fst r, snd c - snd r) \<and>
    ((\<forall>m. (n, m) \<in> {(a, b). offsetParent g a = Some b}\<^sup>* \<longrightarrow> \<not> under_body g m) \<longrightarrow> cumulativeOffset g n = Some c)"
proof -
  obtain c where c: "cumulativeOffset_webkit g n = Some c"
    unfolding cumulativeOffset_webkit_def using linked.add_up_returns [OF offset_linked [OF assms(1)]] by blast
  obtain r where r: "realOffset d g n = Some r" unfolding realOffset_def using parents.add_up_returns by blast
  let ?W = "{m. (n, m) \<in> {(a, b). offsetParent g a = Some b}\<^sup>*}"
  have "cumulativeOffset g n = Some c" if "\<forall>m \<in> ?W. \<not> under_body g m"
  proof -
    have "add_up (offset_at g) (under_body g) (offsetParent g) (0, 0) n = add_up (offset_at g) (\<lambda>_. False) (offsetParent g) (0, 0) n"
      by (rule linked.add_up_leave [OF offset_linked [OF assms(1)], of ?W])
        (use that rtrancl_into_rtrancl [of n _ "{(a, b). offsetParent g a = Some b}"] in auto)
    then show ?thesis using c by (simp only: cumulativeOffset_def cumulativeOffset_webkit_def)
  qed
  moreover have "add_up (\<lambda>n. neg_pair (scroll_at g n)) (\<lambda>_. False) (parentNode d) (0, 0) n = Some (neg_pair r)"
    using parents.add_up_neg [of "scroll_at g" "\<lambda>_. False" d "(0, 0)" n] r by (simp add: realOffset_def neg_pair_def)
  then have "page_offset d g False n = Some (fst c - fst r, snd c - snd r)"
    using parents.add_up_start [of "\<lambda>n. neg_pair (scroll_at g n)" "\<lambda>_. False" d c n] c
    by (simp add: page_offset_def cumulativeOffset_webkit_def neg_pair_def)
  ultimately show ?thesis using c r by simp
qed

section \<open>Overlap\<close>

lemma ratio_bounds:
  assumes "0 < a" "a \<le> h" "h \<le> 2 ^ 53"
  shows "\<exists>q. Fin (of_int a) / Fin (of_int h) = Fin q \<and> 0 < q \<and> q \<le> 1"
proof -
  have h: "0 < h" using assms by linarith
  have q1: "(of_int a :: rat) / of_int h \<le> 1" using assms h by simp
  have q0: "(1 :: rat) / 2 ^ 53 \<le> of_int a / of_int h"
  proof -
    have "1 * 2 ^ 53 \<le> a * (2 :: int) ^ 53" using assms(1) by (intro mult_right_mono) auto
    then have "(of_int h :: rat) \<le> of_int (a * 2 ^ 53)" using assms(3) by (intro of_int_le_iff [THEN iffD2]) linarith
    then show ?thesis using h by (simp add: field_simps)
  qed
  have b: "rnd (of_int a / of_int h) \<le> 1" using rnd_le_repr [OF q1] representable_rnd [of 1] rnd_of_int [of 1] by simp
  have r: "representable ((1 :: rat) / 2 ^ 53)"
    unfolding representable_def by (intro exI [of _ 1] exI [of _ "- 53"]) (simp add: power_int_minus inverse_eq_divide)
  have p: "0 < rnd (of_int a / of_int h)"
  proof -
    have "(0 :: rat) < 1 / 2 ^ 53" by simp
    then show ?thesis using rnd_ge_repr [OF q0 r] by (rule less_le_trans)
  qed
  have "\<bar>(of_int a :: rat) / of_int h\<bar> \<le> 2 ^ 1000"
  proof -
    have "\<bar>(of_int a :: rat) / of_int h\<bar> \<le> 1" using q1 assms h by simp
    then show ?thesis by (rule order_trans) simp
  qed
  then have "fl (of_int a / of_int h) = Fin (rnd (of_int a / of_int h))" by (rule fl_finite)
  then show ?thesis using b p h by simp
qed

lemma int_difference:
  "\<bar>a\<bar> \<le> 2 ^ 53 \<Longrightarrow> \<bar>b\<bar> \<le> 2 ^ 53 \<Longrightarrow> \<bar>a - b\<bar> \<le> 2 ^ 53 \<Longrightarrow> Fin (of_int a) - Fin (of_int b) = Fin (of_int (a - b))"
  using fl_of_int [of "a - b"] by simp

text \<open>
  C24: \<^verbatim>\<open>overlap\<close>, called after \<^verbatim>\<open>within\<close> has found the point in the element, is a number above zero and at most one.
\<close>

theorem overlap_unit:
  assumes "Position_within d g n x y s = Some (True, s')" "mode = ''vertical'' \<or> mode = ''horizontal''"
    "offsetHeight g n \<le> 2 ^ 53" "offsetWidth g n \<le> 2 ^ 53"
    "\<forall>z \<in> {fst (offset_cache s') + offsetWidth g n, snd (offset_cache s') + offsetHeight g n}. \<bar>z\<bar> \<le> 2 ^ 53"
    "\<forall>z. xcomp s' = Some z \<or> ycomp s' = Some z \<longrightarrow> \<bar>z\<bar> \<le> 2 ^ 53"
  shows "\<exists>q. overlap g mode n s' = Num (Fin q) \<and> 0 < q \<and> q \<le> 1"
proof -
  have "in_box g n (offset_cache s') (xcomp s') (ycomp s')"
    using assms(1) unfolding Position_within_def withinIncludingScrolloffsets_def
    by (auto simp: Let_def bind_eq_Some_conv split: if_splits)
  then obtain u v where u: "xcomp s' = Some u" "ycomp s' = Some v" "snd (offset_cache s') \<le> v" "v < snd (offset_cache s') + offsetHeight g n"
    "fst (offset_cache s') \<le> u" "u < fst (offset_cache s') + offsetWidth g n"
    by (auto simp: in_box_def split: option.splits)
  have uv: "\<bar>u\<bar> \<le> 2 ^ 53" "\<bar>v\<bar> \<le> 2 ^ 53" using assms(6) u(1,2) by auto
  let ?a = "snd (offset_cache s') + offsetHeight g n - v" and ?b = "fst (offset_cache s') + offsetWidth g n - u"
  have da: "Fin (of_int (snd (offset_cache s') + offsetHeight g n)) - Fin (of_int v) = Fin (of_int ?a)"
    using assms(3,5) u uv by (intro int_difference) auto
  have db: "Fin (of_int (fst (offset_cache s') + offsetWidth g n)) - Fin (of_int u) = Fin (of_int ?b)"
    using assms(4,5) u uv by (intro int_difference) auto
  have a: "\<exists>q. Fin (of_int ?a) / Fin (of_int (offsetHeight g n)) = Fin q \<and> 0 < q \<and> q \<le> 1"
    using assms(3) u by (intro ratio_bounds) auto
  have b: "\<exists>q. Fin (of_int ?b) / Fin (of_int (offsetWidth g n)) = Fin q \<and> 0 < q \<and> q \<le> 1"
    using assms(4) u by (intro ratio_bounds) auto
  show ?thesis
    using assms(2)
  proof
    assume "mode = ''vertical''"
    then show ?thesis using a unfolding overlap_def u int_num_def option.case da by simp
  next
    assume "mode = ''horizontal''"
    then show ?thesis using b unfolding overlap_def u int_num_def option.case db by simp
  qed
qed

section \<open>Absolute and back\<close>

lemma parse_decimal_rest:
  assumes "ds \<noteq> []" "list_all is_digit ds" "\<not> is_digit c" "c \<noteq> CHR ''.''" "c \<noteq> CHR ''e''" "c \<noteq> CHR ''E''"
  shows "parse_decimal (ds @ c # rest) = Some (of_int (digits_val 0 ds), c # rest)"
proof -
  have "takeWhile is_digit (ds @ c # rest) = ds" "dropWhile is_digit (ds @ c # rest) = c # rest"
    using assms(2,3) by (simp_all add: list_all_iff takeWhile_append2 dropWhile_append2)
  then show ?thesis unfolding parse_decimal_def Let_def using assms by (simp add: parse_exp_def)
qed

lemma parseFloat_px:
  assumes "\<bar>z\<bar> < 2 ^ 53"
  shows "parseFloat (px (Fin (of_int z))) = Fin (of_int z)"
proof -
  let ?ds = "digits 10 \<bar>z\<bar>"
  have ds: "?ds \<noteq> []" "list_all is_digit ?ds" "digits_val 0 ?ds = \<bar>z\<bar>" using digits_10 [of "\<bar>z\<bar>"] by simp_all
  obtain c s where c: "?ds = c # s" "is_digit c" using ds(1,2) by (cases ?ds) auto
  have ns: "\<not> is_space c" "c \<noteq> CHR ''-''" "c \<noteq> CHR ''+''" "c \<noteq> CHR ''I''" using digit_not_special [OF c(2)] by auto
  have "\<not> is_digit CHR ''p''" by code_simp
  then have pd: "parse_decimal (c # s @ ''px'') = Some (of_int \<bar>z\<bar>, ''px'')"
    using parse_decimal_rest [OF ds(1,2), of "CHR ''p''" "''x''"] ds(3) by (simp add: c(1))
  have sp: "\<not> is_space (CHR ''-'')" by (simp add: is_space_def)
  have f: "fl (of_int z) = Fin (of_int z)" using assms by (intro fl_of_int) simp
  consider "z = 0" | "0 < z" | "z < 0" by linarith
  then show ?thesis
  proof cases
    case 1
    then show ?thesis by (simp, code_simp)
  next
    case 2
    then have "px (Fin (of_int z)) = c # s @ ''px''" using assms c(1) by (simp add: px_def)
    then show ?thesis using 2 ns pd f by (simp add: parseFloat_def parse_signed_def read_sign_def)
  next
    case 3
    then have "px (Fin (of_int z)) = CHR ''-'' # c # s @ ''px''" using assms c(1) by (simp add: px_def)
    then show ?thesis using 3 ns sp pd f by (simp add: parseFloat_def parse_signed_def read_sign_def)
  qed
qed

text \<open>An inline offset: none, or whole pixels.\<close>

definition pixels :: "string \<Rightarrow> int \<Rightarrow> bool" where
  "pixels v z \<longleftrightarrow> (v = [] \<and> z = 0) \<or> v = px (Fin (of_int z))"

lemma style_number_pixels: "pixels v z \<Longrightarrow> \<bar>z\<bar> < 2 ^ 52 \<Longrightarrow> style_number v = Fin (of_int z)"
  using parseFloat_px [of z] by (auto simp: pixels_def style_number_def px_def)

lemma undo_offset:
  assumes "\<bar>l\<bar> < 2 ^ 51" "\<bar>z\<bar> < 2 ^ 51"
  shows "style_number (px (Fin (of_int l))) - num_or_zero (Some (Fin (of_int l) - Fin (of_int z))) = Fin (of_int z)"
proof -
  have n: "style_number (px (Fin (of_int l))) = Fin (of_int l)" using assms by (intro style_number_pixels) (simp_all add: pixels_def)
  have d: "Fin (of_int l) - Fin (of_int z) = Fin (of_int (l - z))" using assms by (intro int_difference) auto
  have e: "Fin (of_int l) - Fin (of_int (l - z)) = Fin (of_int z)" using int_difference [of l "l - z"] assms by simp
  show ?thesis
  proof (cases "l = z")
    case True
    then show ?thesis unfolding n d using e by (simp add: num_or_zero_def num_truthy_def)
  next
    case False
    then have "(of_int (l - z) :: rat) \<noteq> 0" by simp
    then have "num_truthy (Fin (of_int (l - z)))" by (simp only: num_truthy_def) simp
    then show ?thesis unfolding n d using e by (simp add: num_or_zero_def)
  qed
qed

text \<open>
  C14: \<^verbatim>\<open>relativize\<close> after \<^verbatim>\<open>absolutize\<close> brings back the inline offsets, width and height of an element whose inline position is not
  absolute, when its inline offsets are whole pixels, below \<open>2\<^sup>5\<^sup>1\<close> like its place; an offset that was not set is \<^verbatim>\<open>0px\<close> then, and the
  element is positioned relatively.
\<close>

theorem absolute_and_back:
  assumes "layout_ok g" "inline e ''position'' \<noteq> ''absolute''" "pixels (inline e ''left'') l" "pixels (inline e ''top'') t"
    "\<bar>l\<bar> < 2 ^ 51" "\<bar>t\<bar> < 2 ^ 51" "\<forall>r. positionedOffset d g n = Some r \<longrightarrow> \<bar>fst r\<bar> < 2 ^ 51 \<and> \<bar>snd r\<bar> < 2 ^ 51"
  shows "\<exists>es. absolutize d g n (e, s) = Some es \<and> inline (fst (relativize g es)) =
    (inline e)(''position'' := ''relative'', ''top'' := px (Fin (of_int t)), ''left'' := px (Fin (of_int l)))"
proof -
  obtain r where r: "positionedOffset d g n = Some r"
    unfolding positionedOffset_def using linked.add_up_returns [OF offset_linked [OF assms(1)]] by blast
  have b: "\<bar>fst r\<bar> < 2 ^ 51" "\<bar>snd r\<bar> < 2 ^ 51" using assms(7) r by auto
  have l: "style_number (inline e ''left'') = Fin (of_int l)" "style_number (inline e ''top'') = Fin (of_int t)"
    using assms by (auto intro!: style_number_pixels)
  have u: "style_number (px (Fin (of_int (fst r)))) - num_or_zero (Some (Fin (of_int (fst r)) - Fin (of_int l))) = Fin (of_int l)"
    "style_number (px (Fin (of_int (snd r)))) - num_or_zero (Some (Fin (of_int (snd r)) - Fin (of_int t))) = Fin (of_int t)"
    using undo_offset b assms(5,6) by simp_all
  define e1 where "e1 = e\<lparr>originalLeft := Some (Fin (of_int (fst r)) - Fin (of_int l)), originalTop := Some (Fin (of_int (snd r)) - Fin (of_int t)),
     originalWidth := inline e ''width'', originalHeight := inline e ''height''\<rparr>"
  define e' where "e' = e1\<lparr>inline := (inline e)(''position'' := ''absolute'', ''top'' := px (Fin (of_int (snd r))), ''left'' := px (Fin (of_int (fst r))),
     ''width'' := px (Fin (of_int (clientWidth g n))), ''height'' := px (Fin (of_int (clientHeight g n))))\<rparr>"
  have e': "absolutize d g n (e, s) = Some (e', Position_prepare g s)"
    using assms(2) unfolding absolutize_def r by (simp add: Let_def set_inline_def e'_def e1_def l)
  have "inline (fst (relativize g (e', Position_prepare g s))) = (inline e')(''position'' := ''relative'', ''top'' := px (Fin (of_int t)), ''left'' := px (Fin (of_int l)),
      ''height'' := inline e ''height'', ''width'' := inline e ''width'')"
    using u unfolding relativize_def Let_def set_inline_def e'_def e1_def by simp
  also have "\<dots> = (inline e)(''position'' := ''relative'', ''top'' := px (Fin (of_int t)), ''left'' := px (Fin (of_int l)))"
    unfolding e'_def by (simp add: fun_eq_iff)
  finally show ?thesis using e' by blast
qed

section \<open>Examples\<close>

text \<open>An element in a body that is scrolled.\<close>

definition a_layout :: layout where
  "a_layout = \<lparr>offsetTop = \<lambda>n. if n = 2 then Some 30 else None, offsetLeft = \<lambda>n. if n = 2 then Some 20 else None,
     scrollTop = \<lambda>n. if n = 1 then Some 5 else None, scrollLeft = \<lambda>_. None, offsetParent = \<lambda>n. if n = 2 then Some 1 else None,
     offsetWidth = \<lambda>_. 100, offsetHeight = \<lambda>_. 50, clientWidth = \<lambda>_. 100, clientHeight = \<lambda>_. 50, position_of = \<lambda>_. Str ''static'',
     body_node = 1, pageOffset = (0, 0), rootScroll = (0, 0), bodyScroll = (0, 5)\<rparr>"

definition a_position :: position_state where
  "a_position = \<lparr>includeScrollOffsets = False, delta = None, xcomp = None, ycomp = None, offset_cache = (0, 0)\<rparr>"

definition an_item :: movable where
  "an_item = \<lparr>inline = (\<lambda>_. [])(''left'' := px (Fin (of_int 7))), madePositioned = False, clip_overflow = [],
     originalLeft = None, originalTop = None, originalWidth = [], originalHeight = []\<rparr>"

lemma a_layout_ok: "layout_ok a_layout" "\<not> under_body a_layout n"
  by (auto simp: layout_ok_def a_layout_def under_body_def)

theorem page_is_difference_witness:
  "cumulativeOffset a_layout 2 = Some (20, 30) \<and> realOffset sample a_layout 2 = Some (0, 5) \<and>
     page_offset sample a_layout False 2 = Some (20, 25)"
proof -
  have c: "cumulativeOffset a_layout 2 = Some (20, 30)"
    by (simp add: cumulativeOffset_def add_up.simps offset_at_def a_layout_def or_zero_def)
  moreover have "realOffset sample a_layout 2 = Some (0, 5)"
  proof -
    have "parentNode sample 2 = Some 1" "parentNode sample 1 = Some 0" "parentNode sample 0 = None" by code_simp+
    then show ?thesis by (simp add: realOffset_def add_up.simps scroll_at_def a_layout_def or_zero_def)
  qed
  ultimately show ?thesis using page_is_difference [of a_layout 2 sample] a_layout_ok by auto
qed

lemma a_within:
  "Position_within sample a_layout 2 60 40 a_position = Some (True, a_position\<lparr>xcomp := Some 60, ycomp := Some 40, offset_cache := (20, 30)\<rparr>)"
  by (simp add: Position_within_def a_position_def cumulativeOffset_def add_up.simps offset_at_def a_layout_def or_zero_def in_box_def)

theorem overlap_unit_witness:
  "\<exists>q. overlap a_layout ''vertical'' 2 (a_position\<lparr>xcomp := Some 60, ycomp := Some 40, offset_cache := (20, 30)\<rparr>) = Num (Fin q) \<and> 0 < q \<and> q \<le> 1"
  by (rule overlap_unit [OF a_within]) (auto simp: a_layout_def)

lemma a_positionedOffset: "positionedOffset sample a_layout 2 = Some (20, 30)"
proof -
  have "nd_tag (sample ! 1) \<noteq> ''BODY''" by code_simp
  then show ?thesis by (simp add: positionedOffset_def add_up.simps offset_at_def a_layout_def or_zero_def positioned_parent_def)
qed

theorem absolute_and_back_witness:
  "\<exists>es. absolutize sample a_layout 2 (an_item, a_position) = Some es \<and> inline (fst (relativize a_layout es)) =
    (inline an_item)(''position'' := ''relative'', ''top'' := px (Fin (of_int 0)), ''left'' := px (Fin (of_int 7)))"
  by (rule absolute_and_back) (simp_all add: a_layout_ok a_positionedOffset an_item_def pixels_def)

end
