(* ===== verification/Plotr_Base.thy ===== *)
theory Plotr_Base
  imports Prototype_Hash
begin

unbundle bit_operations_syntax

text \<open>
  \<^verbatim>\<open>htdocs/plotr/Base.js\<close>: colours, colour schemes and helpers of the chart library.
\<close>

section \<open>Helpers\<close>

definition isNil :: "jsval \<Rightarrow> bool" where
  "isNil obj \<longleftrightarrow> loose_eq obj Null \<or> js_typeof obj = ''undefined''"

text \<open>\<^verbatim>\<open>items\<close>: the values of an object that are not functions, in the order of \<^verbatim>\<open>for (item in lst)\<close>.\<close>

definition Base_items :: "('k \<times> jsval) list \<Rightarrow> jsval list" where
  "Base_items lst = map snd (filter (\<lambda>(_, v). js_typeof v \<noteq> ''function'') lst)"

text \<open>
  \<^verbatim>\<open>uniqueIndices\<close>: the numbers below the largest length.  The maximum of an empty list is
  \<^verbatim>\<open>undefined\<close>, which has no method \<^verbatim>\<open>times\<close>.
\<close>

definition length_val :: "'v list \<Rightarrow> jsval" where
  "length_val item = Num (Fin (of_nat (length item)))"

definition uniqueIndices :: "'v list list \<Rightarrow> (exn + jsval list) option" where
  "uniqueIndices lst =
     (case Enumerable_max (Array_each (map length_val lst)) None () of
        (Inr (Num n), _) \<Rightarrow>
          map_option (\<lambda>(r, (result, _)). map_sum id (\<lambda>_. result) r)
            (Number_times n (\<lambda>i _. push_local i) ([], ()))
      | (Inr _, _) \<Rightarrow> Some (Inl TypeError)
      | (Inl e, _) \<Rightarrow> Some (Inl e))"

text \<open>\<^verbatim>\<open>sum\<close> adds from the last element to the first, to the number 0; texts are appended.\<close>

definition Base_sum :: "jsval list \<Rightarrow> jsval" where
  "Base_sum lst = foldr (\<lambda>x result. js_plus result x) (Array_flatten lst) (Num (Fin 0))"

section \<open>Colours\<close>

record rgb =
  rgb_r :: jsnum
  rgb_g :: jsnum
  rgb_b :: jsnum

record hsb =
  hsb_h :: jsnum
  hsb_s :: jsnum
  hsb_b :: jsnum

definition hexToRGB :: "string \<Rightarrow> rgb" where
  "hexToRGB hex =
     (let n = to_int32 (parseInt16 (if indexOf hex ''#'' > - 1
                then substring hex 1 (int (length hex)) else hex))
      in \<lparr>rgb_r = Fin (of_int (drop_bit 16 n)), rgb_g = Fin (of_int (drop_bit 8 (n AND 0x00FF00))),
          rgb_b = Fin (of_int (n AND 0x0000FF))\<rparr>)"

definition toRGBString :: "rgb \<Rightarrow> string" where
  "toRGBString c = ''#'' @ join [] (map Number_toColorPart [rgb_r c, rgb_g c, rgb_b c])"

definition rgbToHSB :: "rgb \<Rightarrow> hsb" where
  "rgbToHSB c =
     (let r = rgb_r c; g = rgb_g c; b = rgb_b c;
          mx = math_max (math_max r g) b;
          s = (if mx \<le> Fin 0 then Fin 0
               else math_round (Fin 100 * (mx - math_min (math_min r g) b) / mx));
          br = math_round ((mx / Fin 255) * Fin 100);
          h = (if num_eq r g \<and> num_eq g b then Fin 0
               else if g \<le> r \<and> b \<le> g then Fin 60 * (g - b) / (r - b)
               else if r \<le> g \<and> b \<le> r then Fin 60 + Fin 60 * (g - r) / (g - b)
               else if b \<le> g \<and> r \<le> b then Fin 120 + Fin 60 * (b - r) / (g - r)
               else if g \<le> b \<and> r \<le> g then Fin 180 + Fin 60 * (b - g) / (b - r)
               else if r \<le> b \<and> g \<le> r then Fin 240 + Fin 60 * (r - g) / (b - g)
               else if b \<le> r \<and> g \<le> b then Fin 300 + Fin 60 * (r - b) / (r - g)
               else Fin 0)
      in \<lparr>hsb_h = math_round h, hsb_s = s, hsb_b = br\<rparr>)"

definition hexToHSB :: "string \<Rightarrow> hsb" where
  "hexToHSB hex = rgbToHSB (hexToRGB hex)"

text \<open>The mixture of the brightest, the darkest and the sloping component in each sector of hues.\<close>

definition hsb_sector :: "jsnum \<Rightarrow> jsnum \<Rightarrow> jsnum \<Rightarrow> jsnum \<Rightarrow> jsnum \<times> jsnum \<times> jsnum" where
  "hsb_sector h t1 t2 t3 =
     (if h < Fin 60 then (t1, t2 + t3, t2)
      else if h < Fin 120 then (t1 - t3, t1, t2)
      else if h < Fin 180 then (t2, t1, t2 + t3)
      else if h < Fin 240 then (t2, t1 - t3, t1)
      else if h < Fin 300 then (t2 + t3, t2, t1)
      else if h < Fin 360 then (t1, t2, t1 - t3)
      else (Fin 0, Fin 0, Fin 0))"

definition hsbToRGB :: "hsb \<Rightarrow> rgb" where
  "hsbToRGB c =
     (let h = math_round (hsb_h c);
          s = math_round (hsb_s c * Fin 255 / Fin 100);
          v = math_round (hsb_b c * Fin 255 / Fin 100);
          (r, g, b) =
            (if num_eq s (Fin 0) then (v, v, v)
             else
               (let t1 = v;
                    t2 = (Fin 255 - s) * v / Fin 255;
                    t3 = (t1 - t2) * num_mod h (Fin 60) / Fin 60;
                    h = (if num_eq h (Fin 360) then Fin 0 else h)
                in hsb_sector h t1 t2 t3))
      in \<lparr>rgb_r = math_round r, rgb_g = math_round g, rgb_b = math_round b\<rparr>)"

definition levelHSB :: "hsb \<Rightarrow> jsnum \<Rightarrow> string" where
  "levelHSB c level =
     toRGBString (hsbToRGB \<lparr>hsb_h = hsb_h c, hsb_s = hsb_s c,
       hsb_b = math_min (hsb_b c + level) (Fin 100)\<rparr>)"

section \<open>Colour schemes\<close>

definition generateColorscheme :: "string \<Rightarrow> jsnum \<Rightarrow> bool \<Rightarrow> (exn + string list) option" where
  "generateColorscheme hex sz reverse =
     (let c = hexToHSB hex;
          level = (Fin 100 - hsb_b c) / sz
      in map_option (\<lambda>(r, (result, _)). map_sum id (\<lambda>_. if reverse then rev result else result) r)
           (Number_times sz (\<lambda>i _. push_local (levelHSB c (level * to_num i))) ([], ())))"

definition defaultScheme :: "jsnum \<Rightarrow> (exn + string list) option" where
  "defaultScheme sz = generateColorscheme ''#3c581a'' sz False"

definition colorSchemes :: "(string \<times> string) list" where
  "colorSchemes = [(''red'', ''#6d1d1d''), (''green'', ''#3c581a''), (''blue'', ''#224565''),
     (''grey'', ''#444444''), (''black'', ''#000000'')]"

text \<open>\<open>None\<close> as the size is an argument left out.  \<open>color\<close> is not the name of a method objects inherit.\<close>

definition getColorscheme :: "string \<Rightarrow> jsnum option \<Rightarrow> (exn + string list) option" where
  "getColorscheme color sz =
     (let n = (case sz of Some n \<Rightarrow> if num_truthy n then n else Fin 3 | None \<Rightarrow> Fin 3)
      in case map_of colorSchemes color of
           None \<Rightarrow> generateColorscheme color n False
         | Some scheme \<Rightarrow> generateColorscheme scheme n False)"

section \<open>Hexadecimal colours\<close>

definition byte :: "jsnum \<Rightarrow> bool" where
  "byte n \<longleftrightarrow> (case n of Fin q \<Rightarrow> of_int \<lfloor>q\<rfloor> = q \<and> 0 \<le> q \<and> q \<le> 255 | _ \<Rightarrow> False)"

definition rgb_ok :: "rgb \<Rightarrow> bool" where
  "rgb_ok c \<longleftrightarrow> byte (rgb_r c) \<and> byte (rgb_g c) \<and> byte (rgb_b c)"

text \<open>A text of the form \<^verbatim>\<open>#rrggbb\<close>.\<close>

definition color_text :: "string \<Rightarrow> bool" where
  "color_text s \<longleftrightarrow> length s = 7 \<and> hd s = CHR ''#'' \<and> (\<forall>c \<in> set (tl s). hex_val c \<noteq> None)"

lemma byte_int: "byte n \<longleftrightarrow> (\<exists>z. n = Fin (of_int z) \<and> 0 \<le> z \<and> z < 256)"
proof
  assume "byte n"
  then obtain q where q: "n = Fin q" "of_int \<lfloor>q\<rfloor> = q" "0 \<le> q" "q \<le> 255"
    by (auto simp: byte_def split: jsnum.splits)
  have "0 \<le> \<lfloor>q\<rfloor>" "\<lfloor>q\<rfloor> < 256" using q(3,4) by linarith+
  moreover have "n = Fin (of_int \<lfloor>q\<rfloor>)" by (simp only: q(1,2))
  ultimately show "\<exists>z. n = Fin (of_int z) \<and> 0 \<le> z \<and> z < 256" by blast
qed (auto simp: byte_def)

lemma toRGBString_hex:
  assumes "0 \<le> r" "r < 256" "0 \<le> g" "g < 256" "0 \<le> b" "b < 256"
  shows "toRGBString \<lparr>rgb_r = Fin (of_int r), rgb_g = Fin (of_int g), rgb_b = Fin (of_int b)\<rparr> =
    CHR ''#'' # map digit_char [r div 16, r mod 16, g div 16, g mod 16, b div 16, b mod 16]"
  using assms by (simp add: toRGBString_def toColorPart_hex)

lemma hex_digit_bounds: "0 \<le> (n::int) \<Longrightarrow> n < 256 \<Longrightarrow> 0 \<le> n div 16 \<and> n div 16 < 16 \<and> 0 \<le> n mod 16 \<and> n mod 16 < 16"
  by presburger

lemma toRGBString_color_text: "rgb_ok c \<Longrightarrow> color_text (toRGBString c)"
proof -
  assume "rgb_ok c"
  then obtain r g b where c: "c = \<lparr>rgb_r = Fin (of_int r), rgb_g = Fin (of_int g), rgb_b = Fin (of_int b)\<rparr>"
    and "0 \<le> r" "r < 256" "0 \<le> g" "g < 256" "0 \<le> b" "b < 256"
    unfolding rgb_ok_def byte_int by (cases c) auto
  note bounds = this(2-)
  show ?thesis unfolding c toRGBString_hex [OF bounds] color_text_def
    using bounds hex_digit_bounds by (auto simp: hex_val_digit_char)
qed

lemma hex_prefix_hex:
  "(\<And>c. c \<in> set s \<Longrightarrow> hex_val c \<noteq> None) \<Longrightarrow> hex_prefix s = map (the \<circ> hex_val) s"
  by (induction s) (auto split: option.splits)

lemma hex_val_Some:
  "hex_val c = Some d \<Longrightarrow> 0 \<le> d \<and> d < 16 \<and> \<not> is_space c \<and>
     code c \<notin> {code (CHR ''-''), code (CHR ''+''), code (CHR ''#''), code (CHR ''x''), code (CHR ''X'')}"
  by (auto simp: hex_val_def is_digit_def is_space_def split: if_splits)

lemma hex_val_char:
  "hex_val c = Some d \<Longrightarrow> c \<noteq> CHR ''-'' \<and> c \<noteq> CHR ''+'' \<and> c \<noteq> CHR ''#'' \<and> c \<noteq> CHR ''x'' \<and> c \<noteq> CHR ''X''"
  using hex_val_Some [of c d] by auto

lemma parseInt16_hex:
  assumes "s \<noteq> []" "\<And>c. c \<in> set s \<Longrightarrow> hex_val c \<noteq> None"
  shows "parseInt16 s = fl (of_int (hex_number (map (the \<circ> hex_val) s)))"
proof -
  obtain e es where s: "s = e # es" using assms(1) by (cases s) auto
  have h: "\<exists>d. hex_val c = Some d" if "c \<in> set s" for c using assms(2) [OF that] by simp
  obtain d where e: "hex_val e = Some d" using h [of e] s by auto
  have x: "\<not> starts ''0x'' s" "\<not> starts ''0X'' s"
    using h hex_val_char by (cases es; force simp: s)+
  have sgn: "read_sign s = (False, s)" using hex_val_char [OF e] by (simp add: read_sign_def s)
  have "dropWhile is_space s = s" using hex_val_Some [OF e] by (simp add: s)
  then show ?thesis
    using x assms(1) hex_prefix_hex [OF assms(2)] unfolding parseInt16_def Let_def
    by (simp add: sgn)
qed

lemma parseInt16_digits:
  assumes "ds \<noteq> []" "\<And>d. d \<in> set ds \<Longrightarrow> 0 \<le> d \<and> d < 16"
  shows "parseInt16 (map digit_char ds) = fl (of_int (hex_number ds))"
proof -
  have d: "hex_val (digit_char d) = Some d" if "d \<in> set ds" for d
    using assms(2) [OF that] by (simp add: hex_val_digit_char)
  have "map (the \<circ> hex_val) (map digit_char ds) = ds" using d by (simp add: map_idI)
  moreover have "hex_val c \<noteq> None" if "c \<in> set (map digit_char ds)" for c using that d by auto
  ultimately show ?thesis using parseInt16_hex [of "map digit_char ds"] assms(1) by simp
qed

lemma div_256_less: "(n::int) < 256 * m \<Longrightarrow> n div 256 < m"
  by simp

lemma mod_256_low: "0 \<le> b \<Longrightarrow> b < 256 \<Longrightarrow> (256 * x + b) mod 256 = (b::int)"
  by simp

lemma hexToRGB_bits:
  fixes r g b :: int
  assumes "0 \<le> r" "r < 256" "0 \<le> g" "g < 256" "0 \<le> b" "b < 256"
  defines "n \<equiv> 65536 * r + 256 * g + b"
  shows "drop_bit 16 n = r" "drop_bit 8 (n AND 0x00FF00) = g" "n AND 0x0000FF = b"
proof -
  have m: "n AND 0x0000FF = n mod 256"
    using take_bit_eq_mask [of 8 n] by (simp add: take_bit_eq_mod mask_eq_exp_minus_1)
  have "drop_bit 8 (n AND 0x00FF00) = drop_bit 8 n AND 0xFF"
    by (simp add: drop_bit_and)
  also have "\<dots> = drop_bit 8 n mod 256"
    using take_bit_eq_mask [of 8 "drop_bit 8 n"] by (simp add: take_bit_eq_mod mask_eq_exp_minus_1)
  finally have mid: "drop_bit 8 (n AND 0x00FF00) = n div 256 mod 256" by (simp add: drop_bit_eq_div)
  have lo: "n = 256 * (256 * r + g) + b" and hi: "n div 256 = 256 * r + g"
    using assms(5,6) by (simp_all add: n_def)
  have "n mod 256 = b" using mod_256_low [OF assms(5,6), of "256 * r + g"] by (simp only: lo)
  then show "n AND 0x0000FF = b" by (simp only: m)
  show "drop_bit 8 (n AND 0x00FF00) = g" using mid hi assms(3,4) by simp
  have "n div 65536 = n div 256 div 256" by (simp add: zdiv_zmult2_eq [symmetric])
  then show "drop_bit 16 n = r" using hi assms(3,4) by (simp add: drop_bit_eq_div)
qed

lemma hex_number_six:
  "hex_number [r div 16, r mod 16, g div 16, g mod 16, b div 16, b mod 16] = 65536 * r + 256 * g + b"
  using div_mult_mod_eq [of r 16] div_mult_mod_eq [of g 16] div_mult_mod_eq [of b 16]
  by (simp add: hex_number_def)

lemma to_int32_of_int: "- (2 ^ 31) \<le> z \<Longrightarrow> z < 2 ^ 31 \<Longrightarrow> to_int32 (Fin (of_int z)) = z"
  by (simp add: wrap32_def trunc_def)

lemma hexToRGB_toRGBString:
  assumes "0 \<le> r" "r < 256" "0 \<le> g" "g < 256" "0 \<le> b" "b < 256"
  defines "c \<equiv> \<lparr>rgb_r = Fin (of_int r), rgb_g = Fin (of_int g), rgb_b = Fin (of_int b)\<rparr>"
  shows "hexToRGB (toRGBString c) = c"
proof -
  let ?ds = "[r div 16, r mod 16, g div 16, g mod 16, b div 16, b mod 16]"
  let ?n = "65536 * r + 256 * g + b"
  have t: "toRGBString c = CHR ''#'' # map digit_char ?ds"
    unfolding c_def by (rule toRGBString_hex [OF assms(1-6)])
  have n: "0 \<le> ?n" "?n < 2 ^ 31" using assms(1-6) by simp_all
  have i: "(indexOf (toRGBString c) ''#'' > - 1) = True" by (simp add: t indexOf_def)
  have u: "substring (toRGBString c) 1 (int (length (toRGBString c))) = map digit_char ?ds"
    by (simp add: t substring_def Let_def)
  have "parseInt16 (map digit_char ?ds) = fl (of_int (hex_number ?ds))"
    using hex_digit_bounds [OF assms(1,2)] hex_digit_bounds [OF assms(3,4)]
      hex_digit_bounds [OF assms(5,6)]
    by (intro parseInt16_digits) (simp, simp only: list.set insert_iff empty_iff simp_thms, blast)
  also have "\<dots> = Fin (of_int ?n)" using n unfolding hex_number_six by (intro fl_of_int) simp
  finally have "to_int32 (parseInt16 (map digit_char ?ds)) = to_int32 (Fin (of_int ?n))" by (rule arg_cong)
  also have "\<dots> = ?n" using n by (intro to_int32_of_int) simp_all
  finally have p: "to_int32 (parseInt16 (map digit_char ?ds)) = ?n" .
  show ?thesis
    unfolding hexToRGB_def Let_def i u if_True p hexToRGB_bits [OF assms(1-6)] by (simp only: c_def)
qed

section \<open>Ranges of colour components\<close>

lemma representable_int_range:
  "0 \<le> z \<Longrightarrow> z \<le> 100000 \<Longrightarrow> representable (of_int z) \<and> \<bar>of_int z\<bar> \<le> (2 ^ 1000 :: rat)"
proof -
  assume z: "0 \<le> z" "z \<le> 100000"
  have "\<bar>of_int z\<bar> \<le> (100000 :: rat)" using z by simp
  also have "\<dots> \<le> 2 ^ 17" by simp
  also have "(2 ^ 17 :: rat) \<le> 2 ^ 1000" by (rule power_increasing) simp_all
  finally show ?thesis using z by (simp add: representable_of_int)
qed

text \<open>The operators keep values between integer bounds.\<close>

lemma fl_range:
  assumes "of_int a \<le> q" "q \<le> of_int b" "0 \<le> a" "b \<le> 100000"
  obtains x where "fl q = Fin x" "of_int a \<le> x" "x \<le> of_int b"
proof -
  have "of_int a \<le> (of_int b :: rat)" using assms(1,2) by linarith
  then have "a \<le> b" by simp
  then show ?thesis using that fl_between [OF assms(1,2)] assms(3,4)
      representable_int_range [of a] representable_int_range [of b] by force
qed

lemma rnd_above: "0 \<le> q \<Longrightarrow> q \<le> 100000 \<Longrightarrow> rnd q \<le> q + 1 / 1048576"
proof -
  assume "0 \<le> q" "q \<le> 100000"
  then have "\<bar>rnd q - q\<bar> \<le> 1 / 2 ^ 20" by (intro rnd_close) simp
  moreover have "(1 / 2 ^ 20 :: rat) = 1 / 1048576" by simp
  ultimately show ?thesis by linarith
qed

lemma round_range:
  assumes "of_int a - 1 / 2 \<le> x" "x < of_int b + 1 / 2"
  obtains z where "math_round (Fin x) = Fin (of_int z)" "a \<le> z" "z \<le> b"
proof
  show "math_round (Fin x) = Fin (of_int \<lfloor>x + 1 / 2\<rfloor>)" by simp
  show "a \<le> \<lfloor>x + 1 / 2\<rfloor>" "\<lfloor>x + 1 / 2\<rfloor> \<le> b" using assms by linarith+
qed

lemma percent_to_byte:
  assumes "0 \<le> x" "x \<le> 100"
  obtains z where "math_round (Fin x * Fin 255 / Fin 100) = Fin (of_int z)" "0 \<le> z" "z \<le> 255"
proof -
  obtain y where y: "fl (x * 255) = Fin y" "of_int 0 \<le> y" "y \<le> of_int 25500"
    by (rule fl_range [of 0 "x * 255" 25500]) (use assms in simp_all)
  obtain w where w: "fl (y / 100) = Fin w" "of_int 0 \<le> w" "w \<le> of_int 255"
    by (rule fl_range [of 0 "y / 100" 255]) (use y in simp_all)
  obtain z where "math_round (Fin w) = Fin (of_int z)" "0 \<le> z" "z \<le> 255"
    by (rule round_range [of 0 w 255]) (use w in simp_all)
  then show ?thesis using that y(1) w(1) by simp
qed

lemma num_mod_60: "0 \<le> h \<Longrightarrow> num_mod (Fin (of_int h)) (Fin 60) = Fin (of_int (h mod 60))"
proof -
  assume h: "0 \<le> h"
  have "trunc (of_int h / 60) = h div 60"
    using h floor_divide_of_int_eq [of h 60, where ?'a = rat] by (simp add: trunc_def)
  then show ?thesis by (simp add: minus_mult_div_eq_mod [symmetric])
qed

text \<open>The two mixed components: between the darkest and the brightest one, up to rounding.\<close>

lemma mixed_components:
  fixes s v h :: int
  assumes "0 \<le> s" "s \<le> 255" "0 \<le> v" "v \<le> 255" "0 \<le> h"
  obtains a d where "(Fin 255 - Fin (of_int s)) * Fin (of_int v) / Fin 255 = Fin a"
    "(Fin (of_int v) - Fin a) * num_mod (Fin (of_int h)) (Fin 60) / Fin 60 = Fin d"
    "0 \<le> a" "a \<le> of_int v" "0 \<le> d" "a + d \<le> of_int v + 1 / 8"
proof -
  have sv: "0 \<le> (255 - s) * v" "(255 - s) * v \<le> 255 * v" "(255 - s) * v \<le> 255 * 255"
    using assms mult_mono [of "255 - s" 255 v 255] by (simp_all add: mult_right_mono)
  have e1: "Fin 255 - Fin (of_int s) = Fin (of_int (255 - s))"
    using assms fl_of_int [of "255 - s"] by simp
  have e2: "Fin (of_int (255 - s)) * Fin (of_int v) = Fin (of_int ((255 - s) * v))"
    using sv fl_of_int [of "(255 - s) * v"] by simp
  have "(of_int ((255 - s) * v) :: rat) \<le> of_int (255 * v)" using sv(2) by (simp only: of_int_le_iff)
  then obtain a where a: "fl (of_int ((255 - s) * v) / 255) = Fin a" "of_int 0 \<le> a" "a \<le> of_int v"
    using fl_range [of 0 "of_int ((255 - s) * v) / 255" v] sv(1) assms(4) by (auto simp del: of_int_mult of_int_diff)
  have va: "0 \<le> of_int v - a" "of_int v - a \<le> 255" using a assms(3,4) by simp_all
  obtain e where e: "fl (of_int v - a) = Fin e" "of_int 0 \<le> e" "e \<le> of_int 255"
    by (rule fl_range [of 0 "of_int v - a" 255]) (use va in simp_all)
  have e_rnd: "e = rnd (of_int v - a)" using e(1) fl_finite [of "of_int v - a"] va by simp
  then have e_close: "e \<le> of_int v - a + 1 / 1048576" using rnd_above [of "of_int v - a"] va by simp
  have m: "0 \<le> (of_int (h mod 60) :: rat)" "(of_int (h mod 60) :: rat) \<le> 59"
    using pos_mod_bound [of 60 h] pos_mod_sign [of 60 h] by linarith+
  have em: "0 \<le> e * of_int (h mod 60)" "e * of_int (h mod 60) \<le> e * 59" "e * 59 \<le> 255 * 59"
    using m e by (auto intro: mult_left_mono)
  obtain q where q: "fl (e * of_int (h mod 60)) = Fin q" "of_int 0 \<le> q" "q \<le> of_int 15045"
    by (rule fl_range [of 0 "e * of_int (h mod 60)" 15045]) (use em in simp_all)
  have "q = rnd (e * of_int (h mod 60))"
    using q(1) fl_finite [of "e * of_int (h mod 60)"] em by simp
  then have q_close: "q \<le> e * 59 + 1 / 1048576"
    using rnd_above [of "e * of_int (h mod 60)"] em by linarith
  obtain d where d: "fl (q / 60) = Fin d" "of_int 0 \<le> d" "d \<le> of_int 251"
    by (rule fl_range [of 0 "q / 60" 251]) (use q in simp_all)
  have "d = rnd (q / 60)" using d(1) fl_finite [of "q / 60"] q by simp
  then have "d \<le> q / 60 + 1 / 1048576" using rnd_above [of "q / 60"] q by simp
  then have "a + d \<le> of_int v + 1 / 8" using q_close e_close e(2) by linarith
  then show ?thesis
    using that [of a d] e1 e2 a e(1) q(1) d num_mod_60 [OF assms(5)] by simp
qed

definition in_range :: "rat \<Rightarrow> rat \<Rightarrow> jsnum \<Rightarrow> bool" where
  "in_range a b n \<longleftrightarrow> (case n of Fin q \<Rightarrow> a \<le> q \<and> q \<le> b | _ \<Rightarrow> False)"

lemma in_rangeE: "in_range a b n \<Longrightarrow> (\<And>q. n = Fin q \<Longrightarrow> a \<le> q \<Longrightarrow> q \<le> b \<Longrightarrow> P) \<Longrightarrow> P"
  by (auto simp: in_range_def split: jsnum.splits)

definition hsb_ok :: "hsb \<Rightarrow> bool" where
  "hsb_ok c \<longleftrightarrow> in_range 0 360 (hsb_h c) \<and> in_range 0 100 (hsb_s c) \<and> in_range 0 100 (hsb_b c)"

lemma byte_round: "- 1 / 2 \<le> x \<Longrightarrow> x < 255 + 1 / 2 \<Longrightarrow> byte (math_round (Fin x))"
  by (rule round_range [of 0 x 255]) (auto simp: byte_int)

lemma byte_mixed:
  assumes "0 \<le> a" "a \<le> of_int v" "0 \<le> d" "a + d \<le> of_int v + 1 / 8" "0 \<le> v" "v \<le> 255"
  shows "byte (math_round (Fin a))" "byte (math_round (Fin (of_int v)))"
    "byte (math_round (Fin a + Fin d))" "byte (math_round (Fin (of_int v) - Fin d))"
proof -
  have v: "(of_int v :: rat) \<le> 255" using assms(6) by simp
  have r: "representable (1021 / 4)" "representable (- (1 / 4))"
    using representable_dyadic [of 1021 2] representable_dyadic [of "- 1" 2] by simp_all
  have big: "(255 :: rat) \<le> 2 ^ 1000" "(1021 / 4 :: rat) \<le> 2 ^ 1000"
    using representable_int_range [of 256] by simp_all
  have "fl (a + d) = Fin (rnd (a + d)) \<and> 0 \<le> rnd (a + d) \<and> rnd (a + d) \<le> 1021 / 4"
    using assms v r big by (intro fl_between) simp_all
  then show "byte (math_round (Fin a + Fin d))" using byte_round [of "rnd (a + d)"] by simp
  have "fl (of_int v - d) = Fin (rnd (of_int v - d)) \<and> - (1 / 4) \<le> rnd (of_int v - d) \<and>
      rnd (of_int v - d) \<le> 255"
    using assms v r big representable_int_range [of 255] by (intro fl_between) simp_all
  then show "byte (math_round (Fin (of_int v) - Fin d))"
    using byte_round [of "rnd (of_int v - d)"] by simp
  show "byte (math_round (Fin a))" using byte_round [of a] assms v by simp
  show "byte (math_round (Fin (of_int v)))" using byte_round [of "of_int v"] assms by simp
qed

lemma hsb_sector_parts:
  "hsb_sector h t1 t2 t3 = (r, g, b) \<Longrightarrow> {r, g, b} \<subseteq> {t1, t2, t2 + t3, t1 - t3, Fin 0}"
  by (auto simp: hsb_sector_def split: if_splits)

lemma byte_0: "byte (math_round (Fin 0))"
  by (simp add: byte_def)

lemma hsbToRGB_byte:
  assumes "hsb_ok c"
  shows "rgb_ok (hsbToRGB c)"
proof -
  obtain hq sq bq where c: "hsb_h c = Fin hq" "hsb_s c = Fin sq" "hsb_b c = Fin bq"
    and "0 \<le> hq" "hq \<le> 360" "0 \<le> sq" "sq \<le> 100" "0 \<le> bq" "bq \<le> 100"
    using assms by (auto simp: hsb_ok_def elim!: in_rangeE)
  note q = this(4-)
  obtain h where h: "math_round (Fin hq) = Fin (of_int h)" "0 \<le> h" "h \<le> 360"
    by (rule round_range [of 0 hq 360]) (use q in simp_all)
  obtain s where s: "math_round (Fin sq * Fin 255 / Fin 100) = Fin (of_int s)" "0 \<le> s" "s \<le> 255"
    using percent_to_byte q by metis
  obtain v where v: "math_round (Fin bq * Fin 255 / Fin 100) = Fin (of_int v)" "0 \<le> v" "v \<le> 255"
    using percent_to_byte q by metis
  obtain a d where ad: "(Fin 255 - Fin (of_int s)) * Fin (of_int v) / Fin 255 = Fin a"
    "(Fin (of_int v) - Fin a) * num_mod (Fin (of_int h)) (Fin 60) / Fin 60 = Fin d"
    and b: "0 \<le> a" "a \<le> of_int v" "0 \<le> d" "a + d \<le> of_int v + 1 / 8"
    using mixed_components [OF s(2,3) v(2,3) h(2)] by metis
  note bytes = byte_mixed [OF b v(2,3)] byte_0
  let ?x = "hsb_sector (if num_eq (Fin (of_int h)) (Fin 360) then Fin 0 else Fin (of_int h))
      (Fin (of_int v)) (Fin a) (Fin d)"
  have "hsbToRGB c = (case if num_eq (Fin (of_int s)) (Fin 0)
        then (Fin (of_int v), Fin (of_int v), Fin (of_int v)) else ?x of
      (r, g, b) \<Rightarrow> \<lparr>rgb_r = math_round r, rgb_g = math_round g, rgb_b = math_round b\<rparr>)"
    unfolding hsbToRGB_def Let_def c h(1) s(1) v(1) ad ..
  moreover obtain r g b where "?x = (r, g, b)" by (cases ?x)
  moreover from this have "{r, g, b} \<subseteq> {Fin (of_int v), Fin a, Fin a + Fin d, Fin (of_int v) - Fin d, Fin 0}"
    by (rule hsb_sector_parts)
  ultimately show ?thesis using bytes by (auto simp: rgb_ok_def simp del: math_round.simps Fin_arith)
qed

lemma math_max_Fin [simp]: "math_max (Fin a) (Fin b) = Fin (max a b)"
  by (simp add: math_max_def max_def)

lemma math_min_Fin [simp]: "math_min (Fin a) (Fin b) = Fin (min a b)"
  by (simp add: math_min_def min_def)

text \<open>The place of a hue within its sector of 60 degrees, and the hue.\<close>

lemma hue_ratio:
  fixes u v :: int
  assumes "0 \<le> u" "u \<le> v" "0 < v" "v \<le> 255"
  obtains q where "Fin 60 * Fin (of_int u) / Fin (of_int v) = Fin q" "0 \<le> q" "q \<le> 60"
proof -
  have "60 * u \<le> 60 * v" using assms by simp
  then have "(of_int (60 * u) :: rat) \<le> of_int (60 * v)" by (simp only: of_int_le_iff)
  then have "of_int (60 * u) / of_int v \<le> (60 :: rat)" using assms(3) by (simp add: field_simps)
  moreover have "0 \<le> (of_int (60 * u) / of_int v :: rat)" using assms by simp
  ultimately obtain q where q: "fl (of_int (60 * u) / of_int v) = Fin q" "of_int 0 \<le> q" "q \<le> of_int 60"
    using fl_range [of 0 "of_int (60 * u) / of_int v" 60] by (simp del: of_int_mult) blast
  have "Fin 60 * Fin (of_int u) = Fin (of_int (60 * u))"
    using fl_of_int [of "60 * u"] assms by simp
  then show ?thesis using that q assms(3) by (simp del: of_int_mult)
qed

lemma hue_part:
  fixes x y z w :: int
  assumes "z \<le> x" "x - z \<le> y - w" "w < y" "y - w \<le> 255"
  obtains q where "Fin 60 * (Fin (of_int x) - Fin (of_int z)) / (Fin (of_int y) - Fin (of_int w)) = Fin q"
    "0 \<le> q" "q \<le> 60"
proof -
  have "Fin (of_int x) - Fin (of_int z) = Fin (of_int (x - z))"
    "Fin (of_int y) - Fin (of_int w) = Fin (of_int (y - w))"
    using assms fl_of_int [of "x - z"] fl_of_int [of "y - w"] by simp_all
  then show ?thesis using that hue_ratio [of "x - z" "y - w"] assms by auto
qed

lemma in_range_round: "0 \<le> x \<Longrightarrow> x \<le> of_int n \<Longrightarrow> in_range 0 (of_int n) (math_round (Fin x))"
  by (rule round_range [of 0 x n]) (auto simp: in_range_def)

lemma hue_offset:
  assumes "0 \<le> q" "q \<le> 60" "k \<le> 300" "0 \<le> k"
  shows "in_range 0 360 (math_round (Fin (of_int k) + Fin q))"
proof -
  obtain x where "fl (of_int k + q) = Fin x" "of_int 0 \<le> x" "x \<le> of_int 360"
    by (rule fl_range [of 0 "of_int k + q" 360]) (use assms in simp_all)
  then show ?thesis using in_range_round [of x 360] by simp
qed

lemma rgbToHSB_hue:
  fixes r g b :: int
  assumes "0 \<le> r" "r < 256" "0 \<le> g" "g < 256" "0 \<le> b" "b < 256"
  defines "c \<equiv> \<lparr>rgb_r = Fin (of_int r), rgb_g = Fin (of_int g), rgb_b = Fin (of_int b)\<rparr>"
  shows "in_range 0 360 (hsb_h (rgbToHSB c))"
proof -
  let ?d = "\<lambda>x z y w. Fin 60 * (Fin (of_int x) - Fin (of_int z)) / (Fin (of_int y) - Fin (of_int w))"
  have p: "in_range 0 360 (math_round (?d x z y w))" "in_range 0 360 (math_round (Fin (of_int k) + ?d x z y w))"
    if A: "z \<le> x" "x - z \<le> y - w" "w < y" "y - w \<le> 255" "0 \<le> k" "k \<le> 300" for x z y w k
  proof -
    obtain q where q: "?d x z y w = Fin q" "0 \<le> q" "q \<le> 60" using hue_part A(1-4) by metis
    then show "in_range 0 360 (math_round (Fin (of_int k) + ?d x z y w))"
      unfolding q(1) using A(5,6) by (intro hue_offset)
    show "in_range 0 360 (math_round (?d x z y w))"
      unfolding q(1) using q in_range_round [of q 360] by simp
  qed
  note P = p(2) [where k = 60, simplified] p(2) [where k = 120, simplified]
    p(2) [where k = 180, simplified] p(2) [where k = 240, simplified] p(2) [where k = 300, simplified]
  have z: "in_range 0 360 (math_round (Fin 0))" by (simp add: in_range_def)
  have e: "num_eq (Fin (of_int x)) (Fin (of_int y)) \<longleftrightarrow> x = y" for x y by (simp add: num_eq_def)
  have l: "Fin (of_int x) \<le> Fin (of_int y) \<longleftrightarrow> x \<le> y" for x y by simp
  show ?thesis
    unfolding rgbToHSB_def Let_def c_def
    by (simp only: rgb.simps hsb.simps e l split: if_split) (use assms(1-6) p(1) P z in auto)
qed

lemma hex_number_bound:
  "(\<And>d. d \<in> set ds \<Longrightarrow> 0 \<le> d \<and> d < 16) \<Longrightarrow> 0 \<le> hex_number ds \<and> hex_number ds < 16 ^ length ds"
proof (induction ds rule: rev_induct)
  case (snoc d ds)
  then have "0 \<le> hex_number ds" "hex_number ds + 1 \<le> 16 ^ length ds" "0 \<le> d" "d < 16" by auto
  then show ?case by (simp add: hex_number_def)
qed (simp add: hex_number_def)

lemma hexToRGB_byte: "color_text hex \<Longrightarrow> rgb_ok (hexToRGB hex)"
proof -
  assume ct: "color_text hex"
  then obtain t where t: "hex = CHR ''#'' # t" "length t = 6" "\<And>c. c \<in> set t \<Longrightarrow> hex_val c \<noteq> None"
    by (cases hex) (auto simp: color_text_def)
  define n where "n = hex_number (map (the \<circ> hex_val) t)"
  have "0 \<le> d \<and> d < 16" if "d \<in> set (map (the \<circ> hex_val) t)" for d
    using that t(3) hex_val_Some by fastforce
  then have n: "0 \<le> n" "n < 16 ^ 6" using hex_number_bound [of "map (the \<circ> hex_val) t"] t(2) n_def by auto
  have "parseInt16 t = Fin (of_int n)"
    using parseInt16_hex [of t] t n fl_of_int [of n] n_def by fastforce
  then have "to_int32 (parseInt16 t) = to_int32 (Fin (of_int n))" by (rule arg_cong)
  also have "\<dots> = n" using n by (intro to_int32_of_int) simp_all
  finally have p: "to_int32 (parseInt16 t) = n" .
  have i: "(indexOf hex ''#'' > - 1) = True" by (simp add: t(1) indexOf_def)
  have u: "substring hex 1 (int (length hex)) = t" by (simp add: t(1) substring_def Let_def)
  define r g b where "r = n div 256 div 256" and "g = n div 256 mod 256" and "b = n mod 256"
  have "n div 256 = 256 * r + g" unfolding r_def g_def by (rule mult_div_mod_eq [symmetric])
  moreover have "n = 256 * (n div 256) + b" unfolding b_def by (rule mult_div_mod_eq [symmetric])
  ultimately have nd: "n = 65536 * r + 256 * g + b" by linarith
  have "0 \<le> n div 256" "n div 256 < 65536" using n by (auto intro: div_256_less)
  then have "0 \<le> r" "r < 256" by (auto simp: r_def intro: div_256_less)
  then have rb: "0 \<le> r" "r < 256" "0 \<le> g" "g < 256" "0 \<le> b" "b < 256" by (simp_all add: g_def b_def)
  have "hexToRGB hex = \<lparr>rgb_r = Fin (of_int r), rgb_g = Fin (of_int g), rgb_b = Fin (of_int b)\<rparr>"
    unfolding hexToRGB_def Let_def i u if_True p unfolding nd hexToRGB_bits [OF rb] ..
  then show ?thesis using rb by (auto simp: rgb_ok_def byte_int)
qed

lemma rgbToHSB_parts:
  fixes r g b :: int
  assumes "0 \<le> r" "r < 256" "0 \<le> g" "g < 256" "0 \<le> b" "b < 256"
  defines "c \<equiv> \<lparr>rgb_r = Fin (of_int r), rgb_g = Fin (of_int g), rgb_b = Fin (of_int b)\<rparr>"
  shows "in_range 0 100 (hsb_s (rgbToHSB c))" "in_range 0 100 (hsb_b (rgbToHSB c))"
proof -
  define x n where "x = max (max r g) b" and "n = min (min r g) b"
  have xn: "0 \<le> n" "n \<le> x" "x < 256" using assms(1-6) by (auto simp: x_def n_def)
  have mx: "math_max (math_max (Fin (of_int r)) (Fin (of_int g))) (Fin (of_int b)) = Fin (of_int x)"
    and mn: "math_min (math_min (Fin (of_int r)) (Fin (of_int g))) (Fin (of_int b)) = Fin (of_int n)"
    by (simp_all add: x_def n_def of_int_max of_int_min)
  obtain q where q: "fl (of_int x / 255) = Fin q" "of_int 0 \<le> q" "q \<le> of_int 1"
    by (rule fl_range [of 0 "of_int x / 255" 1]) (use xn in simp_all)
  obtain p where p: "fl (q * 100) = Fin p" "of_int 0 \<le> p" "p \<le> of_int 100"
    by (rule fl_range [of 0 "q * 100" 100]) (use q in simp_all)
  show "in_range 0 100 (hsb_b (rgbToHSB c))"
    unfolding rgbToHSB_def Let_def c_def rgb.simps hsb.simps mx
    using q p in_range_round [of p 100] by simp
  show "in_range 0 100 (hsb_s (rgbToHSB c))"
  proof (cases "x = 0")
    case True
    then show ?thesis unfolding rgbToHSB_def Let_def c_def rgb.simps hsb.simps mx mn
      by (simp add: in_range_def)
  next
    case False
    have sub: "Fin (of_int x) - Fin (of_int n) = Fin (of_int (x - n))"
      using xn fl_of_int [of "x - n"] by simp
    have mul: "Fin 100 * Fin (of_int (x - n)) = Fin (of_int (100 * (x - n)))"
      using xn fl_of_int [of "100 * (x - n)"] by simp
    have "100 * (x - n) \<le> 100 * x" using xn by simp
    then have "(of_int (100 * (x - n)) :: rat) \<le> of_int (100 * x)" by (simp only: of_int_le_iff)
    moreover have "0 \<le> (of_int (100 * (x - n)) :: rat)" "0 < (of_int x :: rat)" using xn False by simp_all
    ultimately have "0 \<le> of_int (100 * (x - n)) / (of_int x :: rat)"
      "of_int (100 * (x - n)) / (of_int x :: rat) \<le> 100" by (simp_all add: field_simps)
    then obtain y where y: "fl (of_int (100 * (x - n)) / of_int x) = Fin y" "of_int 0 \<le> y" "y \<le> of_int 100"
      using fl_range [of 0 "of_int (100 * (x - n)) / of_int x" 100] by (simp del: of_int_mult of_int_diff) blast
    have "Fin 100 * (Fin (of_int x) - Fin (of_int n)) / Fin (of_int x) = Fin y"
      unfolding sub mul using y(1) False by (simp del: of_int_mult of_int_diff)
    moreover have "\<not> Fin (of_int x) \<le> Fin 0" using xn False by simp
    ultimately show ?thesis unfolding rgbToHSB_def Let_def c_def rgb.simps hsb.simps mx mn
      using y in_range_round [of y 100] by (simp only: if_False) simp
  qed
qed

lemma rgbToHSB_range: "rgb_ok c \<Longrightarrow> hsb_ok (rgbToHSB c)"
proof -
  assume "rgb_ok c"
  then obtain r g b where c: "c = \<lparr>rgb_r = Fin (of_int r), rgb_g = Fin (of_int g), rgb_b = Fin (of_int b)\<rparr>"
    and "0 \<le> r" "r < 256" "0 \<le> g" "g < 256" "0 \<le> b" "b < 256"
    unfolding rgb_ok_def byte_int by (cases c) auto
  note q = this(2-)
  show ?thesis unfolding c hsb_ok_def using rgbToHSB_hue [OF q] rgbToHSB_parts [OF q] by blast
qed

section \<open>Colour schemes have the requested colours\<close>

lemma levelHSB_color:
  assumes "hsb_ok c" and "level = Fin l" "0 \<le> l" "l \<le> 2 ^ 900"
  shows "color_text (levelHSB c level)"
proof -
  obtain bq where b: "hsb_b c = Fin bq" "0 \<le> bq" "bq \<le> 100"
    using assms(1) by (auto simp: hsb_ok_def elim!: in_rangeE)
  have "(100 :: rat) \<le> 2 ^ 900"
    using power_increasing [of 7 900 "2 :: rat"] by simp
  then have "bq + l \<le> 2 ^ 901" using b assms(4) by simp
  then have "fl (bq + l) = Fin (rnd (bq + l)) \<and> 0 \<le> rnd (bq + l) \<and> rnd (bq + l) \<le> 2 ^ 901"
    using b assms(3) representable_pow2 [of 901] pow2_nat [of 901] power_increasing [of 901 1000 "2 :: rat"]
    by (intro fl_between) simp_all
  then have "hsb_ok \<lparr>hsb_h = hsb_h c, hsb_s = hsb_s c, hsb_b = math_min (hsb_b c + level) (Fin 100)\<rparr>"
    using assms(1,2) b by (simp add: hsb_ok_def in_range_def)
  then show ?thesis
    unfolding levelHSB_def by (intro toRGBString_color_text hsbToRGB_byte)
qed

lemma each_loop_push:
  "each_loop i vs (\<lambda>v _. push_local (h v)) (rs, s) = (Inr (), (rs @ map h vs, s))"
  by (induction vs arbitrary: i rs) (auto simp: push_local_def act_defs)

lemma generateColorscheme_list:
  fixes hex :: string
  assumes "0 \<le> n" "n \<le> 2 ^ 53"
  defines "c \<equiv> hexToHSB hex"
  shows "generateColorscheme hex (Fin (of_int n)) reverse =
    Some (Inr ((if reverse then rev else id) (map (\<lambda>i. levelHSB c
      ((Fin 100 - hsb_b c) / Fin (of_int n) * Fin (of_int i))) [0..n - 1])))"
  unfolding generateColorscheme_def Let_def c_def
  by (simp only: Number_times_int [OF assms(1,2)] each_loop_push) (simp add: comp_def)

lemma color_step:
  assumes "in_range 0 100 b" "0 < n" "n \<le> 2 ^ 53" "0 \<le> i" "i < n"
  obtains l where "(Fin 100 - b) / Fin (of_int n) * Fin (of_int i) = Fin l" "0 \<le> l" "l \<le> 2 ^ 900"
proof -
  obtain q where q: "b = Fin q" "0 \<le> q" "q \<le> 100" using assms(1) by (rule in_rangeE)
  obtain d where d: "fl (100 - q) = Fin d" "of_int 0 \<le> d" "d \<le> of_int 100"
    by (rule fl_range [of 0 "100 - q" 100]) (use q in simp_all)
  have "d / of_int n \<le> 100 / 1" using d assms(2) by (intro frac_le) simp_all
  moreover have "0 \<le> d / of_int n" using d assms(2) by simp
  ultimately obtain e where e: "fl (d / of_int n) = Fin e" "of_int 0 \<le> e" "e \<le> of_int 100"
    using fl_range [of 0 "d / of_int n" 100] by auto
  have p: "(128 :: rat) * 2 ^ 53 = 2 ^ 60" by simp
  have "(of_int i :: rat) \<le> of_int (2 ^ 53)" using assms(3,5) by (simp only: of_int_le_iff)
  then have "e * of_int i \<le> 128 * 2 ^ 53" using e assms(4) by (intro mult_mono) simp_all
  then have "e * of_int i \<le> 2 ^ 900" using p power_increasing [of 60 900 "2 :: rat"] by simp
  then have "fl (e * of_int i) = Fin (rnd (e * of_int i)) \<and> 0 \<le> rnd (e * of_int i) \<and>
      rnd (e * of_int i) \<le> 2 ^ 900"
    using e assms(4) representable_pow2 [of 900] pow2_nat [of 900] power_increasing [of 900 1000 "2 :: rat"]
    by (intro fl_between) simp_all
  then show ?thesis using that q d(1) e(1) assms(2) by simp
qed

lemma generateColorscheme_colors:
  assumes "color_text hex" "0 < n" "n \<le> 2 ^ 53"
  shows "\<exists>cs. generateColorscheme hex (Fin (of_int n)) reverse = Some (Inr cs) \<and>
    length cs = nat n \<and> (\<forall>c \<in> set cs. color_text c)"
proof -
  let ?c = "hexToHSB hex"
  let ?l = "\<lambda>i. (Fin 100 - hsb_b ?c) / Fin (of_int n) * Fin (of_int i)"
  have ok: "hsb_ok ?c" unfolding hexToHSB_def by (intro rgbToHSB_range hexToRGB_byte assms(1))
  have b: "in_range 0 100 (hsb_b ?c)" using ok by (simp add: hsb_ok_def)
  have "color_text (levelHSB ?c (?l i))" if i: "i \<in> set [0..n - 1]" for i
  proof -
    have "0 \<le> i" "i < n" using i by simp_all
    then obtain l where "?l i = Fin l" "0 \<le> l" "l \<le> 2 ^ 900"
      by (rule color_step [OF b assms(2,3)])
    then show ?thesis using ok by (intro levelHSB_color)
  qed
  then show ?thesis using generateColorscheme_list [of n hex reverse] assms(2,3)
    by (intro exI [of _ "(if reverse then rev else id) (map (\<lambda>i. levelHSB ?c (?l i)) [0..n - 1])"]) auto
qed

section \<open>Indices\<close>

lemma uniqueIndices_all:
  assumes "lst \<noteq> []" and "\<And>l. l \<in> set lst \<Longrightarrow> length l \<le> 2 ^ 53"
  shows "uniqueIndices lst = Some (Inr (map int_val [0..Max (int ` length ` set lst) - 1]))"
proof -
  let ?m = "Max (int ` length ` set lst)"
  have fin: "finite (int ` length ` set lst)" "int ` length ` set lst \<noteq> {}" using assms(1) by auto
  have m: "0 \<le> ?m" "?m \<le> 2 ^ 53"
  proof -
    obtain l where "l \<in> set lst" "?m = int (length l)" using Max_in [OF fin] by auto
    then show "0 \<le> ?m" "?m \<le> 2 ^ 53" using assms(2) [of l] by auto
  qed
  have vals: "map length_val lst = map (\<lambda>q. Num (Fin q)) (map (\<lambda>l. of_nat (length l)) lst)"
    by (simp add: length_val_def)
  have "Max ((of_int :: int \<Rightarrow> rat) ` int ` length ` set lst) = of_int ?m"
    using fin by (intro mono_Max_commute [symmetric]) (auto simp: mono_def)
  then have "Max (set (map (\<lambda>l. of_nat (length l) :: rat) lst)) = of_int ?m"
    by (simp add: image_image)
  then have "Enumerable_max (Array_each (map length_val lst)) None () = (Inr (Num (Fin (of_int ?m))), ())"
    unfolding vals max_numbers using assms(1) by simp
  moreover have "Number_times (Fin (of_int ?m)) (\<lambda>i _. push_local i) ([], ()) =
      Some (Inr (), (map int_val [0..?m - 1], ()))"
    unfolding Number_times_int [OF m] each_loop_push by simp
  ultimately show ?thesis by (simp add: uniqueIndices_def)
qed

section \<open>Properties of colours\<close>

text \<open>
  C23: \<^verbatim>\<open>hexToRGB\<close> reads back every colour that \<^verbatim>\<open>toRGBString\<close> writes.
\<close>

theorem color_roundtrip:
  assumes "rgb_ok c"
  shows "hexToRGB (toRGBString c) = c"
proof -
  obtain r g b where c: "c = \<lparr>rgb_r = Fin (of_int r), rgb_g = Fin (of_int g), rgb_b = Fin (of_int b)\<rparr>"
    and "0 \<le> r" "r < 256" "0 \<le> g" "g < 256" "0 \<le> b" "b < 256"
    using assms unfolding rgb_ok_def byte_int by (cases c) auto
  then show ?thesis using hexToRGB_toRGBString by blast
qed

theorem color_roundtrip_witness:
  "hexToRGB (toRGBString \<lparr>rgb_r = Fin 60, rgb_g = Fin 88, rgb_b = Fin 26\<rparr>) =
     \<lparr>rgb_r = Fin 60, rgb_g = Fin 88, rgb_b = Fin 26\<rparr>"
  by (rule color_roundtrip) (simp add: rgb_ok_def byte_def)

text \<open>
  \<^verbatim>\<open>hsbToRGB\<close> of a hue between 0 and 360 and percentages between 0 and 100 has integer
  components between 0 and 255, in spite of the rounding of every intermediate result.
\<close>

theorem hsbToRGB_components:
  assumes "hsb_ok c"
  shows "rgb_ok (hsbToRGB c)"
  by (rule hsbToRGB_byte [OF assms])

theorem hsbToRGB_components_witness:
  "rgb_ok (hsbToRGB \<lparr>hsb_h = Fin 87, hsb_s = Fin 70, hsb_b = Fin 35\<rparr>)"
  by (rule hsbToRGB_components) (simp add: hsb_ok_def in_range_def)

text \<open>
  C25: \<^verbatim>\<open>getColorscheme\<close> for a predefined name, or for a colour text that is no such name, returns as
  many colours as asked for, each a text of the form \<^verbatim>\<open>#rrggbb\<close>.
\<close>

theorem getColorscheme_colors:
  assumes "color \<in> fst ` set colorSchemes \<or> color_text color" "0 < n" "n \<le> 2 ^ 53"
  shows "\<exists>cs. getColorscheme color (Some (Fin (of_int n))) = Some (Inr cs) \<and>
    length cs = nat n \<and> (\<forall>c \<in> set cs. color_text c)"
proof -
  have t: "num_truthy (Fin (of_int n))" using assms(2) by (simp add: num_truthy_def)
  show ?thesis
  proof (cases "map_of colorSchemes color")
    case None
    then have "color \<notin> fst ` set colorSchemes" by (simp add: map_of_eq_None_iff)
    then show ?thesis using assms t None generateColorscheme_colors [of color n False]
      by (simp add: getColorscheme_def Let_def)
  next
    case (Some scheme)
    then have "scheme \<in> snd ` set colorSchemes" by (force dest: map_of_SomeD)
    then have "color_text scheme" by (auto simp: colorSchemes_def color_text_def hex_val_def is_digit_def)
    then show ?thesis using assms t Some generateColorscheme_colors [of scheme n False]
      by (simp add: getColorscheme_def Let_def)
  qed
qed

theorem getColorscheme_colors_witness:
  "\<exists>cs. getColorscheme ''blue'' (Some (Fin (of_int 4))) = Some (Inr cs) \<and>
    length cs = nat 4 \<and> (\<forall>c \<in> set cs. color_text c)"
  by (rule getColorscheme_colors) (simp_all add: colorSchemes_def)

text \<open>
  The scheme of undefined size is empty: \<^verbatim>\<open>times\<close> on \<^verbatim>\<open>NaN\<close> makes no step.
\<close>

theorem defaultScheme_NaN: "defaultScheme NaN = Some (Inr [])"
  by (simp add: defaultScheme_def generateColorscheme_def Number_times_NaN Let_def)

end
