(* ===== verification/Plotr_Chart.thy ===== *)
theory Plotr_Chart
  imports Plotr_Base JS_Prog
begin

text \<open>
  The state of a chart and \<^verbatim>\<open>htdocs/plotr/Chart.js\<close>, with the options, the reset and the set-up of
  \<^verbatim>\<open>htdocs/plotr/Canvas.js\<close>.  A chart object is a record; an operation takes the record to its
  result and the record after it, or throws, or does not return (\<open>None\<close>).
\<close>

section \<open>The state of a chart\<close>

record padding =
  pad_left :: jsnum
  pad_right :: jsnum
  pad_top :: jsnum
  pad_bottom :: jsnum

datatype scheme = Colors "string list" | Scheme string | BadScheme

text \<open>A tick of the option \<^verbatim>\<open>xTicks\<close> or \<^verbatim>\<open>yTicks\<close>; \<open>None\<close> is a missing label.\<close>

record tick =
  tick_v :: jsnum
  tick_label :: "string option"

datatype orientation = Vertical | Horizontal

record chart_options =
  sweetRender :: bool
  drawBackground :: bool
  backgroundLineColor :: string
  backgroundColor :: string
  opt_padding :: padding
  colorScheme :: scheme
  strokeColor :: string
  strokeWidth :: jsnum
  shouldFill :: bool
  shouldStroke :: bool
  drawXAxis :: bool
  drawYAxis :: bool
  axisTickSize :: jsnum
  axisLineColor :: string
  axisLineWidth :: jsnum
  axisLabelColor :: string
  axisLabelFont :: string
  axisLabelFontSize :: jsnum
  axisLabelWidth :: jsnum
  barWidthFillFraction :: jsnum
  barOrientation :: orientation
  xOriginIsZero :: bool
  yOriginIsZero :: bool
  xAxis :: "(jsnum \<times> jsnum) option"
  yAxis :: "(jsnum \<times> jsnum) option"
  xTicks :: "tick list option"
  yTicks :: "tick list option"
  xNumberOfTicks :: int
  yNumberOfTicks :: int
  xTickPrecision :: nat
  yTickPrecision :: nat
  pieRadius :: jsnum

text \<open>A property of an object of options that the user passes.\<close>

datatype setting =
    SweetRender bool | DrawBackground bool | BackgroundLineColor string | BackgroundColor string
  | Padding padding | ColorScheme scheme | StrokeColor string | StrokeWidth jsnum
  | ShouldFill bool | ShouldStroke bool | DrawXAxis bool | DrawYAxis bool
  | AxisTickSize jsnum | AxisLineColor string | AxisLineWidth jsnum | AxisLabelColor string
  | AxisLabelFont string | AxisLabelFontSize jsnum | AxisLabelWidth jsnum
  | BarWidthFillFraction jsnum | BarOrientation orientation | XOriginIsZero bool
  | YOriginIsZero bool | XAxis "(jsnum \<times> jsnum) option" | YAxis "(jsnum \<times> jsnum) option"
  | XTicks "tick list option" | YTicks "tick list option" | XNumberOfTicks int
  | YNumberOfTicks int | XTickPrecision nat | YTickPrecision nat | PieRadius jsnum

fun extend_setting :: "chart_options \<Rightarrow> setting \<Rightarrow> chart_options" where
  "extend_setting o1 (SweetRender v) = o1\<lparr>sweetRender := v\<rparr>"
| "extend_setting o1 (DrawBackground v) = o1\<lparr>drawBackground := v\<rparr>"
| "extend_setting o1 (BackgroundLineColor v) = o1\<lparr>backgroundLineColor := v\<rparr>"
| "extend_setting o1 (BackgroundColor v) = o1\<lparr>backgroundColor := v\<rparr>"
| "extend_setting o1 (Padding v) = o1\<lparr>opt_padding := v\<rparr>"
| "extend_setting o1 (ColorScheme v) = o1\<lparr>colorScheme := v\<rparr>"
| "extend_setting o1 (StrokeColor v) = o1\<lparr>strokeColor := v\<rparr>"
| "extend_setting o1 (StrokeWidth v) = o1\<lparr>strokeWidth := v\<rparr>"
| "extend_setting o1 (ShouldFill v) = o1\<lparr>shouldFill := v\<rparr>"
| "extend_setting o1 (ShouldStroke v) = o1\<lparr>shouldStroke := v\<rparr>"
| "extend_setting o1 (DrawXAxis v) = o1\<lparr>drawXAxis := v\<rparr>"
| "extend_setting o1 (DrawYAxis v) = o1\<lparr>drawYAxis := v\<rparr>"
| "extend_setting o1 (AxisTickSize v) = o1\<lparr>axisTickSize := v\<rparr>"
| "extend_setting o1 (AxisLineColor v) = o1\<lparr>axisLineColor := v\<rparr>"
| "extend_setting o1 (AxisLineWidth v) = o1\<lparr>axisLineWidth := v\<rparr>"
| "extend_setting o1 (AxisLabelColor v) = o1\<lparr>axisLabelColor := v\<rparr>"
| "extend_setting o1 (AxisLabelFont v) = o1\<lparr>axisLabelFont := v\<rparr>"
| "extend_setting o1 (AxisLabelFontSize v) = o1\<lparr>axisLabelFontSize := v\<rparr>"
| "extend_setting o1 (AxisLabelWidth v) = o1\<lparr>axisLabelWidth := v\<rparr>"
| "extend_setting o1 (BarWidthFillFraction v) = o1\<lparr>barWidthFillFraction := v\<rparr>"
| "extend_setting o1 (BarOrientation v) = o1\<lparr>barOrientation := v\<rparr>"
| "extend_setting o1 (XOriginIsZero v) = o1\<lparr>xOriginIsZero := v\<rparr>"
| "extend_setting o1 (YOriginIsZero v) = o1\<lparr>yOriginIsZero := v\<rparr>"
| "extend_setting o1 (XAxis v) = o1\<lparr>xAxis := v\<rparr>"
| "extend_setting o1 (YAxis v) = o1\<lparr>yAxis := v\<rparr>"
| "extend_setting o1 (XTicks v) = o1\<lparr>xTicks := v\<rparr>"
| "extend_setting o1 (YTicks v) = o1\<lparr>yTicks := v\<rparr>"
| "extend_setting o1 (XNumberOfTicks v) = o1\<lparr>xNumberOfTicks := v\<rparr>"
| "extend_setting o1 (YNumberOfTicks v) = o1\<lparr>yNumberOfTicks := v\<rparr>"
| "extend_setting o1 (XTickPrecision v) = o1\<lparr>xTickPrecision := v\<rparr>"
| "extend_setting o1 (YTickPrecision v) = o1\<lparr>yTickPrecision := v\<rparr>"
| "extend_setting o1 (PieRadius v) = o1\<lparr>pieRadius := v\<rparr>"

text \<open>An item of a dataset is an array of an x and a y value.\<close>

type_synonym item = "jsval \<times> jsval"

record area =
  area_x :: jsnum
  area_y :: jsnum
  area_w :: jsnum
  area_h :: jsnum

text \<open>Calls on a two-dimensional canvas context, with the assignments to its properties.\<close>

datatype cx_call =
    Save | Restore | BeginPath | ClosePath | Stroke | Fill
  | MoveTo jsnum jsnum | LineTo jsnum jsnum
  | Arc jsnum jsnum jsnum jsnum jsnum bool
  | FillRect jsnum jsnum jsnum jsnum | StrokeRect jsnum jsnum jsnum jsnum
  | SetFillStyle "string option" | SetStrokeStyle "string option" | SetLineWidth jsnum

record label =
  label_text :: string
  label_style :: "(string \<times> string) list"

record bar =
  bar_x :: jsnum
  bar_y :: jsnum
  bar_w :: jsnum
  bar_h :: jsnum
  bar_xval :: jsnum
  bar_yval :: jsnum
  bar_name :: string

record point =
  point_x :: jsnum
  point_y :: jsnum
  point_xval :: jsnum
  point_yval :: jsnum
  point_name :: string

record pie_slice =
  fraction :: jsnum
  slice_xval :: jsval
  slice_yval :: jsval
  startAngle :: jsnum
  endAngle :: jsnum

datatype chart_type = Bar | Line | Pie

text \<open>
  The fields of a chart.  \<open>sets\<close> is \<^verbatim>\<open>undefined\<close> (\<open>None\<close>) until \<^verbatim>\<open>initialize\<close> sets it; \<open>maxxval\<close>, \<open>xscale\<close>,
  \<open>maxyval\<close> and \<open>yscale\<close> may be \<^verbatim>\<open>null\<close> (\<open>None\<close>).  An entry of \<open>xticks\<close> or \<open>yticks\<close> is a position with a label, or
  \<^verbatim>\<open>undefined\<close> (\<open>None\<close>).  \<open>renderDelay\<close> is the executer that waits for VML, with whether its timer runs.
  \<open>calls\<close> are the calls made so far on the canvas context, \<open>nodes\<close> the labels in the container.
\<close>

record chart =
  chart_kind :: chart_type
  options :: chart_options
  sets :: "int option"
  dataStores :: "(string \<times> item list) list"
  stores :: "item list list"
  minxval :: jsnum
  maxxval :: "jsnum option"
  xscale :: "jsnum option"
  minyval :: jsnum
  maxyval :: "jsnum option"
  yscale :: "jsnum option"
  xticks :: "(jsval \<times> jsval) option list"
  yticks :: "(jsval \<times> jsval) option list"
  minxdelta :: jsnum
  xrange :: jsnum
  yrange :: jsnum
  canvas_width :: jsnum
  canvas_height :: jsnum
  plot_area :: area
  isIE :: bool
  maxTries :: int
  renderDelay :: "bool option"
  renderStack :: "(string \<times> setting list option) list"
  bars :: "bar list"
  points :: "point list"
  slices :: "pie_slice list"
  xlabels :: "label list"
  ylabels :: "label list"
  calls :: "cx_call list"
  nodes :: "label list"

text \<open>A number field in arithmetic: \<^verbatim>\<open>null\<close> counts as 0.\<close>

definition num_of :: "jsnum option \<Rightarrow> jsnum" where
  "num_of n = (case n of None \<Rightarrow> Fin 0 | Some x \<Rightarrow> x)"

lemma num_of_Some [simp]: "num_of (Some n) = n"
  by (simp add: num_of_def)

definition parseFloat_val :: "jsval \<Rightarrow> jsnum" where
  "parseFloat_val v = parseFloat (to_str v)"

section \<open>Options\<close>

definition default_options :: "string list \<Rightarrow> chart_options" where
  "default_options cs =
     \<lparr>sweetRender = True, drawBackground = True, backgroundLineColor = ''#ffffff'',
      backgroundColor = ''#f5f5f5'',
      opt_padding = \<lparr>pad_left = Fin 30, pad_right = Fin 30, pad_top = Fin 5, pad_bottom = Fin 10\<rparr>,
      colorScheme = Colors cs, strokeColor = ''#ffffff'', strokeWidth = Fin (1 / 2),
      shouldFill = True, shouldStroke = True, drawXAxis = True, drawYAxis = True,
      axisTickSize = Fin 3, axisLineColor = ''#000000'', axisLineWidth = Fin (1 / 2),
      axisLabelColor = ''#666666'', axisLabelFont = ''Arial'', axisLabelFontSize = Fin 9,
      axisLabelWidth = Fin 50, barWidthFillFraction = Fin (3 / 4), barOrientation = Vertical,
      xOriginIsZero = True, yOriginIsZero = True, xAxis = None, yAxis = None,
      xTicks = None, yTicks = None, xNumberOfTicks = 10, yNumberOfTicks = 10,
      xTickPrecision = 1, yTickPrecision = 1, pieRadius = fl (2 / 5)\<rparr>"

text \<open>\<^verbatim>\<open>Math.max(this.sets, 3)\<close>; \<^verbatim>\<open>undefined\<close> counts as \<^verbatim>\<open>NaN\<close>.\<close>

definition scheme_size :: "int option \<Rightarrow> jsnum" where
  "scheme_size n = math_max (case n of None \<Rightarrow> NaN | Some k \<Rightarrow> Fin (of_int k)) (Fin 3)"

definition setOptions :: "setting list option \<Rightarrow> (chart, unit) prog" where
  "setOptions opts =
     p_bind (p_get sets) (\<lambda>n.
     p_bind (p_lift (defaultScheme (scheme_size n))) (\<lambda>cs.
     p_mod (\<lambda>c. c\<lparr>options := foldl extend_setting (default_options cs)
                    (case opts of None \<Rightarrow> [] | Some os \<Rightarrow> os)\<rparr>)))"

text \<open>\<^verbatim>\<open>this.renderDelay.stop()\<close>\<close>

definition stop_delay :: "chart \<Rightarrow> chart" where
  "stop_delay c = c\<lparr>renderDelay := map_option (\<lambda>_. False) (renderDelay c)\<rparr>"

definition Canvas_reset :: "(chart, unit) prog" where
  "Canvas_reset =
     p_then (setOptions None)
       (p_mod (\<lambda>c. (stop_delay (c\<lparr>dataStores := []\<rparr>))\<lparr>renderDelay := None\<rparr>))"

section \<open>Setting up\<close>

text \<open>
  What the page has under the id of the canvas: its size, the name of the node around it; whether
  the browser is Internet Explorer, has the VML manager, and supports canvas elements.  A manager that is
  declared is not \<^verbatim>\<open>null\<close>: \<^verbatim>\<open>excanvas.js\<close>, which declares it, gives it its value in the same statement.
\<close>

record page =
  page_canvas :: "(jsnum \<times> jsnum) option"
  page_parent :: "string option"
  page_msie :: bool
  page_vml :: bool
  page_supported :: bool

definition initCanvas :: "page \<Rightarrow> (chart, unit) prog" where
  "initCanvas pg =
     (case page_canvas pg of
        None \<Rightarrow> p_throw TypeError
      | Some (w, h) \<Rightarrow>
          p_then (p_mod (\<lambda>c. c\<lparr>canvas_width := w, canvas_height := h\<rparr>))
          (case page_parent pg of
             None \<Rightarrow> p_throw TypeError
           | Some nodeName \<Rightarrow>
               p_then (p_mod (\<lambda>c. c\<lparr>isIE := page_msie pg\<rparr>))
              (p_then (if \<not> page_msie pg then p_ret ()
                 else if \<not> page_vml pg then p_throw ReferenceError
                 else p_mod (\<lambda>c. c\<lparr>maxTries := 10, renderDelay := None, renderStack := []\<rparr>))
              (if toLowerCase nodeName \<noteq> ''div''
               then p_throw (Thrown (Str ''Plotr.Canvas(): Canvas element is not enclosed by a <div> element.''))
               else if \<not> page_msie pg \<and> \<not> page_supported pg
               then p_throw (Thrown (Str ''Plotr.Canvas(): Canvas is not supported.''))
               else p_mod (\<lambda>c. let p = opt_padding (options c) in
                 c\<lparr>xlabels := [], ylabels := [],
                   plot_area := \<lparr>area_x = pad_left p, area_y = pad_top p,
                     area_w = w - pad_left p - pad_right p,
                     area_h = h - pad_top p - pad_bottom p\<rparr>\<rparr>)))))"

definition Chart_initialize :: "page \<Rightarrow> setting list option \<Rightarrow> (chart, unit) prog" where
  "Chart_initialize pg opts =
     p_then (setOptions opts)
    (p_then (p_mod (\<lambda>c. c\<lparr>sets := Some 0, dataStores := []\<rparr>))
    (p_then (p_mod (\<lambda>c. case xAxis (options c) of
        Some (a, b) \<Rightarrow> c\<lparr>minxval := a, maxxval := Some b, xscale := Some (b - a)\<rparr>
      | None \<Rightarrow> c\<lparr>minxval := Fin 0, maxxval := None, xscale := None\<rparr>))
    (p_then (p_mod (\<lambda>c. case yAxis (options c) of
        Some (a, b) \<Rightarrow> c\<lparr>minyval := a, maxyval := Some b, yscale := Some (b - a)\<rparr>
      | None \<Rightarrow> c\<lparr>minyval := Fin 0, maxyval := None, yscale := None\<rparr>))
    (p_then (p_mod (\<lambda>c. c\<lparr>xticks := [], yticks := [], minxdelta := Fin 0,
        xrange := Fin 1, yrange := Fin 1\<rparr>))
      (initCanvas pg)))))"

section \<open>Data\<close>

text \<open>\<^verbatim>\<open>addDataset(store)\<close>: the datasets are the properties of \<^verbatim>\<open>store\<close>, in their order.\<close>

definition addDataset :: "(string \<times> item list) list \<Rightarrow> chart \<Rightarrow> chart" where
  "addDataset store c = foldl (\<lambda>c (name, data).
     c\<lparr>dataStores := set_prop name data (dataStores c), sets := map_option (\<lambda>n. n + 1) (sets c)\<rparr>) c store"

text \<open>
  \<^verbatim>\<open>addTable(table, x, y, xticks)\<close>: \<open>rows\<close> are the contents of the cells; \<open>None\<close> is an argument left out.
  Reading the cells of a row of tick labels that is not there throws.
\<close>

definition table_cells :: "int \<Rightarrow> string list \<Rightarrow> string list" where
  "table_cells x cells = map snd (filter (\<lambda>(index, _). \<not> int index < x) (enumerate 0 cells))"

definition addTable :: "string list list \<Rightarrow> int option \<Rightarrow> nat option \<Rightarrow> int option \<Rightarrow> (chart, unit) prog" where
  "addTable rows x y xt =
     (let x = (case x of None \<Rightarrow> 0 | Some v \<Rightarrow> v);
          y = (case y of None \<Rightarrow> 1 | Some v \<Rightarrow> v);
          xt = (case xt of None \<Rightarrow> - 1 | Some v \<Rightarrow> v);
          store = map (\<lambda>i. (''row_'' @ digits 10 (int i),
             map (\<lambda>(j, cell). (Num (Fin (of_nat j)), Num (parseFloat cell)))
               (enumerate 0 (table_cells x (rows ! i))))) [y..<length rows]
      in p_then
           (if xt < 0 then p_ret ()
            else if int (length rows) \<le> xt then p_throw TypeError
            else p_mod (\<lambda>c. c\<lparr>options := (options c)\<lparr>xTicks := Some
              (map (\<lambda>(t, cell). \<lparr>tick_v = Fin (of_nat t), tick_label = Some cell\<rparr>)
                 (enumerate 0 (table_cells x (rows ! nat xt))))\<rparr>\<rparr>))
           (p_mod (addDataset store)))"

section \<open>Measures\<close>

text \<open>The values \<^verbatim>\<open>min()\<close> and \<^verbatim>\<open>max()\<close> of an array.\<close>

definition min_of :: "jsval list \<Rightarrow> jsval" where
  "min_of xs = (case Enumerable_min (Array_each xs) None () of (Inr v, _) \<Rightarrow> v | _ \<Rightarrow> Undefined)"

definition max_of :: "jsval list \<Rightarrow> jsval" where
  "max_of xs = (case Enumerable_max (Array_each xs) None () of (Inr v, _) \<Rightarrow> v | _ \<Rightarrow> Undefined)"

definition data_of :: "(item \<Rightarrow> jsval) \<Rightarrow> item list list \<Rightarrow> jsval list" where
  "data_of f ss = Array_flatten (map (\<lambda>s. Arr 0 (map f s)) ss)"

definition evalXY :: "chart \<Rightarrow> chart" where
  "evalXY c =
     (let xdata = data_of fst (stores c);
          (x0, x1) = (case xAxis (options c) of
             None \<Rightarrow> (if xOriginIsZero (options c) then Fin 0 else parseFloat_val (min_of xdata),
                      parseFloat_val (max_of xdata))
           | Some (a, b) \<Rightarrow> (a, b));
          xr = x1 - x0;
          ydata = data_of snd (stores c);
          (y0, y1) = (case yAxis (options c) of
             None \<Rightarrow> (if yOriginIsZero (options c) then Fin 0 else parseFloat_val (min_of ydata),
                      parseFloat_val (max_of ydata))
           | Some (a, b) \<Rightarrow> (a, b));
          yr = y1 - y0
      in c\<lparr>minxval := x0, maxxval := Some x1, xrange := xr,
           xscale := Some (if num_eq xr (Fin 0) then Fin 1 else Fin 1 / xr),
           minyval := y0, maxyval := Some y1, yrange := yr,
           yscale := Some (if num_eq yr (Fin 0) then Fin 1 else Fin 1 / yr)\<rparr>)"

definition setColorscheme :: "(chart, unit) prog" where
  "setColorscheme c =
     (case colorScheme (options c) of
        Colors _ \<Rightarrow> p_ret () c
      | Scheme s \<Rightarrow>
          (case (if chart_kind c = Pie
                 then (case stores c of [] \<Rightarrow> Some (Inl TypeError)
                       | st # _ \<Rightarrow> getColorscheme s (Some (math_max (Fin (of_nat (length st))) (Fin 3))))
                 else getColorscheme s (Some (scheme_size (sets c)))) of
             None \<Rightarrow> None
           | Some (Inl e) \<Rightarrow> Some (Inl e, c)
           | Some (Inr cs) \<Rightarrow> Some (Inr (), c\<lparr>options := (options c)\<lparr>colorScheme := Colors cs\<rparr>\<rparr>))
      | BadScheme \<Rightarrow> Some (Inl (Thrown (Str ''Plotr.Canvas.setColorscheme(): colorScheme is invalid!'')), c))"

definition Chart_eval :: "setting list option \<Rightarrow> (chart, unit) prog" where
  "Chart_eval opts =
     p_then (case opts of None \<Rightarrow> p_ret () | Some os \<Rightarrow> setOptions (Some os))
    (p_then (p_mod (\<lambda>c. c\<lparr>stores := map snd (dataStores c)\<rparr>))
    (p_then (p_mod evalXY) setColorscheme))"

section \<open>Ticks\<close>

definition in_unit :: "jsnum \<Rightarrow> bool" where
  "in_unit p \<longleftrightarrow> Fin 0 \<le> p \<and> p \<le> Fin 1"

definition tick_text :: "tick \<Rightarrow> jsval" where
  "tick_text t = Str (case tick_label t of Some l \<Rightarrow> l | None \<Rightarrow> num_to_string (tick_v t))"

text \<open>The loop over the indices, with the position one after the last, where \<^verbatim>\<open>uniqx[i]\<close> is \<^verbatim>\<open>undefined\<close>.\<close>

fun xtick_loop :: "jsnum \<Rightarrow> jsnum \<Rightarrow> jsnum \<Rightarrow> int \<Rightarrow> jsnum list \<Rightarrow> int
    \<Rightarrow> (jsval \<times> jsval) option list" where
  "xtick_loop x0 sc sep n [] k = []"
| "xtick_loop x0 sc sep n (u # us) k =
     (if Fin (of_int k) * sep \<le> u - x0 then
        (let pos = sc * (u - x0) in
         if Fin 1 < pos \<or> pos < Fin 0 then xtick_loop x0 sc sep n us k
         else Some (Num pos, Num u) #
           (if n < k + 1 then [] else xtick_loop x0 sc sep n us (k + 1)))
      else if n < k then [] else xtick_loop x0 sc sep n us k)"

definition evalLineTicksForXAxis :: "(chart, unit) prog" where
  "evalLineTicksForXAxis c =
     (case xTicks (options c) of
        Some ts \<Rightarrow> Some (Inr (), c\<lparr>xticks := map (\<lambda>t.
          (let pos = num_of (xscale c) * (tick_v t - minxval c)
           in if in_unit pos then Some (Num pos, tick_text t) else None)) ts\<rparr>)
      | None \<Rightarrow>
          if xNumberOfTicks (options c) = 0 then Some (Inr (), c)
          else (case uniqueIndices (stores c) of
                  None \<Rightarrow> None
                | Some (Inl e) \<Rightarrow> Some (Inl e, c)
                | Some (Inr uniqx) \<Rightarrow>
                    Some (Inr (), c\<lparr>xticks := xtick_loop (minxval c) (num_of (xscale c))
                      (xrange c / Fin (of_int (xNumberOfTicks (options c))))
                      (xNumberOfTicks (options c)) (map to_num uniqx @ [NaN]) 0\<rparr>)))"

definition evalLineTicksForYAxis :: "(chart, unit) prog" where
  "evalLineTicksForYAxis c =
     (case yTicks (options c) of
        Some ts \<Rightarrow> Some (Inr (), c\<lparr>yticks := map (\<lambda>t.
          (let pos = Fin 1 - num_of (yscale c) * (tick_v t - minyval c)
           in if in_unit pos then Some (Num pos, tick_text t) else None)) ts\<rparr>)
      | None \<Rightarrow>
          if yNumberOfTicks (options c) = 0 then Some (Inr (), c)
          else
            (let n = yNumberOfTicks (options c); prec = yTickPrecision (options c) in
             case num_toFixed prec (yrange c / Fin (of_int n)) of
               None \<Rightarrow> Some (Inl RangeError, c\<lparr>yticks := []\<rparr>)
             | Some roughSeparation \<Rightarrow>
                 Some (Inr (), c\<lparr>yticks := concat (map (\<lambda>i.
                   (let yval = minyval c + Fin (of_int i) * string_to_num roughSeparation;
                        pos = Fin 1 - (yval - minyval c) * num_of (yscale c)
                    in if Fin 1 < pos \<or> pos < Fin 0 then []
                       else [Some (Num pos, Str (case num_toFixed prec yval of Some t \<Rightarrow> t | None \<Rightarrow> []))]))
                   [0..n])\<rparr>)))"

definition evalLineTicks :: "(chart, unit) prog" where
  "evalLineTicks = p_then evalLineTicksForXAxis evalLineTicksForYAxis"


section \<open>Numeric data\<close>

text \<open>A value that is a finite number and that \<^verbatim>\<open>parseFloat\<close> reads back from its text.\<close>

definition plain_number :: "jsval \<Rightarrow> bool" where
  "plain_number v \<longleftrightarrow> (case v of Num (Fin q) \<Rightarrow> parseFloat_val v = Fin q \<and> \<bar>q\<bar> \<le> pow2 900 | _ \<Rightarrow> False)"

definition num_val :: "jsval \<Rightarrow> rat" where
  "num_val v = (case v of Num (Fin q) \<Rightarrow> q | _ \<Rightarrow> 0)"

lemma plain_numberD:
  "plain_number v \<Longrightarrow> v = Num (Fin (num_val v)) \<and> parseFloat_val v = Fin (num_val v) \<and> \<bar>num_val v\<bar> \<le> pow2 900"
  by (auto simp: plain_number_def num_val_def split: jsval.splits jsnum.splits)

lemma plain_number_int: "\<bar>z\<bar> < 2 ^ 53 \<Longrightarrow> plain_number (int_val z)"
proof -
  assume z: "\<bar>z\<bar> < 2 ^ 53"
  have "\<bar>of_int z\<bar> \<le> (2 ^ 53 :: rat)" using z by (simp flip: of_int_abs)
  also have "\<dots> \<le> 2 ^ 900" by (rule power_increasing) simp_all
  finally show ?thesis using parseFloat_int [OF z] pow2_nat [of 900]
    by (simp add: plain_number_def parseFloat_val_def)
qed

lemma data_of_numbers:
  assumes "\<And>it. it \<in> set (concat ss) \<Longrightarrow> plain_number (f it)"
  shows "data_of f ss = map (\<lambda>q. Num (Fin q)) (map (num_val \<circ> f) (concat ss))"
proof -
  have "flatten_value (Arr 0 (map f s)) = map f s" if "s \<in> set ss" for s
    unfolding flatten_value_Arr
  proof (rule concat_map_singleton)
    fix v assume "v \<in> set (map f s)"
    then have "plain_number v" using assms that by auto
    then show "flatten_value v = [v]" using plain_numberD [of v] by (metis flatten_value.simps(5))
  qed
  then have "data_of f ss = concat (map (map f) ss)"
    unfolding data_of_def Array_flatten_concat by (simp add: comp_def cong: map_cong)
  also have "\<dots> = map f (concat ss)" by (simp add: map_concat)
  also have "\<dots> = map (\<lambda>q. Num (Fin q)) (map (num_val \<circ> f) (concat ss))"
    using assms plain_numberD by (simp add: comp_def)
  finally show ?thesis .
qed

text \<open>The origin of an axis, its scale, and where the values of the data lie on it.\<close>

definition axis_origin :: "bool \<Rightarrow> rat list \<Rightarrow> rat" where
  "axis_origin zero qs = (if zero then 0 else Min (set qs))"

definition axis_ok :: "bool \<Rightarrow> rat list \<Rightarrow> bool" where
  "axis_ok zero qs \<longleftrightarrow> qs \<noteq> [] \<and> (\<forall>q \<in> set qs. \<bar>q\<bar> \<le> pow2 900) \<and>
     (Max (set qs) = axis_origin zero qs \<or> pow2 (- 900) \<le> \<bar>Max (set qs) - axis_origin zero qs\<bar>)"

definition axis_scale :: "rat \<Rightarrow> rat \<Rightarrow> jsnum" where
  "axis_scale x0 x1 = (let r = Fin x1 - Fin x0 in if num_eq r (Fin 0) then Fin 1 else Fin 1 / r)"

lemma axis_bounds:
  assumes "axis_ok zero qs"
  shows "\<bar>axis_origin zero qs\<bar> \<le> pow2 900" "\<bar>Max (set qs)\<bar> \<le> pow2 900"
proof -
  have "Min (set qs) \<in> set qs" "Max (set qs) \<in> set qs" using assms by (simp_all add: axis_ok_def)
  then show "\<bar>axis_origin zero qs\<bar> \<le> pow2 900" "\<bar>Max (set qs)\<bar> \<le> pow2 900"
    using assms by (auto simp: axis_ok_def axis_origin_def simp del: Max_in Min_in)
qed

lemma fl_diff:
  assumes "\<bar>a\<bar> \<le> pow2 900" "\<bar>b\<bar> \<le> pow2 900"
  shows "fl (a - b) = Fin (rnd (a - b))" "\<bar>rnd (a - b)\<bar> \<le> pow2 901"
proof -
  have p: "pow2 901 = 2 * pow2 900" using pow2_add [of 1 900] by simp
  have d: "\<bar>a - b\<bar> \<le> pow2 901" using assms unfolding p by linarith
  then show "\<bar>rnd (a - b)\<bar> \<le> pow2 901" by (intro abs_rnd_le representable_pow2) simp_all
  have "pow2 901 \<le> pow2 1000" by (subst pow2_le_iff) simp
  also have "\<dots> = 2 ^ 1000" using pow2_nat [of 1000] by simp
  finally show "fl (a - b) = Fin (rnd (a - b))" using d by (intro fl_finite) simp
qed

lemma axis_place:
  assumes ok: "axis_ok zero qs" and q: "q \<in> set qs" "axis_origin zero qs \<le> q"
  defines "x0 \<equiv> axis_origin zero qs" and "x1 \<equiv> Max (set qs)"
  shows "in_unit ((Fin q - Fin x0) * axis_scale x0 x1)"
proof -
  note b = axis_bounds [OF ok, folded x0_def x1_def]
  have le: "q \<le> x1" using q(1) by (simp add: x1_def)
  have bq: "\<bar>q\<bar> \<le> pow2 900" using ok q(1) by (simp add: axis_ok_def)
  note r = fl_diff [OF b(2,1)] and d = fl_diff [OF bq b(1)]
  let ?r = "rnd (x1 - x0)" and ?d = "rnd (q - x0)"
  have dr: "0 \<le> ?d" "?d \<le> ?r" using le q(2) by (auto simp: x0_def intro: rnd_nonneg rnd_mono)
  show ?thesis
  proof (cases "?r = 0")
    case True
    then have "?d = 0" using dr by simp
    then show ?thesis using True r d by (simp add: axis_scale_def num_eq_def in_unit_def Let_def)
  next
    case False
    then have "x1 \<noteq> x0" by auto
    then have "pow2 (- 900) \<le> \<bar>x1 - x0\<bar>" using ok by (simp add: axis_ok_def x0_def x1_def)
    moreover have "0 \<le> x1 - x0" using le q(2) by (simp add: x0_def)
    ultimately have "pow2 (- 900) \<le> x1 - x0" by simp
    then have "pow2 (- 900) \<le> ?r" by (intro rnd_ge_repr representable_pow2) simp_all
    moreover have "pow2 (- 901) \<le> pow2 (- 900)" by (subst pow2_le_iff) simp
    ultimately have lo: "pow2 (- 901) \<le> ?r" by linarith
    have hi: "?r \<le> pow2 901" using r(2) by simp
    note s = scaled_into_unit [OF dr lo hi]
    have "axis_scale x0 x1 = Fin (rnd (1 / ?r))"
      using False r(1) s(1) by (simp add: axis_scale_def num_eq_def Let_def)
    then have "(Fin q - Fin x0) * axis_scale x0 x1 = Fin (rnd (?d * rnd (1 / ?r)))"
      using d(1) s(2) by simp
    then show ?thesis using s(3,4) by (simp add: in_unit_def)
  qed
qed

text \<open>On an axis with such data no position is \<^verbatim>\<open>NaN\<close>.\<close>

lemma axis_not_NaN:
  assumes ok: "axis_ok zero qs" and q: "\<bar>q\<bar> \<le> pow2 900"
  defines "x0 \<equiv> axis_origin zero qs" and "x1 \<equiv> Max (set qs)"
  shows "Fin 1 - (Fin q - Fin x0) * axis_scale x0 x1 \<noteq> NaN"
proof -
  note b = axis_bounds [OF ok, folded x0_def x1_def]
  note r = fl_diff [OF b(2,1)] and d = fl_diff [OF q b(1)]
  have nn: "fl z \<noteq> NaN" for z by (simp add: fl_def Let_def)
  have m: "Fin 1 - n \<noteq> NaN" if "n \<noteq> NaN" for n
    using that nn by (cases n) (auto simp: minus_jsnum_def num_sub_def)
  have sc: "\<exists>s. axis_scale x0 x1 = Fin s"
  proof (cases "rnd (x1 - x0) = 0")
    case True
    then show ?thesis using r(1) by (simp add: axis_scale_def num_eq_def Let_def)
  next
    case False
    then have "x1 \<noteq> x0" by auto
    then have g: "pow2 (- 900) \<le> \<bar>x1 - x0\<bar>" using ok by (simp add: axis_ok_def x0_def x1_def)
    let ?r = "rnd (x1 - x0)"
    have "pow2 (- 900) \<le> \<bar>?r\<bar>"
    proof (cases "0 \<le> x1 - x0")
      case True
      then have "pow2 (- 900) \<le> ?r" using g by (intro rnd_ge_repr representable_pow2) simp_all
      then show ?thesis by simp
    next
      case False
      then have "pow2 (- 900) \<le> rnd (- (x1 - x0))" using g by (intro rnd_ge_repr representable_pow2) simp_all
      then show ?thesis by (simp only: rnd_minus)
    qed
    then have "\<bar>1 / ?r\<bar> \<le> 1 / pow2 (- 900)"
      by (simp only: abs_divide abs_one) (intro divide_left_mono, simp_all add: False)
    also have "\<dots> = pow2 900" by (simp only: power_int_minus inverse_eq_divide) simp
    also have "\<dots> \<le> pow2 1000" by (subst pow2_le_iff) simp
    also have "\<dots> = 2 ^ 1000" using pow2_nat [of 1000] by simp
    finally have "fl (1 / ?r) = Fin (rnd (1 / ?r))" by (rule fl_finite)
    then show ?thesis using False r(1) by (simp add: axis_scale_def num_eq_def Let_def)
  qed
  then obtain s where "axis_scale x0 x1 = Fin s" by blast
  then show ?thesis using d(1) nn by (intro m) simp
qed


section \<open>The measures of numeric data\<close>

abbreviation all_items :: "chart \<Rightarrow> item list" where
  "all_items c \<equiv> concat (map snd (dataStores c))"

abbreviation x_values :: "chart \<Rightarrow> rat list" where
  "x_values c \<equiv> map (num_val \<circ> fst) (all_items c)"

abbreviation y_values :: "chart \<Rightarrow> rat list" where
  "y_values c \<equiv> map (num_val \<circ> snd) (all_items c)"

text \<open>Data of numbers, with axes that are left to the chart, and options that are valid.\<close>

definition numeric_chart :: "chart \<Rightarrow> bool" where
  "numeric_chart c \<longleftrightarrow>
     (\<forall>it \<in> set (all_items c). plain_number (fst it) \<and> plain_number (snd it)) \<and>
     (\<forall>s \<in> snd ` set (dataStores c). length s \<le> 2 ^ 53) \<and>
     xAxis (options c) = None \<and> yAxis (options c) = None \<and>
     axis_ok (xOriginIsZero (options c)) (x_values c) \<and>
     axis_ok (yOriginIsZero (options c)) (y_values c) \<and>
     (\<exists>cs. colorScheme (options c) = Colors cs) \<and> yTickPrecision (options c) \<le> 20"

lemma axis_values:
  assumes "\<And>it. it \<in> set (concat ss) \<Longrightarrow> plain_number (f it)" and "concat ss \<noteq> []"
  defines "qs \<equiv> map (num_val \<circ> f) (concat ss)"
  shows "parseFloat_val (min_of (data_of f ss)) = Fin (Min (set qs))"
    "parseFloat_val (max_of (data_of f ss)) = Fin (Max (set qs))"
proof -
  have ne: "qs \<noteq> []" using assms(2) by (simp add: qs_def)
  have rd: "parseFloat_val (Num (Fin q)) = Fin q" if "q \<in> set qs" for q
  proof -
    have "q \<in> (num_val \<circ> f) ` set (concat ss)" using that by (simp only: qs_def set_map)
    then obtain it where "q = (num_val \<circ> f) it" "it \<in> set (concat ss)" by (rule imageE)
    then have "q = num_val (f it)" "plain_number (f it)" using assms(1) by simp_all
    then show ?thesis using plain_numberD [of "f it"] by simp
  qed
  have d: "data_of f ss = map (\<lambda>q. Num (Fin q)) qs"
    unfolding qs_def by (rule data_of_numbers) (rule assms(1))
  have "Min (set qs) \<in> set qs" "Max (set qs) \<in> set qs" using ne by simp_all
  then show "parseFloat_val (min_of (data_of f ss)) = Fin (Min (set qs))"
    "parseFloat_val (max_of (data_of f ss)) = Fin (Max (set qs))"
    unfolding d min_of_def max_of_def max_numbers min_numbers using ne rd by simp_all
qed

lemma evalXY_numeric:
  assumes "numeric_chart c" and "stores c = map snd (dataStores c)"
  defines "x0 \<equiv> axis_origin (xOriginIsZero (options c)) (x_values c)"
    and "y0 \<equiv> axis_origin (yOriginIsZero (options c)) (y_values c)"
  shows "evalXY c = c\<lparr>minxval := Fin x0, maxxval := Some (Fin (Max (set (x_values c)))),
      xrange := Fin (Max (set (x_values c))) - Fin x0,
      xscale := Some (axis_scale x0 (Max (set (x_values c)))),
      minyval := Fin y0, maxyval := Some (Fin (Max (set (y_values c)))),
      yrange := Fin (Max (set (y_values c))) - Fin y0,
      yscale := Some (axis_scale y0 (Max (set (y_values c))))\<rparr>"
proof -
  have ne: "all_items c \<noteq> []" using assms(1) by (auto simp: numeric_chart_def axis_ok_def)
  have pn: "plain_number (fst it)" "plain_number (snd it)" if "it \<in> set (all_items c)" for it
    using assms(1) that unfolding numeric_chart_def by blast+
  note v = axis_values [of "map snd (dataStores c)" fst, OF pn(1) ne, folded assms(2)]
    axis_values [of "map snd (dataStores c)" snd, OF pn(2) ne, folded assms(2)]
  show ?thesis
    using assms(1) v unfolding evalXY_def numeric_chart_def
    by (simp add: x0_def y0_def axis_origin_def axis_scale_def Let_def assms(2))
qed

lemma Chart_eval_numeric:
  assumes "numeric_chart c"
  defines "c1 \<equiv> c\<lparr>stores := map snd (dataStores c)\<rparr>"
  shows "Chart_eval None c = Some (Inr (), evalXY c1)"
proof -
  have "options (evalXY c1) = options c" by (simp add: evalXY_def c1_def Let_def split: option.splits prod.splits)
  then show ?thesis using assms(1)
    by (auto simp: Chart_eval_def prog_defs setColorscheme_def numeric_chart_def c1_def)
qed

section \<open>Ticks of numeric data\<close>

lemma xTicks_returns:
  assumes "stores c \<noteq> []" and "\<And>s. s \<in> set (stores c) \<Longrightarrow> length s \<le> 2 ^ 53"
  shows "\<exists>ts. evalLineTicksForXAxis c = Some (Inr (), c\<lparr>xticks := ts\<rparr>)"
proof -
  have same: "\<exists>ts. c = c\<lparr>xticks := ts\<rparr>" by (rule exI [of _ "xticks c"]) simp
  show ?thesis
  proof (cases "xTicks (options c)")
    case None
    then show ?thesis using same uniqueIndices_all [OF assms]
      by (cases "xNumberOfTicks (options c) = 0") (auto simp: evalLineTicksForXAxis_def)
  next
    case (Some ts)
    then show ?thesis by (auto simp: evalLineTicksForXAxis_def)
  qed
qed

lemma yTicks_returns:
  assumes "yTickPrecision (options c) \<le> 20"
  shows "\<exists>ts. evalLineTicksForYAxis c = Some (Inr (), c\<lparr>yticks := ts\<rparr>)"
proof -
  have same: "\<exists>ts. c = c\<lparr>yticks := ts\<rparr>" by (rule exI [of _ "yticks c"]) simp
  have "\<exists>t. num_toFixed (yTickPrecision (options c)) n = Some t" for n using assms by simp
  then obtain t where t: "num_toFixed (yTickPrecision (options c))
      (yrange c / Fin (of_int (yNumberOfTicks (options c)))) = Some t" by blast
  show ?thesis
  proof (cases "yTicks (options c)")
    case None
    then show ?thesis using same t
      by (cases "yNumberOfTicks (options c) = 0")
        (auto simp: evalLineTicksForYAxis_def Let_def simp del: num_toFixed.simps)
  next
    case (Some ts)
    then show ?thesis by (auto simp: evalLineTicksForYAxis_def)
  qed
qed


text \<open>Integer data always has valid axes.\<close>

lemma axis_ok_ints:
  assumes "zs \<noteq> []" and "\<And>z. z \<in> set zs \<Longrightarrow> \<bar>z\<bar> < 2 ^ 53"
  shows "axis_ok zero (map of_int zs)"
proof -
  have mx: "Max ((of_int :: int \<Rightarrow> rat) ` set zs) = of_int (Max (set zs))"
    using assms(1) by (intro mono_Max_commute [symmetric]) (auto simp: mono_def)
  have mn: "Min ((of_int :: int \<Rightarrow> rat) ` set zs) = of_int (Min (set zs))"
    using assms(1) by (intro mono_Min_commute [symmetric]) (auto simp: mono_def)
  have bound: "\<bar>of_int z\<bar> \<le> (pow2 900 :: rat)" if "z \<in> set zs" for z
  proof -
    have "\<bar>of_int z\<bar> \<le> (2 ^ 53 :: rat)" using assms(2) [OF that] by (simp flip: of_int_abs)
    also have "\<dots> \<le> 2 ^ 900" by (rule power_increasing) simp_all
    finally show ?thesis using pow2_nat [of 900] by simp
  qed
  have "pow2 (- 900) \<le> pow2 0" by (subst pow2_le_iff) simp
  then have one: "pow2 (- 900) \<le> 1" by simp
  have gap: "of_int a = (of_int b :: rat) \<or> pow2 (- 900) \<le> \<bar>of_int a - of_int b :: rat\<bar>" for a b
  proof (cases "a = b")
    case False
    then have "1 \<le> \<bar>a - b\<bar>" by simp
    then have "1 \<le> (of_int \<bar>a - b\<bar> :: rat)" by (simp only: of_int_1_le_iff)
    then show ?thesis using one by simp
  qed simp
  have "Max ((of_int :: int \<Rightarrow> rat) ` set zs) = axis_origin zero (map of_int zs) \<or>
      pow2 (- 900) \<le> \<bar>Max ((of_int :: int \<Rightarrow> rat) ` set zs) - axis_origin zero (map of_int zs)\<bar>"
    using gap [of "Max (set zs)" 0] gap [of "Max (set zs)" "Min (set zs)"]
    by (cases zero) (simp_all add: axis_origin_def mx mn)
  then show ?thesis using bound assms(1) by (auto simp: axis_ok_def)
qed

text \<open>A chart object before \<^verbatim>\<open>initialize\<close>: no field of it is set.\<close>

definition blank_chart :: "chart_type \<Rightarrow> chart" where
  "blank_chart kind =
     \<lparr>chart_kind = kind, options = default_options [], sets = None, dataStores = [], stores = [],
      minxval = NaN, maxxval = None, xscale = None, minyval = NaN, maxyval = None, yscale = None,
      xticks = [], yticks = [], minxdelta = NaN, xrange = NaN, yrange = NaN,
      canvas_width = NaN, canvas_height = NaN,
      plot_area = \<lparr>area_x = NaN, area_y = NaN, area_w = NaN, area_h = NaN\<rparr>,
      isIE = False, maxTries = 0, renderDelay = None, renderStack = [],
      bars = [], points = [], slices = [], xlabels = [], ylabels = [], calls = [], nodes = []\<rparr>"


text \<open>A page with a canvas of 500 by 300 pixels.\<close>

definition sample_page :: "bool \<Rightarrow> page" where
  "sample_page msie = \<lparr>page_canvas = Some (Fin 500, Fin 300), page_parent = Some ''DIV'',
     page_msie = msie, page_vml = True, page_supported = \<not> msie\<rparr>"

text \<open>A chart of one dataset of three points.\<close>

definition sample_chart :: "chart_type \<Rightarrow> chart" where
  "sample_chart kind = (blank_chart kind)\<lparr>sets := Some 1,
     dataStores := [(''a'', [(int_val 0, int_val 3), (int_val 1, int_val 0), (int_val 2, int_val 5)])]\<rparr>"

lemma sample_chart_numeric: "numeric_chart (sample_chart kind)"
proof -
  have "axis_ok True (map of_int [0, 1, 2])" "axis_ok True (map of_int [3, 0, 5])"
    by (rule axis_ok_ints; auto)+
  then show ?thesis
    using plain_number_int [of 0] plain_number_int [of 1] plain_number_int [of 2] plain_number_int [of 3]
      plain_number_int [of 5]
    by (simp add: numeric_chart_def sample_chart_def blank_chart_def default_options_def num_val_def)
qed

section \<open>Properties of data and options\<close>

text \<open>
  A new chart without the option \<^verbatim>\<open>colorScheme\<close> has an empty colour scheme, because \<^verbatim>\<open>initialize\<close>
  computes the default scheme before it sets the number of datasets to 0.
\<close>

theorem initialize_empty_scheme:
  assumes "page_canvas pg = Some (w, h)" and "page_parent pg = Some ''DIV''"
    and "\<not> page_msie pg" and "page_supported pg"
  shows "\<exists>c. Chart_initialize pg None (blank_chart kind) = Some (Inr (), c) \<and>
    colorScheme (options c) = Colors [] \<and> sets c = Some 0 \<and> dataStores c = []"
proof -
  have sc: "defaultScheme (scheme_size None) = Some (Inr [])"
    by (simp add: scheme_size_def math_max_def defaultScheme_def generateColorscheme_def
        Number_times_NaN Let_def)
  have div: "toLowerCase ''DIV'' = ''div''" by code_simp
  show ?thesis using assms
    by (simp add: Chart_initialize_def initCanvas_def setOptions_def prog_defs blank_chart_def sc div
        default_options_def Let_def)
qed

theorem initialize_empty_scheme_witness:
  "\<exists>c. Chart_initialize \<lparr>page_canvas = Some (Fin 500, Fin 300), page_parent = Some ''DIV'',
      page_msie = False, page_vml = False, page_supported = True\<rparr> None (blank_chart Bar) = Some (Inr (), c) \<and>
    colorScheme (options c) = Colors [] \<and> sets c = Some 0 \<and> dataStores c = []"
  by (rule initialize_empty_scheme) simp_all

text \<open>
  A canvas id that the page does not have makes \<^verbatim>\<open>_initCanvas\<close> throw a TypeError; the check that would
  report the missing canvas comes after the first use of the node.
\<close>

theorem initCanvas_missing:
  "page_canvas pg = None \<Longrightarrow> initCanvas pg c = Some (Inl TypeError, c)"
  by (simp add: initCanvas_def prog_defs)

theorem initCanvas_missing_witness:
  "initCanvas \<lparr>page_canvas = None, page_parent = None, page_msie = False, page_vml = False,
      page_supported = True\<rparr> (blank_chart Pie) = Some (Inl TypeError, blank_chart Pie)"
  by (rule initCanvas_missing) simp

text \<open>
  \<^verbatim>\<open>addDataset\<close> sets the named datasets and keeps the names distinct; it counts every name it is
  given, also one that replaces a dataset.
\<close>

theorem addDataset_counts:
  assumes "distinct (map fst (dataStores c))" and "distinct (map fst store)" and "sets c = Some n"
  shows "map_of (dataStores (addDataset store c)) = map_of (dataStores c) ++ map_of store \<and>
    distinct (map fst (dataStores (addDataset store c))) \<and>
    sets (addDataset store c) = Some (n + int (length store))"
proof -
  have s: "sets (addDataset store c) = Some (n + int (length store))" if "sets c = Some n" for store c n
    using that by (induction store arbitrary: c n) (auto simp: addDataset_def)
  have d: "dataStores (addDataset store c) = fold (\<lambda>(k, v). set_prop k v) store (dataStores c)" for store c
    by (induction store arbitrary: c) (auto simp: addDataset_def)
  show ?thesis using assms
    by (simp add: d s map_of_fold_set_prop distinct_fold_set_prop)
qed

theorem addDataset_counts_witness:
  "map_of (dataStores (addDataset [(''a'', [])] ((blank_chart Bar)\<lparr>sets := Some 0\<rparr>))) =
      map_of (dataStores ((blank_chart Bar)\<lparr>sets := Some 0\<rparr>)) ++ map_of [(''a'', [])] \<and>
    distinct (map fst (dataStores (addDataset [(''a'', [])] ((blank_chart Bar)\<lparr>sets := Some 0\<rparr>)))) \<and>
    sets (addDataset [(''a'', [])] ((blank_chart Bar)\<lparr>sets := Some 0\<rparr>)) = Some (0 + int (length [(''a'', [] :: item list)]))"
  by (rule addDataset_counts) (simp_all add: blank_chart_def)

lemma xtick_loop_bounds:
  "k \<le> n \<Longrightarrow> int (length (xtick_loop x0 sc sep n us k)) \<le> n + 1 - k \<and>
   (\<forall>t \<in> set (xtick_loop x0 sc sep n us k). \<exists>p v. t = Some (Num p, v) \<and> \<not> Fin 1 < p \<and> \<not> p < Fin 0)"
proof (induction us arbitrary: k)
  case (Cons u us)
  have more: "int (length (xtick_loop x0 sc sep n us (k + 1))) \<le> n - k \<and>
     (\<forall>t \<in> set (xtick_loop x0 sc sep n us (k + 1)). \<exists>p v. t = Some (Num p, v) \<and> \<not> Fin 1 < p \<and> \<not> p < Fin 0)"
    if "\<not> n < k + 1" using Cons.IH [of "k + 1"] that by simp
  show ?case using Cons.IH [OF Cons.prems] more Cons.prems
    by (cases "n < k + 1") (auto simp: Let_def)
qed simp

text \<open>
  The ticks of the x axis that the chart chooses itself are at most one more than the
  requested number, and none lies outside the axis.
\<close>

theorem xticks_bounded:
  assumes "xTicks (options c) = None" and "0 < xNumberOfTicks (options c)"
    and "evalLineTicksForXAxis c = Some (Inr (), c')"
  shows "int (length (xticks c')) \<le> xNumberOfTicks (options c) + 1 \<and>
    (\<forall>t \<in> set (xticks c'). \<exists>p v. t = Some (Num p, v) \<and> \<not> Fin 1 < p \<and> \<not> p < Fin 0)"
proof -
  obtain us where "xticks c' = xtick_loop (minxval c) (num_of (xscale c))
      (xrange c / Fin (of_int (xNumberOfTicks (options c)))) (xNumberOfTicks (options c)) us 0"
    using assms by (auto simp: evalLineTicksForXAxis_def split: option.splits sum.splits)
  then show ?thesis
    using xtick_loop_bounds [of 0 "xNumberOfTicks (options c)"] assms(2) by simp
qed


theorem xticks_bounded_witness:
  "let c = (sample_chart Line)\<lparr>stores := [[(int_val 0, int_val 3), (int_val 1, int_val 0)]]\<rparr>
   in \<exists>c'. evalLineTicksForXAxis c = Some (Inr (), c') \<and>
     int (length (xticks c')) \<le> xNumberOfTicks (options c) + 1 \<and>
     (\<forall>t \<in> set (xticks c'). \<exists>p v. t = Some (Num p, v) \<and> \<not> Fin 1 < p \<and> \<not> p < Fin 0)"
proof -
  let ?c = "(sample_chart Line)\<lparr>stores := [[(int_val 0, int_val 3), (int_val 1, int_val 0)]]\<rparr>"
  obtain ts where t: "evalLineTicksForXAxis ?c = Some (Inr (), ?c\<lparr>xticks := ts\<rparr>)"
    using xTicks_returns [of ?c] by auto
  show ?thesis unfolding Let_def
    by (intro exI conjI, rule t)
      (use xticks_bounded [OF _ _ t] in
        \<open>simp_all add: sample_chart_def blank_chart_def default_options_def\<close>)
qed

end
