(* ===== verification/Plotr_Canvas.thy ===== *)
theory Plotr_Canvas
  imports Plotr_Chart
begin

text \<open>
  Drawing the background and the axes, and the rendering loop with its wait for VML, after
  \<^verbatim>\<open>htdocs/plotr/Canvas.js\<close> and the methods \<^verbatim>\<open>render\<close> of the charts.
\<close>

section \<open>Calls on the context\<close>

definition cx :: "cx_call list \<Rightarrow> (chart, unit) prog" where
  "cx ks = p_mod (\<lambda>c. c\<lparr>calls := calls c @ ks\<rparr>)"

definition segment :: "jsnum \<Rightarrow> jsnum \<Rightarrow> jsnum \<Rightarrow> jsnum \<Rightarrow> cx_call list" where
  "segment x1 y1 x2 y2 = [BeginPath, MoveTo x1 y1, LineTo x2 y2, ClosePath, Stroke]"

section \<open>Background\<close>

definition drawBackgroundLine :: "bool \<Rightarrow> area \<Rightarrow> (jsval \<times> jsval) option \<Rightarrow> (chart, unit) prog" where
  "drawBackgroundLine horiz a tick = (case tick of
     None \<Rightarrow> p_throw TypeError
   | Some (t, _) \<Rightarrow>
       cx (if horiz
           then (let x = to_num t * area_w a + area_x a in segment x (area_y a) x (area_y a + area_h a))
           else (let y = to_num t * area_h a + area_y a in segment (area_x a) y (area_x a + area_w a) y)))"

definition renderBackground :: "(chart, unit) prog" where
  "renderBackground c =
     (let o1 = options c; a = plot_area c;
          horiz = (chart_kind c = Bar \<and> barOrientation o1 = Horizontal);
          ticks = (if horiz then xticks c else yticks c)
      in p_then (cx [Save, SetFillStyle (Some (backgroundColor o1))])
        (p_then
          (if sweetRender o1 then
             p_then (cx [FillRect (area_x a) (area_y a) (area_w a) (area_h a),
                         SetStrokeStyle (Some (backgroundLineColor o1)), SetLineWidth (Fin 1)])
                    (p_each (drawBackgroundLine horiz a) ticks)
           else cx [FillRect (Fin 0) (Fin 0) (canvas_width c) (canvas_height c)])
          (cx [Restore])) c)"

definition Canvas_render :: "page option \<Rightarrow> (chart, unit) prog" where
  "Canvas_render element =
     p_then (case element of None \<Rightarrow> p_ret () | Some pg \<Rightarrow> initCanvas pg)
       (p_bind (p_get (drawBackground \<circ> options)) (\<lambda>b. if b then renderBackground else p_ret ()))"

section \<open>Axes\<close>

definition px :: "jsnum \<Rightarrow> string" where
  "px n = num_to_string n @ ''px''"

definition axisLabelStyle :: "chart_options \<Rightarrow> (string \<times> string) list" where
  "axisLabelStyle o1 =
     [(''position'', ''absolute''), (''fontSize'', px (axisLabelFontSize o1)),
      (''fontFamily'', axisLabelFont o1), (''zIndex'', ''10''), (''color'', axisLabelColor o1),
      (''width'', px (axisLabelWidth o1)), (''overflow'', ''hidden'')]"

definition append_label :: "label \<Rightarrow> (chart, unit) prog" where
  "append_label l = p_mod (\<lambda>c. c\<lparr>nodes := nodes c @ [l]\<rparr>)"

definition ylabel :: "chart_options \<Rightarrow> jsnum \<Rightarrow> jsnum \<Rightarrow> jsval \<Rightarrow> label" where
  "ylabel o1 x y v =
     \<lparr>label_text = to_str v, label_style = Object_extend (axisLabelStyle o1)
       [(''top'', px (y - axisLabelFontSize o1)),
        (''left'', px (x - pad_left (opt_padding o1) - axisTickSize o1)),
        (''width'', px (pad_left (opt_padding o1) - axisTickSize o1 * Fin 2)),
        (''textAlign'', ''right'')]\<rparr>"

definition xlabel :: "chart_options \<Rightarrow> jsnum \<Rightarrow> jsnum \<Rightarrow> jsval \<Rightarrow> label" where
  "xlabel o1 x y v =
     \<lparr>label_text = to_str v, label_style = Object_extend (axisLabelStyle o1)
       [(''top'', px (y + axisTickSize o1)),
        (''left'', px (x - axisLabelWidth o1 / Fin 2)),
        (''width'', px (axisLabelWidth o1)), (''textAlign'', ''center'')]\<rparr>"

definition collectYLabel :: "chart_options \<Rightarrow> area \<Rightarrow> (jsval \<times> jsval) option \<Rightarrow> (chart, unit) prog" where
  "collectYLabel o1 a tick = (case tick of
     None \<Rightarrow> p_throw TypeError
   | Some (t, v) \<Rightarrow>
       (let x = area_x a; y = area_y a + to_num t * area_h a
        in p_then (cx (segment x y (x - axisTickSize o1) y)) (append_label (ylabel o1 x y v))))"

definition collectXLabel :: "chart_options \<Rightarrow> area \<Rightarrow> (jsval \<times> jsval) option \<Rightarrow> (chart, unit) prog" where
  "collectXLabel o1 a tick = (case tick of
     None \<Rightarrow> p_throw TypeError
   | Some (t, v) \<Rightarrow>
       (let x = area_x a + to_num t * area_w a; y = area_y a + area_h a
        in p_then (cx (segment x y x (y + axisTickSize o1))) (append_label (xlabel o1 x y v))))"

text \<open>The labels that the ticks collect, when none of them is \<^verbatim>\<open>undefined\<close>.\<close>

definition ylabels_of :: "chart \<Rightarrow> label list" where
  "ylabels_of c = map (\<lambda>(t, v). ylabel (options c) (area_x (plot_area c))
     (area_y (plot_area c) + to_num t * area_h (plot_area c)) v) (List.map_filter id (yticks c))"

definition xlabels_of :: "chart \<Rightarrow> label list" where
  "xlabels_of c = map (\<lambda>(t, v). xlabel (options c)
     (area_x (plot_area c) + to_num t * area_w (plot_area c))
     (area_y (plot_area c) + area_h (plot_area c)) v) (List.map_filter id (xticks c))"

definition renderAxis :: "(chart, unit) prog" where
  "renderAxis c =
     (let o1 = options c; a = plot_area c in
      if \<not> drawXAxis o1 \<and> \<not> drawYAxis o1 then p_ret () c
      else
        p_then (cx [Save, SetStrokeStyle (Some (axisLineColor o1)), SetLineWidth (axisLineWidth o1)])
       (p_then
         (if drawYAxis o1 then
            p_then (p_each (collectYLabel o1 a) (yticks c))
           (p_then (p_mod (\<lambda>c. c\<lparr>ylabels := ylabels_of c\<rparr>))
              (cx (segment (area_x a) (area_y a) (area_x a) (area_y a + area_h a))))
          else p_ret ())
       (p_then
         (if drawXAxis o1 then
            p_then (p_each (collectXLabel o1 a) (xticks c))
           (p_then (p_mod (\<lambda>c. c\<lparr>xlabels := xlabels_of c\<rparr>))
              (cx (segment (area_x a) (area_y a + area_h a) (area_x a + area_w a) (area_y a + area_h a))))
          else p_ret ())
         (cx [Restore]))) c)"

section \<open>Waiting for VML\<close>

text \<open>
  \<^verbatim>\<open>_ieWaitForVML(element, options)\<close>: \<open>ready\<close> tells whether the canvas has a context.  The result says
  whether to wait.  \<open>node\<close> is the text of the canvas node, which is its key in \<^verbatim>\<open>renderStack\<close> when the timer
  renders it again: the timer calls \<^verbatim>\<open>render\<close> with the node and the options of the first call.
\<close>

definition ieWaitForVML :: "string \<Rightarrow> bool \<Rightarrow> string option \<Rightarrow> setting list option \<Rightarrow> chart \<Rightarrow> bool \<times> chart" where
  "ieWaitForVML node ready element opts c =
     (let c1 = (case element of None \<Rightarrow> c
                | Some el \<Rightarrow> c\<lparr>renderStack := set_prop el opts (renderStack c)\<rparr>)
      in if \<not> ready then
           (True, case renderDelay c1 of
              None \<Rightarrow> c1\<lparr>renderDelay := Some True\<rparr>
            | Some _ \<Rightarrow> (let c2 = c1\<lparr>maxTries := maxTries c1 - 1\<rparr>
                         in if maxTries c1 \<le> 0 then stop_delay c2 else c2))
         else (False, case renderDelay c1 of
              None \<Rightarrow> c1
            | Some _ \<Rightarrow> (stop_delay c1)\<lparr>renderStack := del_prop
                (case element of None \<Rightarrow> node | Some el \<Rightarrow> if el = [] then node else el) (renderStack c1)\<rparr>))"

text \<open>
  The method \<^verbatim>\<open>render(element, options)\<close> that the three charts share: \<open>body\<close> evaluates and draws the chart.  Under
  Internet Explorer the first queued element is rendered next, by recursion.
\<close>

partial_function (option) render_loop ::
    "(string option \<Rightarrow> setting list option \<Rightarrow> (chart, unit) prog) \<Rightarrow> string \<Rightarrow> bool \<Rightarrow> string option
     \<Rightarrow> setting list option \<Rightarrow> chart \<Rightarrow> ((exn + unit) \<times> chart) option" where
  "render_loop body node ready element opts c =
     (case (if isIE c then ieWaitForVML node ready element opts c else (False, c)) of (waiting, c1) \<Rightarrow>
        if waiting then Some (Inr (), c1)
        else (case body element opts c1 of
            None \<Rightarrow> None
          | Some (Inl e, c2) \<Rightarrow> Some (Inl e, c2)
          | Some (Inr _, c2) \<Rightarrow>
              if isIE c2 then (case renderStack c2 of
                  [] \<Rightarrow> Some (Inr (), c2)
                | q # _ \<Rightarrow> render_loop body node ready (Some (fst q)) (snd q) c2)
              else Some (Inr (), c2)))"

declare render_loop.simps [code]


section \<open>The wait for VML ends\<close>

text \<open>The timer tries to render \<open>k\<close> times while the canvas has no context.\<close>

fun vml_attempts :: "string \<Rightarrow> setting list option \<Rightarrow> nat \<Rightarrow> chart \<Rightarrow> chart" where
  "vml_attempts node opts 0 c = c"
| "vml_attempts node opts (Suc k) c = vml_attempts node opts k (snd (ieWaitForVML node False (Some node) opts c))"

lemma vml_attempt_waiting:
  "renderDelay c = Some b \<Longrightarrow> ieWaitForVML node False (Some node) opts c =
     (True, c\<lparr>renderStack := set_prop node opts (renderStack c), maxTries := maxTries c - 1,
        renderDelay := Some (b \<and> 0 < maxTries c)\<rparr>)"
  by (auto simp: ieWaitForVML_def stop_delay_def Let_def)

lemma vml_attempts_waiting:
  "renderDelay c = Some b \<Longrightarrow>
     renderDelay (vml_attempts node opts k c) = Some (b \<and> (k = 0 \<or> int k \<le> maxTries c))"
proof (induction k arbitrary: c b)
  case (Suc k)
  have c: "(b \<and> 0 < maxTries c) \<and> (k = 0 \<or> int k \<le> maxTries c - 1) \<longleftrightarrow> b \<and> (Suc k = 0 \<or> int (Suc k) \<le> maxTries c)"
    by auto
  show ?case
    using Suc.IH [of "snd (ieWaitForVML node False (Some node) opts c)" "b \<and> 0 < maxTries c"] c
    by (simp add: vml_attempt_waiting [OF Suc.prems])
qed auto

text \<open>
  C28: the timer that waits for VML under Internet Explorer does not run for ever.  When the first
  call of \<^verbatim>\<open>render\<close> has started it, with ten tries left, it still runs after ten further attempts without a
  context, and it is stopped from the eleventh on.
\<close>

theorem vml_wait_ends:
  assumes "renderDelay c = None" and "maxTries c = 10"
  shows "renderDelay (vml_attempts node opts k (snd (ieWaitForVML node False element opts c))) = Some (k \<le> 10)"
proof -
  let ?c = "snd (ieWaitForVML node False element opts c)"
  have "renderDelay ?c = Some True" "maxTries ?c = 10"
    using assms by (auto simp: ieWaitForVML_def Let_def split: option.split)
  then show ?thesis using vml_attempts_waiting [of ?c True node opts k] by auto
qed

theorem vml_wait_ends_witness:
  "renderDelay (vml_attempts ''canvas'' None 11 (snd (ieWaitForVML ''canvas'' False None None
     ((blank_chart Bar)\<lparr>maxTries := 10\<rparr>)))) = Some (11 \<le> (10 :: nat))"
  by (rule vml_wait_ends) (simp_all add: blank_chart_def)

section \<open>Saved states of the context\<close>

text \<open>How many states of the context the calls leave on its stack.\<close>

definition saved :: "cx_call list \<Rightarrow> int" where
  "saved ks = sum_list (map (\<lambda>k. if k = Save then 1 else if k = Restore then - 1 else 0) ks)"

lemma saved_simps [simp]:
  "saved [] = 0" "saved (k # ks) = (if k = Save then 1 else if k = Restore then - 1 else 0) + saved ks"
  "saved (ks @ ls) = saved ks + saved ls"
  by (simp_all add: saved_def)

lemma saved_concat: "saved (concat kss) = sum_list (map saved kss)"
  by (induction kss) auto

lemma saved_segment [simp]: "saved (segment a b d e) = 0"
  by (simp add: segment_def)

text \<open>A part of the drawing that leaves the stack as it was, unless it throws.\<close>

definition balanced :: "(chart, unit) prog \<Rightarrow> bool" where
  "balanced m \<longleftrightarrow> (\<forall>c c'. m c = Some (Inr (), c') \<longrightarrow> saved (calls c') = saved (calls c))"

lemma balanced_ret: "balanced (p_ret ())"
  by (simp add: balanced_def p_ret_def)

lemma balanced_throw: "balanced (p_throw e)"
  by (simp add: balanced_def p_throw_def)

lemma balanced_cx: "saved ks = 0 \<Longrightarrow> balanced (cx ks)"
  by (simp add: balanced_def cx_def p_mod_def)

lemma balanced_then: "balanced m \<Longrightarrow> balanced n \<Longrightarrow> balanced (p_then m n)"
  by (fastforce simp: balanced_def p_then_def p_bind_def split: option.splits sum.splits)

lemma balanced_mod: "(\<And>c. calls (f c) = calls c) \<Longrightarrow> balanced (p_mod f)"
  by (auto simp: balanced_def p_mod_def)

lemma balanced_each: "(\<And>v. balanced (f v)) \<Longrightarrow> balanced (p_each f vs)"
  by (induction vs) (simp_all add: balanced_ret balanced_then)

lemma balanced_bracket:
  assumes "saved ks = 1" "saved ls = - 1" "balanced m"
  shows "balanced (p_then (cx ks) (p_then m (cx ls)))"
  using assms
  by (fastforce simp: balanced_def p_then_def p_bind_def cx_def p_mod_def split: option.splits sum.splits)

lemma balanced_at: "(\<And>c. balanced (m c)) \<Longrightarrow> balanced (\<lambda>c. m c c)"
  by (simp add: balanced_def)

lemma balanced_line: "balanced (drawBackgroundLine horiz a t)"
  unfolding drawBackgroundLine_def Let_def
  by (cases t) (auto intro: balanced_throw balanced_cx)

lemma balanced_if: "balanced m \<Longrightarrow> balanced n \<Longrightarrow> balanced (if b then m else n)"
  by simp

lemma balanced_background: "balanced renderBackground"
  unfolding renderBackground_def Let_def
  by (rule balanced_at, rule balanced_bracket)
     (simp_all add: balanced_then balanced_cx balanced_each balanced_line)

lemma balanced_append: "balanced (append_label l)"
  unfolding append_label_def by (rule balanced_mod) simp

lemma balanced_labels: "balanced (collectYLabel o1 a t)" "balanced (collectXLabel o1 a t)"
  unfolding collectYLabel_def collectXLabel_def Let_def
  by (cases t; auto intro!: balanced_throw balanced_then balanced_cx balanced_append)+

lemma balanced_axis: "balanced renderAxis"
proof -
  define m where "m c = (if drawYAxis (options c) then
            p_then (p_each (collectYLabel (options c) (plot_area c)) (yticks c))
           (p_then (p_mod (\<lambda>c. c\<lparr>ylabels := ylabels_of c\<rparr>))
              (cx (segment (area_x (plot_area c)) (area_y (plot_area c)) (area_x (plot_area c))
                (area_y (plot_area c) + area_h (plot_area c)))))
          else p_ret ())" for c :: chart
  define n where "n c = (if drawXAxis (options c) then
            p_then (p_each (collectXLabel (options c) (plot_area c)) (xticks c))
           (p_then (p_mod (\<lambda>c. c\<lparr>xlabels := xlabels_of c\<rparr>))
              (cx (segment (area_x (plot_area c)) (area_y (plot_area c) + area_h (plot_area c))
                (area_x (plot_area c) + area_w (plot_area c)) (area_y (plot_area c) + area_h (plot_area c)))))
          else p_ret ())" for c :: chart
  have bal: "balanced (p_then (m c) (n c))" for c
    unfolding m_def n_def
    by (intro balanced_then) (simp_all add: balanced_then balanced_each balanced_labels balanced_mod balanced_cx balanced_ret)
  have ax: "renderAxis c = (if \<not> drawXAxis (options c) \<and> \<not> drawYAxis (options c) then p_ret () c
      else p_then (cx [Save, SetStrokeStyle (Some (axisLineColor (options c))), SetLineWidth (axisLineWidth (options c))])
        (p_then (p_then (m c) (n c)) (cx [Restore])) c)" for c
    unfolding renderAxis_def Let_def p_then_assoc m_def n_def by simp
  have "balanced (p_then (cx [Save, SetStrokeStyle (Some (axisLineColor (options c))), SetLineWidth (axisLineWidth (options c))])
        (p_then (p_then (m c) (n c)) (cx [Restore])))" for c
    by (rule balanced_bracket) (simp_all add: bal)
  then show ?thesis
    using balanced_ret by (simp add: balanced_def ax)
qed



section \<open>The rendering loop\<close>

text \<open>The fields that the loop of \<^verbatim>\<open>render\<close> reads.\<close>

definition queue_of :: "chart \<Rightarrow> bool \<times> (string \<times> setting list option) list" where
  "queue_of c = (isIE c, renderStack c)"

lemma keeps_cx [keeps]: "keeps queue_of (cx ks)"
  unfolding cx_def by (rule keeps_mod) (simp add: queue_of_def)

lemma keeps_background [keeps]: "keeps queue_of renderBackground"
proof -
  have line: "keeps queue_of (drawBackgroundLine h a t)" for h a t
    by (cases t) (auto simp: drawBackgroundLine_def intro!: keeps)
  show ?thesis unfolding renderBackground_def Let_def
    by (rule keeps_at) (intro keeps line)
qed

lemma keeps_axis [keeps]: "keeps queue_of renderAxis"
proof -
  have l: "keeps queue_of (append_label l)" for l
    unfolding append_label_def by (rule keeps_mod) (simp add: queue_of_def)
  have ticks: "keeps queue_of (collectYLabel o1 a t)" "keeps queue_of (collectXLabel o1 a t)" for o1 a t
    by (cases t; auto simp: collectYLabel_def collectXLabel_def Let_def intro!: keeps l)+
  have "keeps queue_of (\<lambda>c. (if \<not> drawXAxis (options c) \<and> \<not> drawYAxis (options c) then p_ret ()
      else p_then (cx (ks c)) (p_then (if drawYAxis (options c) then p_then (p_each (collectYLabel (o1 c) (a c)) (ts c))
           (p_then (p_mod (\<lambda>c. c\<lparr>ylabels := ylabels_of c\<rparr>)) (cx (ls c))) else p_ret ())
         (p_then (if drawXAxis (options c) then p_then (p_each (collectXLabel (o1 c) (a c)) (us c))
           (p_then (p_mod (\<lambda>c. c\<lparr>xlabels := xlabels_of c\<rparr>)) (cx (ms c))) else p_ret ()) (cx [Restore])))) c)"
    for ks ls ms o1 a ts us
    by (rule keeps_at, intro keeps ticks) (simp_all add: queue_of_def)
  then show ?thesis unfolding renderAxis_def Let_def by (simp add: if_distribR)
qed

lemma keeps_eval [keeps]: "keeps queue_of (Chart_eval opts)"
proof -
  have "keeps queue_of (setOptions o1)" for o1
    unfolding setOptions_def by (intro keeps) (simp add: queue_of_def)
  moreover have "keeps queue_of setColorscheme"
    by (auto simp: keeps_def setColorscheme_def p_ret_def queue_of_def split: scheme.splits option.splits sum.splits)
  moreover have "queue_of (evalXY c) = queue_of c" for c
    by (simp add: queue_of_def evalXY_def Let_def split: option.splits prod.splits)
  ultimately show ?thesis unfolding Chart_eval_def
    by (cases opts) (auto intro!: keeps simp: queue_of_def)
qed

lemma keeps_ticks [keeps]: "keeps queue_of evalLineTicksForXAxis" "keeps queue_of evalLineTicksForYAxis"
  by (auto simp: keeps_def queue_of_def evalLineTicksForXAxis_def evalLineTicksForYAxis_def Let_def
      split: option.splits sum.splits if_splits)

lemma initCanvas_queue:
  assumes "initCanvas pg c = Some (Inr (), c')"
  shows "isIE c' = page_msie pg" "page_msie pg \<Longrightarrow> renderStack c' = []"
  using assms unfolding initCanvas_def
  by (auto simp: prog_defs Let_def split: option.splits prod.splits if_splits)

text \<open>
  The body of \<^verbatim>\<open>render\<close>, for parts that do not touch the queue: it evaluates the chart, sets up the canvas and
  draws.
\<close>

definition render_body :: "(setting list option \<Rightarrow> (chart, unit) prog) \<Rightarrow> (chart, unit) prog
    \<Rightarrow> (string \<Rightarrow> page) \<Rightarrow> string option \<Rightarrow> setting list option \<Rightarrow> (chart, unit) prog" where
  "render_body evaluate draw pages element opts =
     p_then (evaluate opts) (p_then (Canvas_render (map_option pages element)) draw)"

lemma render_body_queue:
  assumes "keeps queue_of draw" and "render_body evaluate draw pages (Some el) opts c = Some (Inr (), c')"
  shows "\<not> isIE c' \<or> renderStack c' = []"
proof -
  let ?rest = "p_then (p_bind (p_get (drawBackground \<circ> options)) (\<lambda>b. if b then renderBackground else p_ret ())) draw"
  obtain c1 c2 where i: "initCanvas (pages el) c1 = Some (Inr (), c2)" and
    r: "?rest c2 = Some (Inr (), c')"
    using assms(2) unfolding render_body_def Canvas_render_def p_then_assoc
    by (auto simp: p_then_Inr)
  have "keeps queue_of ?rest" by (intro keeps assms(1))
  then have "queue_of c' = queue_of c2" using r by (rule keepsD)
  then show ?thesis using initCanvas_queue [OF i] by (auto simp: queue_of_def)
qed


section \<open>Rendering returns\<close>

text \<open>The number of datasets and their lengths are integers that a number can count up to.\<close>

definition small :: "chart \<Rightarrow> bool" where
  "small c \<longleftrightarrow> (case sets c of None \<Rightarrow> True | Some n \<Rightarrow> n \<le> 2 ^ 53) \<and>
     (\<forall>s \<in> snd ` set (dataStores c) \<union> set (stores c). length s \<le> 2 ^ 53)"

lemma small_cong:
  "sets c' = sets c \<Longrightarrow> dataStores c' = dataStores c \<Longrightarrow> stores c' = stores c \<Longrightarrow> small c' = small c"
  by (simp add: small_def)

lemma colors_end:
  "generateColorscheme hex (scheme_size n) False \<noteq> None" if "case n of None \<Rightarrow> True | Some k \<Rightarrow> k \<le> 2 ^ 53"
proof (cases n)
  case None
  then show ?thesis
    by (simp add: scheme_size_def math_max_def generateColorscheme_def Number_times_NaN Let_def)
next
  case (Some k)
  have "scheme_size n = Fin (of_int (max k 3))"
    using Some by (auto simp: scheme_size_def math_max_def max_def less_eq_jsnum_def less_jsnum_def)
  then show ?thesis using generateColorscheme_list [of "max k 3" hex False] that Some by simp
qed

lemma scheme_size_truthy: "k \<noteq> None \<Longrightarrow> num_truthy (scheme_size k)"
  by (auto simp: scheme_size_def math_max_def num_truthy_def less_eq_jsnum_def less_jsnum_def)

lemma getColorscheme_end:
  assumes "case n of None \<Rightarrow> True | Some k \<Rightarrow> k \<le> 2 ^ 53"
  shows "getColorscheme s (Some (scheme_size n)) \<noteq> None"
  using colors_end [OF assms] generateColorscheme_list [of 3 _ False] scheme_size_truthy [of n]
  by (auto simp: getColorscheme_def Let_def split: option.splits if_splits)

lemma uniqueIndices_end:
  assumes "\<And>l. l \<in> set lst \<Longrightarrow> length l \<le> 2 ^ 53"
  shows "uniqueIndices lst \<noteq> None"
proof (cases "lst = []")
  case True
  have "Enumerable_max (Array_each []) None () = (Inr Undefined, ())" by code_simp
  with True show ?thesis by (simp add: uniqueIndices_def)
next
  case False
  then show ?thesis using uniqueIndices_all [OF False assms] by simp
qed


lemma setOptions_ends [ends]: "ends small (setOptions opts)"
proof -
  have "\<exists>r. defaultScheme (scheme_size (sets c)) = Some r" if "small c" for c
    using colors_end [of "sets c" "''#3c581a''"] that by (auto simp: defaultScheme_def small_def)
  then show ?thesis
    by (fastforce simp: ends_def setOptions_def prog_defs small_def split: sum.splits)
qed

lemma initCanvas_ends [ends]: "ends small (initCanvas pg)"
  unfolding initCanvas_def
  by (auto intro!: ends simp: Let_def small_def split: option.splits prod.splits)

lemma setColorscheme_ends [ends]: "ends small setColorscheme"
proof -
  have 1: "getColorscheme s (Some (scheme_size (sets c))) \<noteq> None" if "small c" for s c
    using getColorscheme_end that by (simp add: small_def)
  have 2: "getColorscheme s (Some (math_max (Fin (of_nat (length st))) (Fin 3))) \<noteq> None"
    if "small c" "stores c = st # sts" for s c st sts
    using getColorscheme_end [of "Some (int (length st))" s] that by (simp add: small_def scheme_size_def)
  have 3: "small (c\<lparr>options := o1\<rparr>) = small c" for c o1 by (simp add: small_def)
  have "\<exists>r t. setColorscheme c = Some (r, t) \<and> small t" if "small c" for c
  proof (cases "colorScheme (options c)")
    case (Scheme s)
    then show ?thesis using 1 [OF that, of s] 2 [OF that, of "hd (stores c)" "tl (stores c)" s] that
      by (cases "stores c") (auto simp: setColorscheme_def 3 split: sum.split)
  qed (simp_all add: setColorscheme_def p_ret_def that)
  then show ?thesis by (simp add: ends_def)
qed


lemma Chart_eval_ends [ends]: "ends small (Chart_eval opts)"
proof -
  have "small (evalXY c) = small c" for c
    by (rule small_cong) (simp_all add: evalXY_def Let_def split: option.splits prod.splits)
  then show ?thesis unfolding Chart_eval_def
    by (cases opts) (auto intro!: ends simp: small_def)
qed

lemma ticks_end [ends]: "ends small evalLineTicksForXAxis" "ends small evalLineTicksForYAxis"
proof -
  have s: "small (c\<lparr>xticks := ts\<rparr>) = small c" "small (c\<lparr>yticks := ts\<rparr>) = small c" for c ts
    by (simp_all add: small_def)
  have u: "uniqueIndices (stores c) \<noteq> None" if "small c" for c
    using that by (intro uniqueIndices_end) (auto simp: small_def)
  show "ends small evalLineTicksForXAxis"
    using u by (fastforce simp: ends_def evalLineTicksForXAxis_def s split: option.splits sum.splits)
  show "ends small evalLineTicksForYAxis"
    by (auto simp: ends_def evalLineTicksForYAxis_def Let_def s split: option.splits)
qed

lemma cx_ends [ends]: "ends small (cx ks)"
  unfolding cx_def by (intro ends) (simp add: small_def)

lemma background_ends [ends]: "ends small renderBackground"
proof -
  have line: "ends small (drawBackgroundLine h a t)" for h a t
    by (cases t) (auto simp: drawBackgroundLine_def intro!: ends)
  show ?thesis unfolding renderBackground_def Let_def
    by (rule ends_at) (intro ends line)
qed

lemma axis_ends [ends]: "ends small renderAxis"
proof -
  have l: "ends small (append_label l)" for l
    unfolding append_label_def by (intro ends) (simp add: small_def)
  have ticks: "ends small (collectYLabel o1 a t)" "ends small (collectXLabel o1 a t)" for o1 a t
    by (cases t; auto simp: collectYLabel_def collectXLabel_def Let_def intro!: ends l)+
  have "ends small (\<lambda>c. (if \<not> drawXAxis (options c) \<and> \<not> drawYAxis (options c) then p_ret ()
      else p_then (cx (ks c)) (p_then (if drawYAxis (options c) then p_then (p_each (collectYLabel (o1 c) (a c)) (ts c))
           (p_then (p_mod (\<lambda>c. c\<lparr>ylabels := ylabels_of c\<rparr>)) (cx (ls c))) else p_ret ())
         (p_then (if drawXAxis (options c) then p_then (p_each (collectXLabel (o1 c) (a c)) (us c))
           (p_then (p_mod (\<lambda>c. c\<lparr>xlabels := xlabels_of c\<rparr>)) (cx (ms c))) else p_ret ()) (cx [Restore])))) c)"
    for ks ls ms o1 a ts us
    by (rule ends_at, intro ends ticks) (simp_all add: small_def)
  then show ?thesis unfolding renderAxis_def Let_def by (simp add: if_distribR)
qed

lemma wait_small: "ieWaitForVML node ready element opts c = (w, c1) \<Longrightarrow> small c1 = small c"
proof (rule small_cong)
  assume a: "ieWaitForVML node ready element opts c = (w, c1)"
  have d: "sets (stop_delay c) = sets c" "dataStores (stop_delay c) = dataStores c" "stores (stop_delay c) = stores c" for c
    by (simp_all add: stop_delay_def)
  show "sets c1 = sets c" "dataStores c1 = dataStores c" "stores c1 = stores c"
    using a [symmetric] by (cases element; cases "renderDelay c"; cases ready; simp add: ieWaitForVML_def Let_def d)+
qed

text \<open>
  The interface between the loop of \<^verbatim>\<open>render\<close> and a kind of chart: evaluating and drawing a chart return or
  throw, and drawing does not touch the queue of elements.
\<close>

locale renderer =
  fixes evaluate :: "setting list option \<Rightarrow> (chart, unit) prog"
    and draw :: "(chart, unit) prog"
  assumes evaluate_ends: "ends small (evaluate opts)"
    and draw_ends: "ends small draw"
    and draw_keeps: "keeps queue_of draw"
begin

lemma body_ends: "ends small (render_body evaluate draw pages element opts)"
  unfolding render_body_def Canvas_render_def
  by (cases element) (auto intro!: ends evaluate_ends draw_ends)

lemma render_named:
  assumes "isIE c" and "ieWaitForVML node True (Some el) opts c = (False, c1)"
  shows "render_loop (render_body evaluate draw pages) node True (Some el) opts c =
    render_body evaluate draw pages (Some el) opts c1"
proof -
  have "isIE c2 \<Longrightarrow> renderStack c2 = []" if "render_body evaluate draw pages (Some el) opts c1 = Some (Inr (), c2)" for c2
    using render_body_queue [OF draw_keeps that] by simp
  then show ?thesis using assms
    by (subst render_loop.simps) (auto split: option.splits sum.splits)
qed

lemma named_ends:
  assumes "small c"
  shows "\<exists>r c'. render_loop (render_body evaluate draw pages) node ready (Some el) opts c = Some (r, c')"
proof -
  obtain w c1 where w: "(if isIE c then ieWaitForVML node ready (Some el) opts c else (False, c)) = (w, c1)"
    by (metis surj_pair)
  then have "small c1" using assms wait_small by (auto split: if_splits)
  then obtain r c2 where b: "render_body evaluate draw pages (Some el) opts c1 = Some (r, c2)"
    using endsD [OF body_ends] by blast
  have "isIE c2 \<Longrightarrow> renderStack c2 = []" if "r = Inr ()"
    using render_body_queue [OF draw_keeps b [unfolded that]] by simp
  then show ?thesis using w b
    by (subst render_loop.simps) (cases r; auto)
qed

lemma render_ends:
  assumes "small c"
  shows "\<exists>r c'. render_loop (render_body evaluate draw pages) node ready element opts c = Some (r, c')"
proof -
  obtain w c1 where w: "(if isIE c then ieWaitForVML node ready element opts c else (False, c)) = (w, c1)"
    by (metis surj_pair)
  then have "small c1" using assms wait_small by (auto split: if_splits)
  then obtain r c2 where b: "render_body evaluate draw pages element opts c1 = Some (r, c2)" "small c2"
    using endsD [OF body_ends] by blast
  show ?thesis using w b named_ends [OF b(2)]
    by (subst render_loop.simps) (cases r; auto split: list.split)
qed

end

end
