(* ===== verification/Excanvas.thy ===== *)
theory Excanvas
  imports Plotr_Canvas
begin

text \<open>
  \<^verbatim>\<open>htdocs/plotr/excanvas.js\<close>, which draws on a canvas through VML under Internet Explorer, and
  \<^verbatim>\<open>htdocs/excanvas.js\<close>, an older copy of it.  A context is a record; the text that it has inserted into
  its element is the field \<open>html\<close>.  \<open>Old\<close> selects the older copy where the two differ.  \<^verbatim>\<open>Math.sin\<close> and
  \<^verbatim>\<open>Math.cos\<close> are parameters.
\<close>

section \<open>Matrices\<close>

type_synonym matrix = "jsnum list list"

definition createMatrixIdentity :: matrix where
  "createMatrixIdentity =
     [[Fin 1, Fin 0, Fin 0],
      [Fin 0, Fin 1, Fin 0],
      [Fin 0, Fin 0, Fin 1]]"

definition matrixMultiply :: "matrix \<Rightarrow> matrix \<Rightarrow> matrix" where
  "matrixMultiply m1 m2 =
     map (\<lambda>x. map (\<lambda>y. foldl (\<lambda>sm z. sm + m1 ! x ! z * m2 ! z ! y) (Fin 0) [0, 1, 2]) [0, 1, 2]) [0, 1, 2]"

section \<open>Styles\<close>

text \<open>A gradient is an object: a style refers to it by its place among the gradients that were created.\<close>

datatype style = Text string | Gradient nat | Pattern | NoStyle

record drawing_state =
  fillStyle :: style
  lineCap :: string
  lineJoin :: string
  lineWidth :: jsnum
  miterLimit :: jsnum
  shadowBlur :: jsval
  shadowColor :: jsval
  shadowOffsetX :: jsval
  shadowOffsetY :: jsval
  strokeStyle :: style

definition copyState :: "'a drawing_state_scheme \<Rightarrow> 'b drawing_state_scheme \<Rightarrow> 'b drawing_state_scheme" where
  "copyState o1 o2 = o2\<lparr>
     fillStyle := fillStyle o1,
     lineCap := lineCap o1,
     lineJoin := lineJoin o1,
     lineWidth := lineWidth o1,
     miterLimit := miterLimit o1,
     shadowBlur := shadowBlur o1,
     shadowColor := shadowColor o1,
     shadowOffsetX := shadowOffsetX o1,
     shadowOffsetY := shadowOffsetY o1,
     strokeStyle := strokeStyle o1\<rparr>"

definition dec2hex :: "string list" where
  "dec2hex = concat (map (\<lambda>i. map (\<lambda>j. digits 16 i @ digits 16 j) [0..15]) [0..15])"

text \<open>\<^verbatim>\<open>parseInt(s)\<close> of a text: a decimal number, or a hexadecimal one after \<^verbatim>\<open>0x\<close>.\<close>

definition parseInt_text :: "string \<Rightarrow> jsnum" where
  "parseInt_text s =
     (let (neg, t) = read_sign (dropWhile is_space s); ds = takeWhile is_digit t
      in if starts ''0x'' t \<or> starts ''0X'' t then parseInt16 s
         else if ds = [] then NaN
         else fl (if neg then - of_int (digits_val 0 ds) else of_int (digits_val 0 ds)))"

text \<open>\<^verbatim>\<open>dec2hex[n]\<close> as it is appended to a text.\<close>

definition hex_of :: "jsnum \<Rightarrow> string" where
  "hex_of n = (case n of
     Fin q \<Rightarrow> if of_int \<lfloor>q\<rfloor> = q \<and> 0 \<le> q \<and> q < 256 then dec2hex ! nat \<lfloor>q\<rfloor> else ''undefined''
   | _ \<Rightarrow> ''undefined'')"

definition style_text :: "style \<Rightarrow> string" where
  "style_text st = (case st of Text t \<Rightarrow> t | NoStyle \<Rightarrow> ''undefined'' | _ \<Rightarrow> ''[object Object]'')"

text \<open>\<^verbatim>\<open>s.indexOf(p, i)\<close>\<close>

definition indexOf_from :: "string \<Rightarrow> string \<Rightarrow> nat \<Rightarrow> int" where
  "indexOf_from s p i = index_from (min i (length s)) p (drop i s)"

definition processStyle :: "style \<Rightarrow> string \<times> jsval" where
  "processStyle st =
     (let styleString = style_text st in
      if substring styleString 0 3 = ''rgb'' then
        (let start = indexOf_from styleString ''('' 3;
             end = indexOf_from styleString '')'' (nat (start + 1));
             guts = split_chr (CHR '','') (substring styleString (start + 1) end)
         in (CHR ''#'' # concat (map (\<lambda>i. hex_of (if i < length guts then parseInt_text (guts ! i) else NaN)) [0, 1, 2]),
             if length guts = 4 \<and> charAt styleString 3 = ''a'' then Str (guts ! 3) else Num (Fin 1)))
      else (styleString, Num (Fin 1)))"

definition processLineCap :: "string \<Rightarrow> string" where
  "processLineCap cap =
     (if cap = ''butt'' then ''flat'' else if cap = ''round'' then ''round'' else ''square'')"

section \<open>Contexts\<close>

datatype vml_version = New | Old

datatype path_op =
    PMoveTo jsnum jsnum
  | PLineTo jsnum jsnum
  | PBezierCurveTo jsnum jsnum jsnum jsnum jsnum jsnum
  | PArc string jsnum jsnum jsnum jsnum jsnum jsnum jsnum
  | PClose

text \<open>The stops of a gradient have an offset and the pair that \<^verbatim>\<open>processStyle\<close> makes of a colour.\<close>

record gradient =
  gtype :: string
  radius1 :: jsnum
  radius2 :: jsnum
  stops :: "(jsnum \<times> string \<times> jsval) list"
  focus_x :: jsnum
  focus_y :: jsnum

text \<open>The top of each stack is its first element.\<close>

record vml_context = drawing_state +
  ctm :: matrix
  mStack :: "matrix list"
  aStack :: "drawing_state list"
  currentPath :: "path_op list"
  globalAlpha :: jsnum
  arcScaleX :: jsnum
  arcScaleY :: jsnum
  html :: string
  gradients :: "gradient list"

definition blank_state :: drawing_state where
  "blank_state = \<lparr>fillStyle = NoStyle, lineCap = [], lineJoin = [], lineWidth = NaN, miterLimit = NaN,
     shadowBlur = Undefined, shadowColor = Undefined, shadowOffsetX = Undefined, shadowOffsetY = Undefined,
     strokeStyle = NoStyle\<rparr>"

definition new_context :: vml_context where
  "new_context =
     \<lparr>fillStyle = Text ''#ccc'', lineCap = ''butt'', lineJoin = ''miter'', lineWidth = Fin 1, miterLimit = Fin 10,
      shadowBlur = Undefined, shadowColor = Undefined, shadowOffsetX = Undefined, shadowOffsetY = Undefined,
      strokeStyle = Text ''#000'',
      ctm = createMatrixIdentity, mStack = [], aStack = [], currentPath = [], globalAlpha = Fin 1,
      arcScaleX = Fin 1, arcScaleY = Fin 1, html = [], gradients = []\<rparr>"

section \<open>Paths\<close>

definition clearRect :: "vml_context \<Rightarrow> vml_context" where
  "clearRect c = c\<lparr>html := [], currentPath := []\<rparr>"

definition beginPath :: "vml_context \<Rightarrow> vml_context" where
  "beginPath c = c\<lparr>currentPath := []\<rparr>"

definition push_path :: "path_op \<Rightarrow> vml_context \<Rightarrow> vml_context" where
  "push_path p c = c\<lparr>currentPath := currentPath c @ [p]\<rparr>"

definition moveTo :: "jsnum \<Rightarrow> jsnum \<Rightarrow> vml_context \<Rightarrow> vml_context" where
  "moveTo aX aY = push_path (PMoveTo aX aY)"

definition lineTo :: "jsnum \<Rightarrow> jsnum \<Rightarrow> vml_context \<Rightarrow> vml_context" where
  "lineTo aX aY = push_path (PLineTo aX aY)"

definition bezierCurveTo :: "jsnum \<Rightarrow> jsnum \<Rightarrow> jsnum \<Rightarrow> jsnum \<Rightarrow> jsnum \<Rightarrow> jsnum \<Rightarrow> vml_context \<Rightarrow> vml_context" where
  "bezierCurveTo aCP1x aCP1y aCP2x aCP2y aX aY = push_path (PBezierCurveTo aCP1x aCP1y aCP2x aCP2y aX aY)"

definition quadraticCurveTo :: "jsnum \<Rightarrow> jsnum \<Rightarrow> jsnum \<Rightarrow> jsnum \<Rightarrow> vml_context \<Rightarrow> vml_context" where
  "quadraticCurveTo aCPx aCPy aX aY = bezierCurveTo aCPx aCPy aCPx aCPy aX aY"

definition closePath :: "vml_context \<Rightarrow> vml_context" where
  "closePath = push_path PClose"

definition vml_arc :: "(jsnum \<Rightarrow> jsnum) \<Rightarrow> (jsnum \<Rightarrow> jsnum) \<Rightarrow> jsnum \<Rightarrow> jsnum \<Rightarrow> jsnum \<Rightarrow> jsnum \<Rightarrow> jsnum \<Rightarrow> bool
    \<Rightarrow> vml_context \<Rightarrow> vml_context" where
  "vml_arc ms mc aX aY aRadius0 aStartAngle aEndAngle aClockwise =
     (let aRadius = aRadius0 * Fin 10;
          arcType = (if aClockwise then ''at'' else ''wa'');
          xStart = aX + mc aStartAngle * aRadius - Fin 5;
          yStart = aY + ms aStartAngle * aRadius - Fin 5;
          xEnd = aX + mc aEndAngle * aRadius - Fin 5;
          yEnd = aY + ms aEndAngle * aRadius - Fin 5
      in push_path (PArc arcType aX aY aRadius xStart yStart xEnd yEnd))"

definition vml_arc_old :: "(jsnum \<Rightarrow> jsnum) \<Rightarrow> (jsnum \<Rightarrow> jsnum) \<Rightarrow> jsnum \<Rightarrow> jsnum \<Rightarrow> jsnum \<Rightarrow> jsnum \<Rightarrow> jsnum \<Rightarrow> bool
    \<Rightarrow> vml_context \<Rightarrow> vml_context" where
  "vml_arc_old ms mc aX aY aRadius aStartAngle0 aEndAngle0 aClockwise =
     (let (aStartAngle, aEndAngle) =
            (if \<not> aClockwise then (aEndAngle0, aStartAngle0) else (aStartAngle0, aEndAngle0));
          xStart = aX + mc aStartAngle * aRadius;
          yStart = aY + ms aStartAngle * aRadius;
          xEnd = aX + mc aEndAngle * aRadius;
          yEnd = aY + ms aEndAngle * aRadius
      in push_path (PArc ''arc'' aX aY aRadius xStart yStart xEnd yEnd))"

definition rect :: "jsnum \<Rightarrow> jsnum \<Rightarrow> jsnum \<Rightarrow> jsnum \<Rightarrow> vml_context \<Rightarrow> vml_context" where
  "rect aX aY aWidth aHeight =
     closePath \<circ> lineTo aX (aY + aHeight) \<circ> lineTo (aX + aWidth) (aY + aHeight) \<circ>
     lineTo (aX + aWidth) aY \<circ> moveTo aX aY"

section \<open>Coordinates and transformations\<close>

definition getCoords :: "vml_version \<Rightarrow> matrix \<Rightarrow> jsnum \<Rightarrow> jsnum \<Rightarrow> jsnum \<times> jsnum" where
  "getCoords v m aX aY =
     (let x = aX * (m ! 0 ! 0) + aY * (m ! 1 ! 0) + m ! 2 ! 0;
          y = aX * (m ! 0 ! 1) + aY * (m ! 1 ! 1) + m ! 2 ! 1
      in case v of New \<Rightarrow> (Fin 10 * x - Fin 5, Fin 10 * y - Fin 5) | Old \<Rightarrow> (x, y))"

definition getCoords_old :: "matrix \<Rightarrow> jsnum \<Rightarrow> jsnum \<Rightarrow> jsnum \<times> jsnum" where
  "getCoords_old = getCoords Old"

definition transform :: "matrix \<Rightarrow> vml_context \<Rightarrow> vml_context" where
  "transform m1 c = c\<lparr>ctm := matrixMultiply m1 (ctm c)\<rparr>"

definition translate :: "jsnum \<Rightarrow> jsnum \<Rightarrow> vml_context \<Rightarrow> vml_context" where
  "translate aX aY = transform
     [[Fin 1, Fin 0, Fin 0],
      [Fin 0, Fin 1, Fin 0],
      [aX, aY, Fin 1]]"

definition rotate :: "(jsnum \<Rightarrow> jsnum) \<Rightarrow> (jsnum \<Rightarrow> jsnum) \<Rightarrow> jsnum \<Rightarrow> vml_context \<Rightarrow> vml_context" where
  "rotate ms mc aRot =
     (let c = mc aRot; s = ms aRot in transform
     [[c, s, Fin 0],
      [- s, c, Fin 0],
      [Fin 0, Fin 0, Fin 1]])"

definition scale_matrix :: "jsnum \<Rightarrow> jsnum \<Rightarrow> matrix" where
  "scale_matrix aX aY =
     [[aX, Fin 0, Fin 0],
      [Fin 0, aY, Fin 0],
      [Fin 0, Fin 0, Fin 1]]"

definition scale :: "jsnum \<Rightarrow> jsnum \<Rightarrow> vml_context \<Rightarrow> vml_context" where
  "scale aX aY c = transform (scale_matrix aX aY)
     (c\<lparr>arcScaleX := arcScaleX c * aX, arcScaleY := arcScaleY c * aY\<rparr>)"

definition scale_old :: "jsnum \<Rightarrow> jsnum \<Rightarrow> vml_context \<Rightarrow> vml_context" where
  "scale_old aX aY = transform (scale_matrix aX aY)"

definition save :: "vml_context \<Rightarrow> vml_context" where
  "save c = c\<lparr>aStack := copyState c blank_state # aStack c, mStack := ctm c # mStack c,
     ctm := matrixMultiply createMatrixIdentity (ctm c)\<rparr>"

text \<open>Popping an empty stack gives \<^verbatim>\<open>undefined\<close>, whose properties cannot be read.\<close>

definition restore :: "(vml_context, unit) prog" where
  "restore c = (case aStack c of
     [] \<Rightarrow> Some (Inl TypeError, c)
   | o1 # os \<Rightarrow> Some (Inr (), (copyState o1 (c\<lparr>aStack := os\<rparr>))\<lparr>
       ctm := (case mStack c of [] \<Rightarrow> [] | m # _ \<Rightarrow> m), mStack := tl (mStack c)\<rparr>))"

section \<open>Gradients\<close>

definition new_gradient :: "string \<Rightarrow> gradient" where
  "new_gradient aType = \<lparr>gtype = aType, radius1 = Fin 0, radius2 = Fin 0, stops = [],
     focus_x = Fin 0, focus_y = Fin 0\<rparr>"

definition createLinearGradient :: "vml_context \<Rightarrow> style \<times> vml_context" where
  "createLinearGradient c =
     (Gradient (length (gradients c)), c\<lparr>gradients := gradients c @ [new_gradient ''gradient'']\<rparr>)"

definition createRadialGradient :: "jsnum \<Rightarrow> jsnum \<Rightarrow> jsnum \<Rightarrow> jsnum \<Rightarrow> vml_context \<Rightarrow> style \<times> vml_context" where
  "createRadialGradient aX0 aY0 aR0 aR1 c =
     (Gradient (length (gradients c)), c\<lparr>gradients := gradients c @
       [(new_gradient ''gradientradial'')\<lparr>radius1 := aR0, radius2 := aR1, focus_x := aX0, focus_y := aY0\<rparr>]\<rparr>)"

definition addColorStop :: "nat \<Rightarrow> jsnum \<Rightarrow> style \<Rightarrow> vml_context \<Rightarrow> vml_context" where
  "addColorStop g aOffset aColor c =
     c\<lparr>gradients := (gradients c)[g := (gradients c ! g)\<lparr>stops := stops (gradients c ! g) @
        [(Fin 1 - aOffset, processStyle aColor)]\<rparr>]\<rparr>"

section \<open>Drawing a path\<close>

text \<open>The smallest and the largest coordinates so far; \<open>None\<close> is \<^verbatim>\<open>null\<close>.\<close>

record extent =
  min_x :: "jsnum option"
  min_y :: "jsnum option"
  max_x :: "jsnum option"
  max_y :: "jsnum option"

definition lower :: "jsnum \<Rightarrow> jsnum option \<Rightarrow> jsnum option" where
  "lower x m = (case m of None \<Rightarrow> Some x | Some y \<Rightarrow> if x < y then Some x else m)"

definition upper :: "jsnum \<Rightarrow> jsnum option \<Rightarrow> jsnum option" where
  "upper x m = (case m of None \<Rightarrow> Some x | Some y \<Rightarrow> if y < x then Some x else m)"

definition widen :: "jsnum \<times> jsnum \<Rightarrow> extent \<Rightarrow> extent" where
  "widen p e = \<lparr>min_x = lower (fst p) (min_x e), min_y = lower (snd p) (min_y e),
     max_x = upper (fst p) (max_x e), max_y = upper (snd p) (max_y e)\<rparr>"

definition whole :: "vml_version \<Rightarrow> jsnum \<Rightarrow> jsnum" where
  "whole v n = (case v of New \<Rightarrow> math_round n | Old \<Rightarrow> math_floor n)"

definition xy :: "vml_version \<Rightarrow> jsnum \<Rightarrow> jsnum \<Rightarrow> string" where
  "xy v x y = num_to_string (whole v x) @ '','' @ num_to_string (whole v y)"

text \<open>The text of an operation of a path, and the coordinates that it assigns to the variable \<^verbatim>\<open>c\<close>.\<close>

definition path_piece :: "vml_version \<Rightarrow> vml_context \<Rightarrow> path_op \<Rightarrow> string \<times> (jsnum \<times> jsnum) option" where
  "path_piece v ctx p =
     (let crd = getCoords v (ctm ctx) in
      case p of
        PMoveTo x y \<Rightarrow> (let c = crd x y in ('' m '' @ xy v (fst c) (snd c), Some c))
      | PLineTo x y \<Rightarrow> (let c = crd x y in ('' l '' @ xy v (fst c) (snd c), Some c))
      | PClose \<Rightarrow> ('' x '', None)
      | PBezierCurveTo cp1x cp1y cp2x cp2y x y \<Rightarrow>
          (let c = crd x y; c1 = crd cp1x cp1y; c2 = crd cp2x cp2y
           in ('' c '' @ xy v (fst c1) (snd c1) @ '','' @ xy v (fst c2) (snd c2) @ '','' @ xy v (fst c) (snd c), Some c))
      | PArc ty x y radius xStart yStart xEnd yEnd \<Rightarrow>
          if (case v of New \<Rightarrow> ty = ''at'' \<or> ty = ''wa'' | Old \<Rightarrow> ty = ''arc'') then
            (let c = crd x y; cStart = crd xStart yStart; cEnd = crd xEnd yEnd;
                 sx = (case v of New \<Rightarrow> arcScaleX ctx | Old \<Rightarrow> ctm ctx ! 0 ! 0);
                 sy = (case v of New \<Rightarrow> arcScaleY ctx | Old \<Rightarrow> ctm ctx ! 1 ! 1)
             in ((case v of New \<Rightarrow> '' '' @ ty @ '' '' | Old \<Rightarrow> '' ar '') @
                 xy v (fst c - sx * radius) (snd c - sy * radius) @ '' '' @
                 xy v (fst c + sx * radius) (snd c + sy * radius) @ '' '' @
                 xy v (fst cStart) (snd cStart) @ '' '' @ xy v (fst cEnd) (snd cEnd), Some c))
          else ([], None))"

text \<open>The loop over the path; \<open>c\<close> keeps the coordinates of the last operation that had some.\<close>

fun path_loop :: "vml_version \<Rightarrow> vml_context \<Rightarrow> path_op list \<Rightarrow> (jsnum \<times> jsnum) option \<Rightarrow> extent
    \<Rightarrow> string \<times> extent" where
  "path_loop v ctx [] c e = ([], e)"
| "path_loop v ctx (p # ps) c e =
     (let (t, new) = path_piece v ctx p;
          c1 = (if new = None then c else new);
          e1 = (case c1 of None \<Rightarrow> e | Some q \<Rightarrow> widen q e);
          (ts, e2) = path_loop v ctx ps c1 e1
      in (t @ ts, e2))"

definition stop_text :: "string \<times> jsval \<Rightarrow> string" where
  "stop_text a = fst a @ '','' @ to_str (snd a)"

text \<open>The stops with the largest and the smallest offset; of equal ones the first.\<close>

definition insidecolor :: "(jsnum \<times> string \<times> jsval) list \<Rightarrow> (jsnum \<times> string \<times> jsval) option" where
  "insidecolor = foldl (\<lambda>b fs. case b of None \<Rightarrow> Some fs
     | Some o1 \<Rightarrow> if fst o1 < fst fs then Some fs else b) None"

definition outsidecolor :: "(jsnum \<times> string \<times> jsval) list \<Rightarrow> (jsnum \<times> string \<times> jsval) option" where
  "outsidecolor = foldl (\<lambda>b fs. case b of None \<Rightarrow> Some fs
     | Some o1 \<Rightarrow> if fst fs < fst o1 then Some fs else b) None"

definition sort_stops :: "gradient \<Rightarrow> gradient" where
  "sort_stops g = g\<lparr>stops := sort_by (\<lambda>a b. fst a - fst b < Fin 0) (stops g)\<rparr>"

text \<open>An attribute of an element in the text.\<close>

definition attr :: "string \<Rightarrow> string \<Rightarrow> string" where
  "attr name value = '' '' @ name @ ''='' @ [CHR 0x22] @ value @ [CHR 0x22]"

definition gradient_fill :: "vml_version \<Rightarrow> gradient \<Rightarrow> extent \<Rightarrow> jsnum \<Rightarrow> string" where
  "gradient_fill v g e opacity =
     (let width = num_of (max_x e) - num_of (min_x e);
          height = num_of (max_y e) - num_of (min_y e);
          dimension = (if height < width then width else height);
          fx = num_to_string (whole v (focus_x g / width * Fin 100 + Fin 50)) @ ''%'';
          fy = num_to_string (whole v (focus_y g / height * Fin 100 + Fin 50)) @ ''%'';
          inside = (if gtype g = ''gradientradial'' then radius1 g / dimension * Fin 100 else Fin 0);
          expansion = (if gtype g = ''gradientradial'' then radius2 g / dimension * Fin 100 - inside else Fin 100);
          color_of = (\<lambda>b. case b of None \<Rightarrow> [] | Some fs \<Rightarrow> stop_text (snd fs))
      in ''<g_vml_:fill'' @
         attr ''color'' (color_of (outsidecolor (stops g))) @
         attr ''color2'' (color_of (insidecolor (stops g))) @
         attr ''type'' (gtype g) @
         attr ''focusposition'' (fx @ '', '' @ fy) @
         attr ''colors'' (join '','' (map (\<lambda>fs. num_to_string (fst fs * expansion + inside) @ ''% '' @
              stop_text (snd fs)) (stops g))) @
         attr ''opacity'' (num_to_string opacity) @ '' />'')"

definition bool_text :: "bool \<Rightarrow> string" where
  "bool_text b = (if b then ''true'' else ''false'')"

definition shape_open :: "vml_version \<Rightarrow> vml_context \<Rightarrow> bool \<Rightarrow> string \<Rightarrow> string" where
  "shape_open v ctx aFill color =
     ''<g_vml_:shape'' @
     attr ''fillcolor'' color @
     attr ''filled'' (bool_text aFill) @
     attr ''style'' ''position:absolute;width:10;height:10;'' @
     attr ''coordorigin'' ''0 0'' @ attr ''coordsize'' (case v of New \<Rightarrow> ''100 100'' | Old \<Rightarrow> ''10 10'') @
     attr ''stroked'' (bool_text (\<not> aFill)) @
     attr ''strokeweight'' (num_to_string (lineWidth ctx)) @
     attr ''strokecolor'' color"

definition stroke_element :: "vml_context \<Rightarrow> string \<Rightarrow> jsnum \<Rightarrow> string" where
  "stroke_element ctx color opacity =
     ''<g_vml_:stroke'' @
     attr ''opacity'' (num_to_string opacity) @
     attr ''joinstyle'' (lineJoin ctx) @
     attr ''miterlimit'' (num_to_string (miterLimit ctx)) @
     attr ''endcap'' (processLineCap (lineCap ctx)) @
     attr ''weight'' (num_to_string (lineWidth ctx) @ ''px'') @
     attr ''color'' color @ '' />''"

text \<open>
  \<^verbatim>\<open>stroke(aFill)\<close>.  A gradient in the fill style sorts its stops in place; a pattern has no focus, and
  reading it throws.
\<close>

definition stroke :: "vml_version \<Rightarrow> bool \<Rightarrow> (vml_context, unit) prog" where
  "stroke v aFill ctx =
     (let (color, alpha) = processStyle (if aFill then fillStyle ctx else strokeStyle ctx);
          opacity = to_num alpha * globalAlpha ctx;
          (path, e) = path_loop v ctx (currentPath ctx) None
             \<lparr>min_x = None, min_y = None, max_x = None, max_y = None\<rparr>;
          finish = (\<lambda>ctx inner. Some (Inr (), ctx\<lparr>html := html ctx @ shape_open v ctx aFill color @
             attr ''path'' (path @ '' '') @ ''>'' @ inner @ ''</g_vml_:shape>'', currentPath := []\<rparr>))
      in case fillStyle ctx of
           Pattern \<Rightarrow> Some (Inl TypeError, ctx)
         | Gradient i \<Rightarrow>
             (let g = sort_stops (gradients ctx ! i)
              in finish (ctx\<lparr>gradients := (gradients ctx)[i := g]\<rparr>) (gradient_fill v g e opacity))
         | _ \<Rightarrow> finish ctx (if aFill then ''<g_vml_:fill'' @ attr ''color'' color @
                                 attr ''opacity'' (num_to_string opacity) @ '' />''
                           else stroke_element ctx color opacity))"

definition stroke_old :: "bool \<Rightarrow> (vml_context, unit) prog" where
  "stroke_old = stroke Old"

definition fill :: "vml_version \<Rightarrow> (vml_context, unit) prog" where
  "fill v = stroke v True"

definition strokeRect :: "vml_version \<Rightarrow> jsnum \<Rightarrow> jsnum \<Rightarrow> jsnum \<Rightarrow> jsnum \<Rightarrow> (vml_context, unit) prog" where
  "strokeRect v aX aY aWidth aHeight =
     p_then (p_mod (rect aX aY aWidth aHeight \<circ> beginPath)) (stroke v False)"

definition fillRect :: "vml_version \<Rightarrow> jsnum \<Rightarrow> jsnum \<Rightarrow> jsnum \<Rightarrow> jsnum \<Rightarrow> (vml_context, unit) prog" where
  "fillRect v aX aY aWidth aHeight =
     p_then (p_mod (rect aX aY aWidth aHeight \<circ> beginPath)) (fill v)"

section \<open>Images\<close>

record vml_image =
  image_width :: jsnum
  image_height :: jsnum
  image_src :: string

text \<open>The source and the destination of an image, by the number of arguments.\<close>

record image_box =
  box_s :: "jsnum \<times> jsnum \<times> jsnum \<times> jsnum"
  box_d :: "jsnum \<times> jsnum \<times> jsnum \<times> jsnum"

definition image_box_of :: "vml_image \<Rightarrow> jsnum list \<Rightarrow> exn + image_box" where
  "image_box_of img args =
     (let w = image_width img; h = image_height img in
      case args of
        [dx, dy] \<Rightarrow> Inr \<lparr>box_s = (Fin 0, Fin 0, w, h), box_d = (dx, dy, w, h)\<rparr>
      | [dx, dy, dw, dh] \<Rightarrow> Inr \<lparr>box_s = (Fin 0, Fin 0, w, h), box_d = (dx, dy, dw, dh)\<rparr>
      | [sx, sy, sw, sh, dx, dy, dw, dh] \<Rightarrow> Inr \<lparr>box_s = (sx, sy, sw, sh), box_d = (dx, dy, dw, dh)\<rparr>
      | _ \<Rightarrow> Inl (Thrown (Str ''Invalid number of arguments'')))"

definition matrix_entry :: "string \<Rightarrow> jsnum \<Rightarrow> string" where
  "matrix_entry name n = name @ ''='' @ [CHR 0x27] @ num_to_string n @ [CHR 0x27]"

definition image_filter :: "matrix \<Rightarrow> jsnum \<times> jsnum \<Rightarrow> string" where
  "image_filter m d = join '',''
     [matrix_entry ''M11'' (m ! 0 ! 0), matrix_entry ''M12'' (m ! 1 ! 0), matrix_entry ''M21'' (m ! 0 ! 1),
      matrix_entry ''M22'' (m ! 1 ! 1), matrix_entry ''Dx'' (fst d), matrix_entry ''Dy'' (snd d)]"

definition image_place :: "vml_version \<Rightarrow> matrix \<Rightarrow> jsnum \<times> jsnum \<times> jsnum \<times> jsnum \<Rightarrow> string" where
  "image_place v m box =
     (let (dx, dy, dw, dh) = box; d = getCoords v m dx dy in
      if m ! 0 ! 0 \<noteq> Fin 1 \<or> num_truthy (m ! 0 ! 1) then
        (let c2 = getCoords v m (dx + dw) dy; c3 = getCoords v m dx (dy + dh); c4 = getCoords v m (dx + dw) (dy + dh);
             most = (\<lambda>f. math_max (math_max (math_max (f d) (f c2)) (f c3)) (f c4))
         in '' padding:0 '' @ num_to_string (whole v (most fst)) @ ''px '' @ num_to_string (whole v (most snd)) @
            ''px 0;filter:progid:DXImageTransform.Microsoft.Matrix('' @ image_filter m d @
            '', sizingmethod='' @ [CHR 0x27] @ ''clip'' @ [CHR 0x27] @ '');'')
      else '' top:'' @ num_to_string (snd d) @ ''px;left:'' @ num_to_string (fst d) @ ''px;'')"

definition drawImage :: "vml_version \<Rightarrow> vml_image \<Rightarrow> jsnum list \<Rightarrow> (vml_context, unit) prog" where
  "drawImage v img args ctx =
     (case image_box_of img args of
        Inl e \<Rightarrow> Some (Inl e, ctx)
      | Inr box \<Rightarrow>
          (let (sx, sy, sw, sh) = box_s box; (dx, dy, dw, dh) = box_d box;
               w = image_width img; h = image_height img
           in Some (Inr (), ctx\<lparr>html := html ctx @
             '' <g_vml_:group'' @ attr ''coordsize'' (case v of New \<Rightarrow> ''1000,1000'' | Old \<Rightarrow> ''100,100'') @
             attr ''coordorigin'' ''0, 0'' @
             attr ''style'' (''width:100px;height:100px;position:absolute;'' @
               image_place v (ctm ctx) (dx, dy, dw, dh) @ '' '') @ ''>'' @
             ''<g_vml_:image'' @ attr ''src'' (image_src img) @
             attr ''style'' (''width:'' @ num_to_string dw @ ''; height:'' @ num_to_string dh @ '';'') @
             attr ''cropleft'' (num_to_string (sx / w)) @
             attr ''croptop'' (num_to_string (sy / h)) @
             attr ''cropright'' (num_to_string ((w - sx - sw) / w)) @
             attr ''cropbottom'' (num_to_string ((h - sy - sh) / h)) @
             '' />'' @ ''</g_vml_:group>''\<rparr>)))"

definition drawImage_old :: "vml_image \<Rightarrow> jsnum list \<Rightarrow> (vml_context, unit) prog" where
  "drawImage_old = drawImage Old"

section \<open>Elements\<close>

text \<open>
  \<^verbatim>\<open>fixElement_\<close>: the tag names of the siblings after the element, \<open>None\<close> for a node without one; the
  result are the siblings after the new element.
\<close>

definition fixElement :: "string \<Rightarrow> string \<Rightarrow> string option list \<Rightarrow> string option list" where
  "fixElement outerHTML tagName sibs =
     (if slice outerHTML (- 2) (int (length outerHTML)) \<noteq> ''/>''
      then drop 1 (dropWhile (\<lambda>t. t \<noteq> Some (CHR ''/'' # tagName)) sibs) else sibs)"

text \<open>An initialised canvas element; the attributes are \<open>None\<close> when they are not specified.\<close>

record vml_element =
  el_outerHTML :: string
  el_tagName :: string
  el_width :: "string option"
  el_height :: "string option"
  el_styleWidth :: string
  el_styleHeight :: string
  el_context :: "vml_context option"

definition initElement :: "vml_element \<Rightarrow> string option list \<Rightarrow> vml_element \<times> string option list" where
  "initElement el sibs =
     (el\<lparr>el_context := None,
        el_styleWidth := (case el_width el of None \<Rightarrow> el_styleWidth el | Some w \<Rightarrow> w @ ''px''),
        el_styleHeight := (case el_height el of None \<Rightarrow> el_styleHeight el | Some h \<Rightarrow> h @ ''px'')\<rparr>,
      fixElement (el_outerHTML el) (el_tagName el) sibs)"

definition getContext :: "vml_element \<Rightarrow> vml_context \<times> vml_element" where
  "getContext el = (case el_context el of
     Some c \<Rightarrow> (c, el) | None \<Rightarrow> (new_context, el\<lparr>el_context := Some new_context\<rparr>))"

section \<open>The calls of the charts\<close>

definition run_call :: "vml_version \<Rightarrow> (jsnum \<Rightarrow> jsnum) \<Rightarrow> (jsnum \<Rightarrow> jsnum) \<Rightarrow> cx_call \<Rightarrow> (vml_context, unit) prog" where
  "run_call v ms mc k = (case k of
     Save \<Rightarrow> p_mod save
   | Restore \<Rightarrow> restore
   | BeginPath \<Rightarrow> p_mod beginPath
   | ClosePath \<Rightarrow> p_mod closePath
   | Stroke \<Rightarrow> stroke v False
   | Fill \<Rightarrow> fill v
   | MoveTo x y \<Rightarrow> p_mod (moveTo x y)
   | LineTo x y \<Rightarrow> p_mod (lineTo x y)
   | Arc x y r a b cw \<Rightarrow> p_mod (case v of New \<Rightarrow> vml_arc ms mc x y r a b cw | Old \<Rightarrow> vml_arc_old ms mc x y r a b cw)
   | FillRect x y w h \<Rightarrow> fillRect v x y w h
   | StrokeRect x y w h \<Rightarrow> strokeRect v x y w h
   | SetFillStyle st \<Rightarrow> p_mod (\<lambda>c. c\<lparr>fillStyle := (case st of None \<Rightarrow> NoStyle | Some t \<Rightarrow> Text t)\<rparr>)
   | SetStrokeStyle st \<Rightarrow> p_mod (\<lambda>c. c\<lparr>strokeStyle := (case st of None \<Rightarrow> NoStyle | Some t \<Rightarrow> Text t)\<rparr>)
   | SetLineWidth w \<Rightarrow> p_mod (\<lambda>c. c\<lparr>lineWidth := w\<rparr>))"

definition run_calls :: "vml_version \<Rightarrow> (jsnum \<Rightarrow> jsnum) \<Rightarrow> (jsnum \<Rightarrow> jsnum) \<Rightarrow> cx_call list \<Rightarrow> (vml_context, unit) prog" where
  "run_calls v ms mc ks = p_each (run_call v ms mc) ks"


section \<open>The identity matrix\<close>

text \<open>A matrix of three rows of three doubles.\<close>

definition shape3 :: "matrix \<Rightarrow> bool" where
  "shape3 m \<longleftrightarrow> length m = 3 \<and> (\<forall>r \<in> set m. length r = 3)"

definition finite_double :: "jsnum \<Rightarrow> bool" where
  "finite_double n \<longleftrightarrow> (case n of Fin q \<Rightarrow> fl q = Fin q | _ \<Rightarrow> False)"

lemma shape3_multiply [simp]: "shape3 (matrixMultiply a b)"
  by (simp add: shape3_def matrixMultiply_def)

lemma shape3_identity [simp]: "shape3 createMatrixIdentity"
  by (simp add: shape3_def createMatrixIdentity_def)

lemma list3: "length xs = 3 \<longleftrightarrow> (\<exists>a b c. xs = [a, b, c])"
  by (auto simp: numeral_3_eq_3 length_Suc_conv)

lemma identity_sums:
  assumes "finite_double a" "finite_double b" "finite_double c"
  shows "Fin 0 + Fin 1 * a + Fin 0 * b + Fin 0 * c = a"
    "Fin 0 + Fin 0 * a + Fin 1 * b + Fin 0 * c = b"
    "Fin 0 + Fin 0 * a + Fin 0 * b + Fin 1 * c = c"
  using assms by (auto simp: finite_double_def split: jsnum.splits)

text \<open>
  Multiplying by the identity leaves a matrix of finite numbers as it is, so \<^verbatim>\<open>save\<close> keeps the current
  transformation.
\<close>

theorem save_keeps_matrix:
  assumes "shape3 (ctm c)" and "\<And>r n. r \<in> set (ctm c) \<Longrightarrow> n \<in> set r \<Longrightarrow> finite_double n"
  shows "ctm (save c) = ctm c"
proof -
  obtain r1 r2 r3 where m: "ctm c = [r1, r2, r3]" "length r1 = 3" "length r2 = 3" "length r3 = 3"
    using assms(1) by (auto simp: shape3_def list3)
  obtain a1 a2 a3 b1 b2 b3 c1 c2 c3 where r: "r1 = [a1, a2, a3]" "r2 = [b1, b2, b3]" "r3 = [c1, c2, c3]"
    using m(2-) by (auto simp: list3)
  have "finite_double a1" "finite_double a2" "finite_double a3" "finite_double b1" "finite_double b2" "finite_double b3"
    "finite_double c1" "finite_double c2" "finite_double c3"
    using assms(2) [of r1] assms(2) [of r2] assms(2) [of r3] by (simp_all add: m(1) r)
  then show ?thesis
    by (simp add: save_def matrixMultiply_def createMatrixIdentity_def m(1) r identity_sums)
qed

theorem save_keeps_matrix_witness: "ctm (save new_context) = ctm new_context"
  by (rule save_keeps_matrix)
    (auto simp: new_context_def createMatrixIdentity_def finite_double_def shape3_def)

section \<open>Saving and restoring\<close>

lemma copyState_blank: "copyState (copyState c blank_state) d = copyState c d"
  by (simp add: copyState_def)

text \<open>
  C20: \<^verbatim>\<open>restore\<close> after \<^verbatim>\<open>save\<close>, with any drawing in between that leaves the two stacks as \<^verbatim>\<open>save\<close> made them, brings
  back the styles and the transformation of the time of \<^verbatim>\<open>save\<close>, exactly, and both stacks; the rest of the context,
  \<^verbatim>\<open>globalAlpha\<close> and the scale of arcs among it, stays as the drawing left it.
\<close>

theorem save_restore:
  assumes "aStack d = aStack (save c)" and "mStack d = mStack (save c)"
  shows "restore d = Some (Inr (), d\<lparr>fillStyle := fillStyle c, strokeStyle := strokeStyle c, lineWidth := lineWidth c, lineCap := lineCap c,
    lineJoin := lineJoin c, miterLimit := miterLimit c, shadowBlur := shadowBlur c, shadowColor := shadowColor c,
    shadowOffsetX := shadowOffsetX c, shadowOffsetY := shadowOffsetY c, ctm := ctm c, mStack := mStack c, aStack := aStack c\<rparr>)"
  using assms by (simp add: restore_def save_def copyState_def blank_state_def)

theorem save_restore_witness:
  "restore ((save new_context)\<lparr>fillStyle := Text ''#f00'', lineWidth := Fin 7, globalAlpha := Fin 0\<rparr>) =
     Some (Inr (), new_context\<lparr>globalAlpha := Fin 0\<rparr>)"
proof -
  let ?d = "(save new_context)\<lparr>fillStyle := Text ''#f00'', lineWidth := Fin 7, globalAlpha := Fin 0\<rparr>"
  have "aStack ?d = aStack (save new_context)" "mStack ?d = mStack (save new_context)" by simp_all
  from save_restore [OF this] show ?thesis by (simp add: save_def new_context_def)
qed

text \<open>
  C37: \<^verbatim>\<open>restore\<close> does not undo what \<^verbatim>\<open>scale\<close> did to the scale of arcs: after \<^verbatim>\<open>save\<close>, \<^verbatim>\<open>scale\<close> and \<^verbatim>\<open>restore\<close> the transformation is
  that of before, but arcs are drawn with the factors of the inner scale.
\<close>

theorem restore_keeps_arc_scale:
  "\<exists>d. restore (scale a b (save c)) = Some (Inr (), d) \<and> ctm d = ctm c \<and>
     arcScaleX d = arcScaleX c * a \<and> arcScaleY d = arcScaleY c * b"
  by (simp add: scale_def transform_def save_def copyState_def restore_def)

section \<open>The invariant of a context\<close>

text \<open>A style names one of the \<open>n\<close> gradients.\<close>

definition style_ok :: "nat \<Rightarrow> style \<Rightarrow> bool" where
  "style_ok n st \<longleftrightarrow> (case st of Gradient i \<Rightarrow> i < n | _ \<Rightarrow> True)"

lemma style_ok_mono: "style_ok n st \<Longrightarrow> n \<le> k \<Longrightarrow> style_ok k st"
  by (auto simp: style_ok_def split: style.splits)

definition context_ok :: "vml_context \<Rightarrow> bool" where
  "context_ok c \<longleftrightarrow> length (mStack c) = length (aStack c) \<and> shape3 (ctm c) \<and> (\<forall>m \<in> set (mStack c). shape3 m) \<and>
     style_ok (length (gradients c)) (fillStyle c) \<and> style_ok (length (gradients c)) (strokeStyle c) \<and>
     (\<forall>o1 \<in> set (aStack c). style_ok (length (gradients c)) (fillStyle o1) \<and> style_ok (length (gradients c)) (strokeStyle o1))"

text \<open>The operations of a context that a program can call, and the properties that it can set.\<close>

inductive context_step :: "vml_context \<Rightarrow> vml_context \<Rightarrow> bool" where
  clear: "context_step c (clearRect c)"
| begins: "context_step c (beginPath c)"
| path: "context_step c (push_path p c)"
| translates: "context_step c (translate x y c)"
| rotates: "context_step c (rotate ms mc a c)"
| scales: "context_step c (scale x y c)"
| saves: "context_step c (save c)"
| restores: "restore c = Some (r, d) \<Longrightarrow> context_step c d"
| strokes: "stroke v b c = Some (r, d) \<Longrightarrow> context_step c d"
| images: "drawImage v img args c = Some (r, d) \<Longrightarrow> context_step c d"
| linear: "context_step c (snd (createLinearGradient c))"
| radial: "context_step c (snd (createRadialGradient x y r s c))"
| stop: "context_step c (addColorStop g p st c)"
| sets_fill: "style_ok (length (gradients c)) st \<Longrightarrow> context_step c (c\<lparr>fillStyle := st\<rparr>)"
| sets_stroke: "style_ok (length (gradients c)) st \<Longrightarrow> context_step c (c\<lparr>strokeStyle := st\<rparr>)"
| sets_line: "context_step c (c\<lparr>lineWidth := w, lineCap := cap, lineJoin := j, miterLimit := l, globalAlpha := a\<rparr>)"

inductive reachable :: "vml_context \<Rightarrow> bool" where
  start: "reachable new_context"
| step: "reachable c \<Longrightarrow> context_step c d \<Longrightarrow> reachable d"

text \<open>What \<^verbatim>\<open>stroke\<close> and \<^verbatim>\<open>drawImage\<close> leave of a context.\<close>

lemma stroke_frame:
  assumes "stroke v b c = Some (r, d)"
  shows "ctm d = ctm c \<and> mStack d = mStack c \<and> aStack d = aStack c \<and> fillStyle d = fillStyle c \<and>
    strokeStyle d = strokeStyle c \<and> length (gradients d) = length (gradients c)"
  using assms unfolding stroke_def by (auto simp: Let_def split: prod.splits style.splits)

lemma drawImage_frame:
  assumes "drawImage v img args c = Some (r, d)"
  shows "\<exists>t. d = c\<lparr>html := t\<rparr>"
proof -
  have "\<exists>t. c = c\<lparr>html := t\<rparr>" by (rule exI [of _ "html c"]) simp
  then show ?thesis using assms unfolding drawImage_def by (auto simp: Let_def split: prod.splits sum.splits)
qed

lemma restore_frame:
  assumes "context_ok c" and "restore c = Some (r, d)"
  shows "context_ok d"
proof (cases "aStack c")
  case Nil
  then show ?thesis using assms by (simp add: restore_def)
next
  case (Cons o1 os)
  then obtain m ms where "mStack c = m # ms" using assms(1) by (cases "mStack c") (auto simp: context_ok_def)
  then show ?thesis using assms Cons by (auto simp: restore_def context_ok_def copyState_def)
qed

lemma context_ok_cong:
  assumes "context_ok c" and "length (mStack d) = length (aStack d)" and "shape3 (ctm d)" and "\<forall>m \<in> set (mStack d). shape3 m"
    and "fillStyle d = fillStyle c" "strokeStyle d = strokeStyle c" "aStack d = aStack c"
    and "length (gradients c) \<le> length (gradients d)"
  shows "context_ok d"
  using assms(1-7) style_ok_mono [OF _ assms(8)] by (simp add: context_ok_def)

lemma context_step_ok: "context_step c d \<Longrightarrow> context_ok c \<Longrightarrow> context_ok d"
proof (induction rule: context_step.induct)
  case (saves c)
  then show ?case by (auto simp: context_ok_def save_def copyState_def)
next
  case (restores c r d)
  then show ?case by (blast intro: restore_frame)
next
  case (strokes v b c r d)
  then show ?case using stroke_frame [OF strokes(1)] by (intro context_ok_cong [of c d]) (auto simp: context_ok_def)
next
  case (images v img args c r d)
  then show ?case using drawImage_frame [OF images(1)] by (intro context_ok_cong [of c d]) (auto simp: context_ok_def)
next
  case (sets_fill c st)
  then show ?case by (simp add: context_ok_def)
next
  case (sets_stroke c st)
  then show ?case by (simp add: context_ok_def)
qed (rule context_ok_cong, assumption;
     simp add: context_ok_def clearRect_def beginPath_def push_path_def translate_def rotate_def scale_def transform_def
       createLinearGradient_def createRadialGradient_def addColorStop_def Let_def)+

text \<open>
  C13: whatever a program calls on a context, the two stacks have the same height, every matrix in it
  has three rows of three entries, and every gradient that a style names exists.
\<close>

theorem reachable_context_ok: "reachable c \<Longrightarrow> context_ok c"
proof (induction rule: reachable.induct)
  case start
  then show ?case by (simp add: context_ok_def new_context_def style_ok_def)
qed (rule context_step_ok)

theorem reachable_context_ok_witness: "context_ok (save (clearRect new_context))"
  by (rule reachable_context_ok [OF reachable.step [OF reachable.step [OF reachable.start clear] saves]])

section \<open>Running the calls of a chart\<close>

text \<open>A context whose styles are texts or \<^verbatim>\<open>undefined\<close>: the charts set no other.\<close>

definition plain_style :: "style \<Rightarrow> bool" where
  "plain_style st \<longleftrightarrow> (case st of Text _ \<Rightarrow> True | NoStyle \<Rightarrow> True | _ \<Rightarrow> False)"

lemma plain_style_simps [simp]: "plain_style (Text t)" "plain_style NoStyle" "\<not> plain_style Pattern" "\<not> plain_style (Gradient i)"
  by (simp_all add: plain_style_def)

definition plain_context :: "vml_context \<Rightarrow> bool" where
  "plain_context c \<longleftrightarrow> plain_style (fillStyle c) \<and> (\<forall>o1 \<in> set (aStack c). plain_style (fillStyle o1)) \<and>
     length (mStack c) = length (aStack c)"

text \<open>Every \<^verbatim>\<open>restore\<close> has a state to pop, when \<open>n\<close> states are saved at first.\<close>

fun nested :: "nat \<Rightarrow> cx_call list \<Rightarrow> bool" where
  "nested n [] = True"
| "nested n (k # ks) =
     (if k = Save then nested (Suc n) ks else if k = Restore then 0 < n \<and> nested (n - 1) ks else nested n ks)"

lemma nested_append: "nested n ks \<Longrightarrow> nested (nat (int n + saved ks)) ls \<Longrightarrow> nested n (ks @ ls)"
proof (induction ks arbitrary: n)
  case (Cons k ks)
  show ?case
  proof (cases "k = Restore")
    case True
    then have "nested (n - 1) ks" "0 < n" using Cons.prems(1) by simp_all
    moreover have "int n + saved (k # ks) = int (n - 1) + saved ks" using True \<open>0 < n\<close> by simp
    ultimately show ?thesis using Cons.IH [of "n - 1"] Cons.prems(2) True by (simp add: algebra_simps)
  next
    case False
    then show ?thesis using Cons.IH [of "Suc n"] Cons.IH [of n] Cons.prems
      by (cases "k = Save") (simp_all add: algebra_simps)
  qed
qed simp

lemma nested_concat:
  assumes "\<And>n ks. ks \<in> set kss \<Longrightarrow> nested n ks" and "\<And>ks. ks \<in> set kss \<Longrightarrow> 0 \<le> saved ks"
  shows "nested n (concat kss)"
  using assms by (induction kss arbitrary: n) (auto intro!: nested_append)

text \<open>The drawing of a path returns when the styles are plain.\<close>

lemma stroke_plain:
  assumes "plain_style (fillStyle c)"
  shows "\<exists>t. stroke v b c = Some (Inr (), c\<lparr>html := html c @ t, currentPath := []\<rparr>)"
  using assms by (cases "fillStyle c") (auto simp: stroke_def Let_def plain_style_def split: prod.splits)

lemma plain_context_cong:
  "fillStyle d = fillStyle c \<Longrightarrow> aStack d = aStack c \<Longrightarrow> mStack d = mStack c \<Longrightarrow> plain_context d = plain_context c"
  by (simp add: plain_context_def)

lemma path_frame [simp]:
  "fillStyle (push_path p c) = fillStyle c" "aStack (push_path p c) = aStack c" "mStack (push_path p c) = mStack c"
  "fillStyle (beginPath c) = fillStyle c" "aStack (beginPath c) = aStack c" "mStack (beginPath c) = mStack c"
  by (simp_all add: push_path_def beginPath_def)

lemmas path_defs = closePath_def moveTo_def lineTo_def rect_def vml_arc_def vml_arc_old_def Let_def

lemma run_call_plain:
  assumes "plain_context c" and "k = Restore \<Longrightarrow> aStack c \<noteq> []"
  shows "\<exists>d. run_call v ms mc k c = Some (Inr (), d) \<and> plain_context d \<and>
    int (length (aStack d)) = int (length (aStack c)) + saved [k]"
proof -
  have stroke: "\<exists>d. stroke v b c' = Some (Inr (), d) \<and> plain_context d \<and> int (length (aStack d)) = int (length (aStack c))"
    if "fillStyle c' = fillStyle c" "aStack c' = aStack c" "mStack c' = mStack c" for b c'
    using stroke_plain [of c' v b] that assms(1) by (fastforce simp: plain_context_def)
  have mod: "\<exists>d. p_mod f c = Some (Inr (), d) \<and> plain_context d \<and> int (length (aStack d)) = int (length (aStack c))"
    if "plain_style (fillStyle (f c))" "aStack (f c) = aStack c" "mStack (f c) = mStack c" for f
    using that assms(1) by (simp add: p_mod_def plain_context_def)
  have pl: "plain_style (fillStyle c)" using assms(1) by (simp add: plain_context_def)
  show ?thesis
  proof (cases k)
    case Save
    then show ?thesis using assms(1)
      by (simp add: run_call_def p_mod_def save_def plain_context_def copyState_def)
  next
    case Restore
    then obtain o1 os where "aStack c = o1 # os" using assms(2) by (cases "aStack c") auto
    moreover obtain m ms' where "mStack c = m # ms'" using assms(1) calculation
      by (cases "mStack c") (auto simp: plain_context_def)
    ultimately show ?thesis using assms(1) Restore
      by (simp add: run_call_def restore_def plain_context_def copyState_def)
  next
    case (Arc x y r a b cw)
    then show ?thesis using mod pl
      by (cases v) (simp_all add: run_call_def vml_arc_def vml_arc_old_def Let_def split: prod.split)
  next
    case (FillRect x y w h)
    then show ?thesis using stroke [of "rect x y w h (beginPath c)" True]
      by (simp add: run_call_def fillRect_def fill_def p_then_def p_bind_def p_mod_def path_defs)
  next
    case (StrokeRect x y w h)
    then show ?thesis using stroke [of "rect x y w h (beginPath c)" False]
      by (simp add: run_call_def strokeRect_def p_then_def p_bind_def p_mod_def path_defs)
  qed (use stroke [of c] mod pl in \<open>simp_all add: run_call_def fill_def path_defs split: option.split\<close>)
qed

text \<open>
  Calls in which every \<^verbatim>\<open>restore\<close> has its \<^verbatim>\<open>save\<close> run without an error, and the height of the stack changes by
  the number of states they save and do not restore.
\<close>

lemma run_calls_nested:
  assumes "plain_context c" and "nested (length (aStack c)) ks"
  shows "\<exists>d. run_calls v ms mc ks c = Some (Inr (), d) \<and> plain_context d \<and>
    int (length (aStack d)) = int (length (aStack c)) + saved ks"
  using assms
proof (induction ks arbitrary: c)
  case Nil
  then show ?case by (simp add: run_calls_def p_ret_def)
next
  case (Cons k ks)
  have "k = Restore \<Longrightarrow> aStack c \<noteq> []" using Cons.prems(2) by auto
  then obtain d where d: "run_call v ms mc k c = Some (Inr (), d)" "plain_context d"
    "int (length (aStack d)) = int (length (aStack c)) + saved [k]"
    using run_call_plain [OF Cons.prems(1)] by blast
  have "length (aStack d) = (if k = Save then Suc (length (aStack c)) else if k = Restore then length (aStack c) - 1
      else length (aStack c))"
    using d(3) Cons.prems(2) by (auto split: if_splits)
  then have "nested (length (aStack d)) ks" using Cons.prems(2) by (auto split: if_splits)
  then obtain e where "run_calls v ms mc ks d = Some (Inr (), e)" "plain_context e"
    "int (length (aStack e)) = int (length (aStack d)) + saved ks"
    using Cons.IH [OF d(2)] by blast
  then show ?case using d by (auto simp: run_calls_def p_then_def p_bind_def)
qed

section \<open>Colours\<close>

lemma index_from_skip: "ch \<notin> set s \<Longrightarrow> index_from i [ch] (s @ ch # t) = int (i + length s)"
  by (induction s arbitrary: i) auto

lemma digits_no_char:
  assumes "0 \<le> n" "\<not> is_digit ch"
  shows "ch \<notin> set (digits 10 n)"
  using digits_10 [OF assms(1)] assms(2) by (auto simp: list_all_iff)

lemma parseInt_text_digits:
  assumes "0 \<le> n" "n < 256"
  shows "parseInt_text (digits 10 n) = Fin (of_int n)"
proof -
  have d: "digits 10 n \<noteq> []" "list_all is_digit (digits 10 n)" "digits_val 0 (digits 10 n) = n"
    using digits_10 [OF assms(1)] by auto
  obtain a s where s: "digits 10 n = a # s" using d(1) by (cases "digits 10 n") auto
  have a: "is_digit a" using d(2) s by simp
  then have na: "\<not> is_space a" "a \<noteq> CHR ''-''" "a \<noteq> CHR ''+''"
    by (auto simp: is_digit_def is_space_def)
  have t: "takeWhile is_digit (a # s) = a # s" using d(2) s by (auto simp: list_all_iff takeWhile_eq_all_conv)
  have "\<not> is_digit (CHR ''x'')" "\<not> is_digit (CHR ''X'')" by (simp_all add: is_digit_def)
  then have x: "\<not> starts ''0x'' (a # s)" "\<not> starts ''0X'' (a # s)"
    using d(2) s by (cases s; auto)+
  have "fl (of_int n) = Fin (of_int n)" using assms by (intro fl_of_int) simp
  then show ?thesis using d(3) na t x
    by (auto simp: parseInt_text_def s read_sign_def Let_def)
qed

text \<open>
  A colour written as \<^verbatim>\<open>rgb(r,g,b)\<close> with components below 256 becomes the hexadecimal text of its
  components, fully opaque.
\<close>

theorem processStyle_rgb:
  assumes "0 \<le> r" "r < 256" "0 \<le> g" "g < 256" "0 \<le> b" "b < 256"
  shows "processStyle (Text (''rgb('' @ digits 10 r @ '','' @ digits 10 g @ '','' @ digits 10 b @ '')'')) =
    (CHR ''#'' # dec2hex ! nat r @ dec2hex ! nat g @ dec2hex ! nat b, Num (Fin 1))"
proof -
  let ?guts = "digits 10 r @ CHR '','' # digits 10 g @ CHR '','' # digits 10 b"
  let ?s = "''rgb('' @ ?guts @ '')''"
  have nd: "\<not> is_digit (CHR '')'')" "\<not> is_digit (CHR '','')" by (simp_all add: is_digit_def)
  have close: "CHR '')'' \<notin> set ?guts"
    using digits_no_char [OF assms(1) nd(1)] digits_no_char [OF assms(3) nd(1)] digits_no_char [OF assms(5) nd(1)] by simp
  have comma: "CHR '','' \<notin> set (digits 10 n)" if "0 \<le> n" for n using digits_no_char [OF that nd(2)] .
  have "indexOf_from ?s ''('' 3 = 3" by (simp add: indexOf_from_def)
  moreover have "indexOf_from ?s '')'' 4 = int (4 + length ?guts)"
    using index_from_skip [OF close, of 4 "[]"] by (simp add: indexOf_from_def eval_nat_numeral)
  moreover have "substring ?s 4 (int (4 + length ?guts)) = ?guts"
    by (simp add: substring_def Let_def nat_add_distrib)
  moreover have "split_chr (CHR '','') ?guts = [digits 10 r, digits 10 g, digits 10 b]"
    using comma assms by (simp add: split_chr_append split_chr_none)
  moreover have "hex_of (Fin (of_int n)) = dec2hex ! nat n" if "0 \<le> n" "n < 256" for n
    using that by (simp add: hex_of_def)
  moreover have "substring ?s 0 3 = ''rgb''" by (simp add: substring_def)
  ultimately show ?thesis using assms
    by (simp add: processStyle_def style_text_def Let_def parseInt_text_digits)
qed

theorem processStyle_rgb_witness:
  "processStyle (Text (''rgb('' @ digits 10 255 @ '','' @ digits 10 0 @ '','' @ digits 10 17 @ '')'')) =
    (CHR ''#'' # dec2hex ! nat 255 @ dec2hex ! nat 0 @ dec2hex ! nat 17, Num (Fin 1))"
  by (rule processStyle_rgb) simp_all

section \<open>The content of a canvas element\<close>

text \<open>
  \<^verbatim>\<open>fixElement_\<close> on a tag that is not closed removes the siblings up to the stray closing tag and that tag,
  and keeps what follows; without such a tag it removes all that follows the canvas.
\<close>

theorem fixElement_removes_content:
  assumes "slice outerHTML (- 2) (int (length outerHTML)) \<noteq> ''/>''" and "Some (CHR ''/'' # tag) \<notin> set content"
  shows "fixElement outerHTML tag (content @ Some (CHR ''/'' # tag) # rest) = rest \<and>
    fixElement outerHTML tag content = []"
proof -
  have d: "dropWhile (\<lambda>t. t \<noteq> Some (CHR ''/'' # tag)) content = []"
    using assms(2) by (subst dropWhile_eq_Nil_conv) auto
  moreover have "dropWhile (\<lambda>t. t \<noteq> Some (CHR ''/'' # tag)) (content @ Some (CHR ''/'' # tag) # rest) =
      Some (CHR ''/'' # tag) # rest"
    using assms(2) by (subst dropWhile_append2) auto
  ultimately show ?thesis using assms(1) by (simp only: fixElement_def if_True not_False_eq_True) simp
qed

theorem fixElement_removes_content_witness:
  "fixElement ''<canvas>'' ''canvas'' ([None, Some ''p''] @ Some (CHR ''/'' # ''canvas'') # [Some ''div'']) = [Some ''div''] \<and>
    fixElement ''<canvas>'' ''canvas'' [None, Some ''p''] = []"
  by (rule fixElement_removes_content) (simp_all add: slice_def clip_def)

end
