(* ===== verification/Plotr_Bar.thy ===== *)
theory Plotr_Bar
  imports Plotr_Canvas
begin

text \<open>
  Bar charts: \<^verbatim>\<open>htdocs/plotr/BarChart.js\<close>.
\<close>

section \<open>Measures of the bars\<close>

text \<open>The least distance of neighbouring indices.\<close>

fun min_delta :: "jsnum \<Rightarrow> jsnum list \<Rightarrow> jsnum" where
  "min_delta d (u # v # us) = min_delta (math_min (math_abs (v - u)) d) (v # us)"
| "min_delta d _ = d"

text \<open>
  The scale, the width of a bar and its margin, for indices \<open>us\<close>.  \<open>sc\<close> is the scale for two or more
  indices.
\<close>

record bar_measures =
  bm_xdelta :: jsnum
  bm_xscale :: jsnum
  bm_minxval :: jsnum
  bm_width :: jsnum
  bm_margin :: jsnum

definition bar_measures_of :: "chart \<Rightarrow> (jsnum \<Rightarrow> jsnum) \<Rightarrow> jsnum list \<Rightarrow> bar_measures" where
  "bar_measures_of c sc us =
     (let f = barWidthFillFraction (options c); n = Fin (of_nat (length (stores c)));
          xdelta = min_delta (Fin 10000000) us
      in case us of
           [u] \<Rightarrow> \<lparr>bm_xdelta = Fin 1, bm_xscale = Fin 1, bm_minxval = u,
                   bm_width = Fin 1 * f / n, bm_margin = (Fin 1 - f) / Fin 2\<rparr>
         | _ \<Rightarrow> \<lparr>bm_xdelta = xdelta, bm_xscale = sc xdelta, bm_minxval = minxval c,
                   bm_width = xdelta * sc xdelta * f / n,
                   bm_margin = xdelta * sc xdelta * (Fin 1 - f) / Fin 2\<rparr>)"

definition vertical_scale :: "chart \<Rightarrow> jsnum \<Rightarrow> jsnum" where
  "vertical_scale c xdelta =
     (if num_eq (xrange c) (Fin 1) then Fin (1 / 2)
      else if num_eq (xrange c) (Fin 2) then Fin 1 / Fin 3
      else (Fin 1 - Fin 1 / xrange c) / xrange c)"

definition horizontal_scale :: "chart \<Rightarrow> jsnum \<Rightarrow> jsnum" where
  "horizontal_scale c xdelta = (Fin 1 - xdelta / xrange c) / xrange c"

definition bar_offset :: "chart \<Rightarrow> bar_measures \<Rightarrow> nat \<Rightarrow> item \<Rightarrow> jsnum" where
  "bar_offset c m i it = (parseFloat_val (fst it) - bm_minxval m) * bm_xscale m +
     Fin (of_nat i) * bm_width m + bm_margin m"

definition bar_length :: "chart \<Rightarrow> item \<Rightarrow> jsnum" where
  "bar_length c it = (parseFloat_val (snd it) - minyval c) * num_of (yscale c)"

definition vertical_bars :: "chart \<Rightarrow> bar_measures \<Rightarrow> bar list" where
  "vertical_bars c m = concat (map (\<lambda>(i, name, store). concat (map (\<lambda>it.
     let rect = \<lparr>bar_x = bar_offset c m i it, bar_y = Fin 1 - bar_length c it,
                 bar_w = bm_width m, bar_h = bar_length c it,
                 bar_xval = parseFloat_val (fst it), bar_yval = parseFloat_val (snd it),
                 bar_name = name\<rparr>
     in if in_unit (bar_x rect) \<and> in_unit (bar_y rect) then [rect] else []) store))
     (enumerate 0 (dataStores c)))"

definition clamp_unit :: "jsnum \<Rightarrow> jsnum" where
  "clamp_unit y = (if y \<le> Fin 0 then Fin 0 else if Fin 1 \<le> y then Fin 1 else y)"

definition horizontal_bars :: "chart \<Rightarrow> bar_measures \<Rightarrow> bar list" where
  "horizontal_bars c m = concat (map (\<lambda>(i, name, store). concat (map (\<lambda>it.
     let rect = \<lparr>bar_x = Fin 0, bar_y = clamp_unit (bar_offset c m i it),
                 bar_w = bar_length c it, bar_h = bm_width m,
                 bar_xval = parseFloat_val (fst it), bar_yval = parseFloat_val (snd it),
                 bar_name = name\<rparr>
     in if in_unit (bar_x rect) then [rect] else []) store)) (enumerate 0 (dataStores c)))"

text \<open>What both evaluations do with the indices: the measures are stored, then the bars.\<close>

definition eval_bars :: "(chart \<Rightarrow> jsnum \<Rightarrow> jsnum) \<Rightarrow> (chart \<Rightarrow> bar_measures \<Rightarrow> bar list)
    \<Rightarrow> (chart, unit) prog" where
  "eval_bars scale bars_of c =
     (case uniqueIndices (stores c) of
        None \<Rightarrow> None
      | Some (Inl e) \<Rightarrow> Some (Inl e, c)
      | Some (Inr uniqx) \<Rightarrow>
          (let m = bar_measures_of c (scale c) (map to_num uniqx);
               c1 = c\<lparr>xscale := Some (bm_xscale m), minxval := bm_minxval m, minxdelta := bm_xdelta m\<rparr>
           in Some (Inr (), c1\<lparr>bars := bars_of c1 m\<rparr>)))"

definition evalBarChart :: "(chart, unit) prog" where
  "evalBarChart = eval_bars vertical_scale vertical_bars"

definition evalHorizBarChart :: "(chart, unit) prog" where
  "evalHorizBarChart = eval_bars horizontal_scale horizontal_bars"

section \<open>Ticks\<close>

text \<open>A \<^verbatim>\<open>collect\<close> over ticks: reading the position of an \<^verbatim>\<open>undefined\<close> tick throws.\<close>

fun map_ticks :: "(jsnum \<Rightarrow> jsnum) \<Rightarrow> (jsval \<times> jsval) option list
    \<Rightarrow> exn + (jsval \<times> jsval) option list" where
  "map_ticks f [] = Inr []"
| "map_ticks f (None # ts) = Inl TypeError"
| "map_ticks f (Some (p, v) # ts) = map_sum id (Cons (Some (Num (f (to_num p)), v))) (map_ticks f ts)"

definition evalBarTicks :: "(chart, unit) prog" where
  "evalBarTicks =
     p_then evalLineTicks
    (\<lambda>c. case map_ticks (\<lambda>p. p + minxdelta c * num_of (xscale c) / Fin 2) (xticks c) of
        Inl e \<Rightarrow> Some (Inl e, c)
      | Inr xt \<Rightarrow>
          if barOrientation (options c) = Horizontal then
            (case map_ticks (\<lambda>p. Fin 1 - p) (yticks c) of
               Inl e \<Rightarrow> Some (Inl e, c\<lparr>xticks := xt\<rparr>)
             | Inr yt \<Rightarrow> Some (Inr (), c\<lparr>xticks := yt, yticks := xt\<rparr>))
          else Some (Inr (), c\<lparr>xticks := xt\<rparr>))"

definition Bar_evaluate :: "setting list option \<Rightarrow> (chart, unit) prog" where
  "Bar_evaluate opts =
     p_then (Chart_eval opts)
    (p_then (\<lambda>c. if barOrientation (options c) = Vertical then evalBarChart c else evalHorizBarChart c)
      evalBarTicks)"

section \<open>Drawing\<close>

text \<open>\<^verbatim>\<open>colorScheme[index % colorScheme.length]\<close>: no colour when the scheme is empty.\<close>

definition pick_color :: "scheme \<Rightarrow> nat \<Rightarrow> string option" where
  "pick_color s index = (case s of
     Colors cs \<Rightarrow> if cs = [] then None else Some (cs ! (index mod length cs))
   | _ \<Rightarrow> None)"

text \<open>A bar less than one pixel wide or high is left out, after the state of the context was saved.\<close>

definition drawBar :: "chart \<Rightarrow> nat \<Rightarrow> bar \<Rightarrow> cx_call list" where
  "drawBar c index b =
     (let o1 = options c; a = plot_area c;
          x = area_w a * bar_x b + area_x a; y = area_h a * bar_y b + area_y a;
          w = area_w a * bar_w b; h = area_h a * bar_h b
      in [Save, SetLineWidth (strokeWidth o1), SetFillStyle (pick_color (colorScheme o1) index),
          SetStrokeStyle (Some (strokeColor o1))] @
         (if w < Fin 1 \<or> h < Fin 1 then []
          else (if shouldFill o1 then [FillRect x y w h] else []) @
               (if shouldStroke o1 then [StrokeRect x y w h] else []) @ [Restore]))"

text \<open>
  The loop runs over the names of the datasets and then over the names of the methods that arrays
  inherit, for which there are no bars.
\<close>

definition renderBarChart :: "(chart, unit) prog" where
  "renderBarChart c =
     cx (concat (map (\<lambda>(index, name, _). concat (map (drawBar c index)
       (filter (\<lambda>b. bar_name b = name) (bars c)))) (enumerate 0 (dataStores c)))) c"

text \<open>\<open>pages\<close> is what the document has under the id of a canvas.\<close>

definition Bar_body :: "(string \<Rightarrow> page) \<Rightarrow> string option \<Rightarrow> setting list option \<Rightarrow> (chart, unit) prog" where
  "Bar_body pages element opts =
     p_then (Bar_evaluate opts) (p_then (Canvas_render (map_option pages element))
       (p_then renderBarChart renderAxis))"

definition Bar_render :: "(string \<Rightarrow> page) \<Rightarrow> string \<Rightarrow> bool \<Rightarrow> string option \<Rightarrow> setting list option \<Rightarrow> (chart, unit) prog" where
  "Bar_render pages node ready element opts = render_loop (Bar_body pages) node ready element opts"


section \<open>Properties\<close>

lemma Bar_body_render: "Bar_body pages = render_body Bar_evaluate (p_then renderBarChart renderAxis) pages"
  by (intro ext) (simp add: Bar_body_def render_body_def)

interpretation bar_renderer: renderer Bar_evaluate "p_then renderBarChart renderAxis"
proof
  have bars: "ends small (eval_bars scale bars_of)" for scale bars_of
  proof -
    have u: "uniqueIndices (stores c) \<noteq> None" if "small c" for c
      using that by (intro uniqueIndices_end) (auto simp: small_def)
    have s: "small (c\<lparr>xscale := b, minxval := a, minxdelta := d, bars := e\<rparr>) = small c" for c a b d e
      by (simp add: small_def)
    have "\<exists>r t. eval_bars scale bars_of c = Some (r, t) \<and> small t" if "small c" for c
      using u [OF that] that by (auto simp: eval_bars_def Let_def s split: sum.splits)
    then show ?thesis by (simp add: ends_def)
  qed
  have s: "small (c\<lparr>xticks := ts\<rparr>) = small c" "small (c\<lparr>xticks := ts, yticks := us\<rparr>) = small c" for c ts us
    by (simp_all add: small_def)
  have ticks: "ends small evalBarTicks"
    unfolding evalBarTicks_def evalLineTicks_def
    by (intro ends) (auto simp: ends_def s split: sum.splits)
  show "ends small (Bar_evaluate opts)" for opts
    unfolding Bar_evaluate_def evalBarChart_def evalHorizBarChart_def
    by (intro ends ticks) (use bars in \<open>auto simp: ends_def\<close>)
  have draw: "renderBarChart = (\<lambda>c. cx (ks c) c)" if "ks = (\<lambda>c. concat (map (\<lambda>(index, name, _). concat (map (drawBar c index)
       (filter (\<lambda>b. bar_name b = name) (bars c)))) (enumerate 0 (dataStores c))))" for ks
    by (simp add: fun_eq_iff renderBarChart_def that)
  show "ends small (p_then renderBarChart renderAxis)"
    unfolding draw [OF refl] by (rule ends_then [OF ends_at [OF cx_ends] axis_ends])
  show "keeps queue_of (p_then renderBarChart renderAxis)"
    unfolding draw [OF refl] by (rule keeps_then [OF keeps_at [OF keeps_cx] keeps_axis])
qed

text \<open>
  C30: under Internet Explorer, a rendering of a bar chart into a named element that does not have to wait
  evaluates and draws the chart exactly once, and when it succeeds it leaves the queue empty: the elements that
  were queued while the chart waited are dropped without being rendered.
\<close>

theorem bar_render_drops_queue:
  assumes "isIE c" and "ieWaitForVML node True (Some el) opts c = (False, c1)"
  shows "Bar_render pages node True (Some el) opts c = Bar_body pages (Some el) opts c1 \<and>
    (\<forall>c2. Bar_body pages (Some el) opts c1 = Some (Inr (), c2) \<longrightarrow> isIE c2 \<longrightarrow> renderStack c2 = [])"
  unfolding Bar_render_def Bar_body_render
  using bar_renderer.render_named [OF assms] render_body_queue [OF bar_renderer.draw_keeps] by blast

text \<open>A chart of numbers without ticks, axes and background is rendered.\<close>

lemma bar_body_renders:
  assumes "numeric_chart c" "dataStores c \<noteq> []" "xTicks (options c) = Some []" "yTicks (options c) = Some []"
    "\<not> drawBackground (options c)" "\<not> drawXAxis (options c)" "\<not> drawYAxis (options c)" "barOrientation (options c) = Vertical"
  shows "\<exists>c2. Bar_body (\<lambda>_. sample_page True) (Some el) None c = Some (Inr (), c2) \<and> isIE c2"
proof -
  let ?c1 = "evalXY (c\<lparr>stores := map snd (dataStores c)\<rparr>)"
  have o: "options ?c1 = options c" "stores ?c1 = map snd (dataStores c)"
    by (simp_all add: evalXY_def Let_def split: option.splits prod.splits)
  obtain us where "uniqueIndices (stores ?c1) = Some (Inr us)"
    using uniqueIndices_all [of "stores ?c1"] assms(1,2) unfolding o numeric_chart_def by fastforce
  then obtain c2 where c2: "evalBarChart ?c1 = Some (Inr (), c2)" "options c2 = options c"
    using o by (auto simp: evalBarChart_def eval_bars_def Let_def)
  have ticks: "evalBarTicks c2 = Some (Inr (), c2\<lparr>xticks := [], yticks := []\<rparr>)"
    using c2(2) assms by (simp add: evalBarTicks_def evalLineTicks_def evalLineTicksForXAxis_def evalLineTicksForYAxis_def
        p_then_def p_bind_def)
  have eval: "Bar_evaluate None c = Some (Inr (), c2\<lparr>xticks := [], yticks := []\<rparr>)"
    using Chart_eval_numeric [OF assms(1)] c2(1) ticks o(1) assms(8) by (simp add: Bar_evaluate_def p_then_def p_bind_def)
  have "toLowerCase ''DIV'' = ''div''" by code_simp
  then show ?thesis using eval c2(2) assms
    by (simp add: Bar_body_def Canvas_render_def initCanvas_def sample_page_def renderBarChart_def renderAxis_def cx_def
        prog_defs Let_def)
qed

definition queue_chart :: chart where
  "queue_chart = (sample_chart Bar)\<lparr>isIE := True, renderDelay := Some True, renderStack := [(''b'', None)],
     options := (default_options [])\<lparr>xTicks := Some [], yTicks := Some [], drawBackground := False, drawXAxis := False,
       drawYAxis := False\<rparr>\<rparr>"

theorem bar_render_drops_queue_witness:
  "\<exists>c2. Bar_render (\<lambda>_. sample_page True) ''canvas'' True (Some ''a'') None queue_chart = Some (Inr (), c2) \<and>
     renderStack queue_chart = [(''b'', None)] \<and> renderStack c2 = []"
proof -
  let ?c1 = "queue_chart\<lparr>renderDelay := Some False\<rparr>"
  have w: "isIE queue_chart" "ieWaitForVML ''canvas'' True (Some ''a'') None queue_chart = (False, ?c1)"
    by (simp_all add: queue_chart_def ieWaitForVML_def sample_chart_def blank_chart_def stop_delay_def del_prop_def)
  have "numeric_chart ?c1"
    using sample_chart_numeric [of Bar] by (simp add: numeric_chart_def queue_chart_def sample_chart_def blank_chart_def
        default_options_def)
  from bar_body_renders [OF this, of "''a''"] obtain c2 where c2:
    "Bar_body (\<lambda>_. sample_page True) (Some ''a'') None ?c1 = Some (Inr (), c2)" "isIE c2"
    by (auto simp: queue_chart_def sample_chart_def default_options_def)
  then have "renderStack c2 = []" using bar_render_drops_queue [OF w, of "\<lambda>_. sample_page True"] by blast
  then show ?thesis
    using c2(1) bar_render_drops_queue [OF w, of "\<lambda>_. sample_page True"] by (auto simp: queue_chart_def)
qed

text \<open>Bars less than a pixel wide or high.\<close>

definition tiny :: "chart \<Rightarrow> bar \<Rightarrow> bool" where
  "tiny c b \<longleftrightarrow> area_w (plot_area c) * bar_w b < Fin 1 \<or> area_h (plot_area c) * bar_h b < Fin 1"

lemma saved_drawBar: "saved (drawBar c i b) = (if tiny c b then 1 else 0)"
  by (simp add: drawBar_def Let_def tiny_def)

definition bar_calls :: "chart \<Rightarrow> cx_call list" where
  "bar_calls c = concat (map (\<lambda>(index, name, _). concat (map (drawBar c index)
     (filter (\<lambda>b. bar_name b = name) (bars c)))) (enumerate 0 (dataStores c)))"

definition tiny_bars :: "chart \<Rightarrow> bar list" where
  "tiny_bars c = filter (tiny c) (concat (map (\<lambda>(name, _). filter (\<lambda>b. bar_name b = name) (bars c)) (dataStores c)))"

lemma saved_bar_calls: "saved (bar_calls c) = int (length (tiny_bars c))"
proof -
  have one: "saved (concat (map (drawBar c i) bs)) = int (length (filter (tiny c) bs))" for i bs
    by (induction bs) (auto simp: saved_drawBar)
  have "saved (concat (map (\<lambda>(i, name, _). concat (map (drawBar c i) (filter (\<lambda>b. bar_name b = name) (bars c))))
      (enumerate n ds))) =
    int (length (filter (tiny c) (concat (map (\<lambda>(name, _). filter (\<lambda>b. bar_name b = name) (bars c)) ds))))"
    for n and ds :: "(string \<times> item list) list"
    by (induction ds arbitrary: n) (auto simp: one split: prod.splits)
  then show ?thesis by (simp add: bar_calls_def tiny_bars_def)
qed

text \<open>
  C35: drawing the bars leaves one saved state on the stack of the context for every bar of a dataset
  that is less than a pixel wide or high, and none for the other bars.
\<close>

theorem bars_leave_saved:
  assumes "renderBarChart c = Some (Inr (), c')"
  shows "saved (calls c') = saved (calls c) + int (length (tiny_bars c))"
  using assms saved_bar_calls [of c] by (auto simp: renderBarChart_def cx_def p_mod_def bar_calls_def)

text \<open>A tick of the user outside the axis is \<^verbatim>\<open>undefined\<close>.\<close>

lemma map_ticks_undefined: "None \<in> set ts \<Longrightarrow> map_ticks f ts = Inl TypeError"
proof (induction ts)
  case (Cons t ts)
  then show ?case by (cases t) auto
qed simp

text \<open>
  C32: a bar chart with a tick of the option \<^verbatim>\<open>xTicks\<close> outside the x axis, and with a precision of the y ticks up to
  20, cannot be evaluated: shifting the x ticks under the bars throws a TypeError.
\<close>

theorem bar_ticks_outside_throw:
  assumes "xTicks (options c) = Some ts" and "t \<in> set ts"
    and "\<not> in_unit (num_of (xscale c) * (tick_v t - minxval c))" and "yTickPrecision (options c) \<le> 20"
  shows "\<exists>c'. evalBarTicks c = Some (Inl TypeError, c')"
proof -
  let ?ts = "map (\<lambda>t. let pos = num_of (xscale c) * (tick_v t - minxval c)
           in if in_unit pos then Some (Num pos, tick_text t) else None) ts"
  obtain us where y: "evalLineTicksForYAxis (c\<lparr>xticks := ?ts\<rparr>) = Some (Inr (), c\<lparr>xticks := ?ts, yticks := us\<rparr>)"
    using yTicks_returns [of "c\<lparr>xticks := ?ts\<rparr>"] assms(4) by auto
  have "None \<in> set ?ts" using assms(2,3) by (force simp: Let_def)
  then have "map_ticks f ?ts = Inl TypeError" for f by (rule map_ticks_undefined)
  moreover have "evalLineTicks c = Some (Inr (), c\<lparr>xticks := ?ts, yticks := us\<rparr>)"
    using y assms(1) by (simp add: evalLineTicks_def p_then_def p_bind_def evalLineTicksForXAxis_def)
  ultimately show ?thesis by (simp add: evalBarTicks_def p_then_def p_bind_def)
qed

text \<open>A chart with the axis from 0 to 1 and a tick at 5.\<close>

definition outside_chart :: chart where
  "outside_chart = (sample_chart Bar)\<lparr>minxval := Fin 0, xscale := Some (Fin 1),
     options := (default_options [])\<lparr>xTicks := Some [\<lparr>tick_v = Fin 5, tick_label = None\<rparr>]\<rparr>\<rparr>"

theorem bar_ticks_outside_throw_witness: "\<exists>c'. evalBarTicks outside_chart = Some (Inl TypeError, c')"
proof -
  have "fl 5 = Fin 5" using fl_of_int [of 5] by simp
  then have pos: "\<not> in_unit (Fin 1 * (Fin 5 - Fin 0))" by (simp add: in_unit_def)
  show ?thesis
    by (rule bar_ticks_outside_throw [where t = "\<lparr>tick_v = Fin 5, tick_label = None\<rparr>"])
      (simp_all only: outside_chart_def sample_chart_def blank_chart_def default_options_def chart.simps
        chart_options.simps tick.simps pos num_of_Some list.set insertI1 not_False_eq_True, simp_all)
qed

text \<open>A chart with a bar of no height.\<close>

definition flat_chart :: chart where
  "flat_chart = (sample_chart Bar)\<lparr>
     plot_area := \<lparr>area_x = Fin 0, area_y = Fin 0, area_w = Fin 100, area_h = Fin 100\<rparr>,
     bars := [\<lparr>bar_x = Fin 0, bar_y = Fin 1, bar_w = Fin (1 / 4), bar_h = Fin 0, bar_xval = Fin 0,
       bar_yval = Fin 0, bar_name = ''a''\<rparr>]\<rparr>"

theorem bars_leave_saved_witness:
  "\<exists>c'. renderBarChart flat_chart = Some (Inr (), c') \<and> saved (calls c') = saved (calls flat_chart) + int 1"
proof -
  obtain c' where r: "renderBarChart flat_chart = Some (Inr (), c')"
    by (simp add: renderBarChart_def cx_def p_mod_def)
  have "length (tiny_bars flat_chart) = 1"
    by (simp add: tiny_bars_def flat_chart_def sample_chart_def tiny_def)
  then show ?thesis using r bars_leave_saved [OF r] by auto
qed

end
