(* ===== verification/Plotr_Line.thy ===== *)
theory Plotr_Line
  imports Plotr_Bar
begin

text \<open>
  Line charts: \<^verbatim>\<open>htdocs/plotr/LineChart.js\<close>.
\<close>

definition make_point :: "chart \<Rightarrow> string \<Rightarrow> item \<Rightarrow> point" where
  "make_point c name it =
     \<lparr>point_x = (parseFloat_val (fst it) - minxval c) * num_of (xscale c),
      point_y = clamp_unit (Fin 1 - (parseFloat_val (snd it) - minyval c) * num_of (yscale c)),
      point_xval = parseFloat_val (fst it), point_yval = parseFloat_val (snd it),
      point_name = name\<rparr>"

definition evalLineChart :: "chart \<Rightarrow> chart" where
  "evalLineChart c =
     c\<lparr>points := concat (map (\<lambda>(name, store).
        filter (\<lambda>p. in_unit (point_x p)) (map (make_point c name) store)) (dataStores c))\<rparr>"

definition Line_evaluate :: "setting list option \<Rightarrow> (chart, unit) prog" where
  "Line_evaluate opts =
     p_then (Chart_eval opts) (p_then (p_mod evalLineChart)
       (p_then evalLineTicksForXAxis evalLineTicksForYAxis))"

section \<open>Drawing\<close>

text \<open>
  The points with the name of the dataset.  The loop also visits the methods that arrays inherit, whose
  property \<^verbatim>\<open>name\<close> is taken not to be the name of a dataset.
\<close>

definition preparePath :: "chart \<Rightarrow> string \<Rightarrow> cx_call list" where
  "preparePath c name =
     (let a = plot_area c in
      [BeginPath, MoveTo (area_x a) (area_y a + area_h a)] @
      map (\<lambda>p. LineTo (area_w a * point_x p + area_x a) (area_h a * point_y p + area_y a))
        (filter (\<lambda>p. point_name p = name) (points c)) @
      [LineTo (area_w a + area_x a) (area_h a + area_y a),
       LineTo (area_x a) (area_y a + area_h a), ClosePath])"

definition drawLine :: "chart \<Rightarrow> nat \<Rightarrow> string \<Rightarrow> cx_call list" where
  "drawLine c index name =
     (let o1 = options c in
      [Save, SetLineWidth (strokeWidth o1), SetFillStyle (pick_color (colorScheme o1) index),
       SetStrokeStyle (Some (strokeColor o1))] @
      (if shouldFill o1 then preparePath c name @ [Fill] else []) @
      (if shouldStroke o1 then preparePath c name @ [Stroke] else []) @ [Restore])"

text \<open>
  The loop does not skip the methods that arrays inherit: \<open>inherited\<close> are their names, as far as
  \<^verbatim>\<open>for (name in array)\<close> visits them.
\<close>

definition renderLineChart :: "string list \<Rightarrow> (chart, unit) prog" where
  "renderLineChart inherited c =
     cx (concat (map (\<lambda>(index, name). drawLine c index name)
       (enumerate 0 (map fst (dataStores c) @
          filter (\<lambda>n. n \<notin> fst ` set (dataStores c)) inherited)))) c"

definition Line_body :: "string list \<Rightarrow> (string \<Rightarrow> page) \<Rightarrow> string option \<Rightarrow> setting list option
    \<Rightarrow> (chart, unit) prog" where
  "Line_body inherited pages element opts =
     p_then (Line_evaluate opts) (p_then (Canvas_render (map_option pages element))
       (p_then (renderLineChart inherited) renderAxis))"

definition Line_render :: "string list \<Rightarrow> (string \<Rightarrow> page) \<Rightarrow> string \<Rightarrow> bool \<Rightarrow> string option \<Rightarrow> setting list option
    \<Rightarrow> (chart, unit) prog" where
  "Line_render inherited pages node ready element opts =
     render_loop (Line_body inherited pages) node ready element opts"


section \<open>Every point is kept\<close>

lemma clamp_in_unit: "n \<noteq> NaN \<Longrightarrow> in_unit (clamp_unit n)"
  by (cases n) (auto simp: in_unit_def clamp_unit_def less_eq_jsnum_def)

lemma numeric_point:
  assumes num: "numeric_chart c" and d: "(name, store) \<in> set (dataStores c)" "it \<in> set store"
    and org: "\<And>q. q \<in> set (x_values c) \<Longrightarrow> axis_origin (xOriginIsZero (options c)) (x_values c) \<le> q"
  defines "c2 \<equiv> evalXY (c\<lparr>stores := map snd (dataStores c)\<rparr>)"
  shows "in_unit (point_x (make_point c2 name it))" "in_unit (point_y (make_point c2 name it))"
    "point_xval (make_point c2 name it) = Fin (num_val (fst it))"
    "point_yval (make_point c2 name it) = Fin (num_val (snd it))"
proof -
  have it: "it \<in> set (all_items c)" using d by force
  then have pn: "plain_number (fst it)" "plain_number (snd it)"
    using num unfolding numeric_chart_def by blast+
  note pn = plain_numberD [OF pn(1)] plain_numberD [OF pn(2)]
  let ?c1 = "c\<lparr>stores := map snd (dataStores c)\<rparr>"
  have n1: "numeric_chart ?c1" using num by (simp add: numeric_chart_def)
  have c2: "minxval c2 = Fin (axis_origin (xOriginIsZero (options c)) (x_values c))"
    "xscale c2 = Some (axis_scale (axis_origin (xOriginIsZero (options c)) (x_values c)) (Max (set (x_values c))))"
    "minyval c2 = Fin (axis_origin (yOriginIsZero (options c)) (y_values c))"
    "yscale c2 = Some (axis_scale (axis_origin (yOriginIsZero (options c)) (y_values c)) (Max (set (y_values c))))"
    unfolding c2_def evalXY_numeric [OF n1, simplified] by simp_all
  have x: "num_val (fst it) \<in> set (x_values c)" using it by auto
  show "in_unit (point_x (make_point c2 name it))"
    using axis_place [OF _ x org [OF x]] num pn c2 by (simp add: make_point_def numeric_chart_def)
  show "in_unit (point_y (make_point c2 name it))"
    using axis_not_NaN [of "yOriginIsZero (options c)" "y_values c" "num_val (snd it)"] num pn c2
    by (simp add: make_point_def numeric_chart_def clamp_in_unit)
  show "point_xval (make_point c2 name it) = Fin (num_val (fst it))"
    "point_yval (make_point c2 name it) = Fin (num_val (snd it))"
    using pn by (simp_all add: make_point_def)
qed

text \<open>
  C1: evaluating a line chart of numbers, without axes of the user and with every x at or above the origin
  of its axis, returns and keeps every point of every dataset, in order, inside the unit square: rounding in
  the scale never pushes a point out of the chart.
\<close>

theorem line_chart_complete:
  assumes "numeric_chart c"
    and "\<And>q. q \<in> set (x_values c) \<Longrightarrow> axis_origin (xOriginIsZero (options c)) (x_values c) \<le> q"
  shows "\<exists>c'. Line_evaluate None c = Some (Inr (), c') \<and>
    map (\<lambda>p. (point_name p, point_xval p, point_yval p)) (points c') =
      concat (map (\<lambda>(name, store). map (\<lambda>it. (name, Fin (num_val (fst it)), Fin (num_val (snd it)))) store)
        (dataStores c)) \<and>
    (\<forall>p \<in> set (points c'). in_unit (point_x p) \<and> in_unit (point_y p))"
proof -
  let ?c2 = "evalXY (c\<lparr>stores := map snd (dataStores c)\<rparr>)"
  let ?c3 = "evalLineChart ?c2"
  have ds: "dataStores ?c2 = dataStores c" "stores ?c2 = map snd (dataStores c)" "options ?c2 = options c"
    by (simp_all add: evalXY_def Let_def split: option.splits prod.splits)
  note P = numeric_point [OF assms(1) _ _ assms(2)]
  have all: "filter (\<lambda>p. in_unit (point_x p)) (map (make_point ?c2 name) store) = map (make_point ?c2 name) store"
    if "(name, store) \<in> set (dataStores c)" for name store
    using P(1) [OF that] by (intro filter_True) auto
  have pts: "points ?c3 = concat (map (\<lambda>(name, store). map (make_point ?c2 name) store) (dataStores c))"
    unfolding evalLineChart_def using all by (auto simp: ds intro!: arg_cong [of _ _ concat] map_cong)
  have "stores ?c3 \<noteq> []" "\<And>s. s \<in> set (stores ?c3) \<Longrightarrow> length s \<le> 2 ^ 53"
    "yTickPrecision (options ?c3) \<le> 20"
    using assms(1) by (auto simp: evalLineChart_def ds numeric_chart_def axis_ok_def)
  then obtain ts us where t: "evalLineTicksForXAxis ?c3 = Some (Inr (), ?c3\<lparr>xticks := ts\<rparr>)"
    "evalLineTicksForYAxis (?c3\<lparr>xticks := ts\<rparr>) = Some (Inr (), ?c3\<lparr>xticks := ts, yticks := us\<rparr>)"
    using xTicks_returns [of ?c3] yTicks_returns [of "?c3\<lparr>xticks := ts\<rparr>" for ts] by fastforce
  then have "Line_evaluate None c = Some (Inr (), ?c3\<lparr>xticks := ts, yticks := us\<rparr>)"
    by (simp add: Line_evaluate_def p_then_def p_bind_def p_mod_def Chart_eval_numeric [OF assms(1)])
  moreover have "map (\<lambda>p. (point_name p, point_xval p, point_yval p)) (points ?c3) =
      concat (map (\<lambda>(name, store). map (\<lambda>it. (name, Fin (num_val (fst it)), Fin (num_val (snd it)))) store)
        (dataStores c))"
    unfolding pts map_concat map_map using P(3,4)
    by (intro arg_cong [of _ _ concat] map_cong refl) (auto simp: make_point_def)
  moreover have "\<forall>p \<in> set (points ?c3). in_unit (point_x p) \<and> in_unit (point_y p)"
    unfolding pts using P(1,2) by auto
  ultimately show ?thesis by (intro exI [of _ "?c3\<lparr>xticks := ts, yticks := us\<rparr>"]) simp
qed


theorem line_chart_complete_witness:
  "\<exists>c'. Line_evaluate None (sample_chart Line) = Some (Inr (), c') \<and>
    map (\<lambda>p. (point_name p, point_xval p, point_yval p)) (points c') =
      concat (map (\<lambda>(name, store). map (\<lambda>it. (name, Fin (num_val (fst it)), Fin (num_val (snd it)))) store)
        (dataStores (sample_chart Line))) \<and>
    (\<forall>p \<in> set (points c'). in_unit (point_x p) \<and> in_unit (point_y p))"
  by (rule line_chart_complete [OF sample_chart_numeric])
    (auto simp: sample_chart_def blank_chart_def default_options_def axis_origin_def num_val_def)



section \<open>Rendering\<close>

lemma Line_body_render:
  "Line_body inherited pages = render_body Line_evaluate (p_then (renderLineChart inherited) renderAxis) pages"
  by (intro ext) (simp add: Line_body_def render_body_def)

lemma renderLineChart_cx: "\<exists>ks. renderLineChart inherited = (\<lambda>c. cx (ks c) c) \<and> (\<forall>c. saved (ks c) = 0)"
proof -
  have "saved (drawLine c i n) = 0" for c i n
  proof -
    have "saved (map (\<lambda>p. LineTo (f p) (g p)) ps) = 0" for f g and ps :: "point list" by (induction ps) auto
    then show ?thesis by (simp add: drawLine_def preparePath_def Let_def)
  qed
  then have z: "saved (concat (map (\<lambda>(i, n). drawLine c i n) l)) = 0" for c l
    by (induction l) auto
  let ?ks = "\<lambda>c. concat (map (\<lambda>(index, name). drawLine c index name)
       (enumerate 0 (map fst (dataStores c) @ filter (\<lambda>n. n \<notin> fst ` set (dataStores c)) inherited)))"
  have "renderLineChart inherited = (\<lambda>c. cx (?ks c) c)"
    by (simp add: fun_eq_iff renderLineChart_def)
  then show ?thesis by (intro exI [of _ ?ks]) (simp add: z)
qed

interpretation line_renderer: renderer Line_evaluate "p_then (renderLineChart inherited) renderAxis" for inherited
proof
  have "small (evalLineChart c) = small c" for c by (simp add: small_def evalLineChart_def)
  then show "ends small (Line_evaluate opts)" for opts
    unfolding Line_evaluate_def by (intro ends) simp
  obtain ks where draw: "renderLineChart inherited = (\<lambda>c. cx (ks c) c)" using renderLineChart_cx by blast
  show "ends small (p_then (renderLineChart inherited) renderAxis)"
    unfolding draw by (rule ends_then [OF ends_at [OF cx_ends] axis_ends])
  show "keeps queue_of (p_then (renderLineChart inherited) renderAxis)"
    unfolding draw by (rule keeps_then [OF keeps_at [OF keeps_cx] keeps_axis])
qed

text \<open>
  The drawing of a line chart, with its background and its axes, leaves the stack of saved
  states of the context as it found it.
\<close>

theorem line_drawing_balanced:
  assumes "p_then (Canvas_render None) (p_then (renderLineChart inherited) renderAxis) c = Some (Inr (), c')"
  shows "saved (calls c') = saved (calls c)"
proof -
  obtain ks where draw: "renderLineChart inherited = (\<lambda>c. cx (ks c) c)" "\<And>c. saved (ks c) = 0"
    using renderLineChart_cx by blast
  have "balanced (renderLineChart inherited)"
    unfolding draw(1) by (rule balanced_at) (simp add: balanced_cx draw(2))
  moreover have "balanced (Canvas_render None)"
    unfolding Canvas_render_def using balanced_background balanced_ret
    by (simp add: balanced_def p_then_def p_bind_def p_ret_def p_get_def)
  ultimately have "balanced (p_then (Canvas_render None) (p_then (renderLineChart inherited) renderAxis))"
    by (intro balanced_then balanced_axis)
  then show ?thesis using assms by (simp add: balanced_def)
qed

theorem line_drawing_balanced_witness:
  "\<exists>c'. p_then (Canvas_render None) (p_then (renderLineChart []) renderAxis) (sample_chart Line) = Some (Inr (), c') \<and>
     saved (calls c') = saved (calls (sample_chart Line))"
proof -
  obtain c' where r: "p_then (Canvas_render None) (p_then (renderLineChart []) renderAxis) (sample_chart Line) = Some (Inr (), c')"
    by (simp add: Canvas_render_def renderBackground_def renderLineChart_def renderAxis_def cx_def prog_defs
        sample_chart_def blank_chart_def default_options_def Let_def)
  then show ?thesis using line_drawing_balanced by blast
qed

text \<open>
  C36: a line chart draws a path for every dataset and one more for every name that arrays inherit,
  which runs along the base line only.
\<close>

theorem line_chart_inherited_paths:
  assumes "renderLineChart inherited c = Some (Inr (), c')" and "shouldStroke (options c)"
    and "distinct inherited" and "fst ` set (dataStores c) \<inter> set inherited = {}"
  shows "length (filter (\<lambda>k. k = Stroke) (calls c')) = length (filter (\<lambda>k. k = Stroke) (calls c)) +
    length (dataStores c) + length inherited"
proof -
  have one: "length (filter (\<lambda>k. k = Stroke) (drawLine c i n)) = 1" for i n
    using assms(2) by (auto simp: drawLine_def preparePath_def Let_def filter_empty_conv)
  have "length (filter (\<lambda>k. k = Stroke) (concat (map (\<lambda>(i, n). drawLine c i n) l))) = length l" for l
    by (induction l) (auto simp: one)
  moreover have "filter (\<lambda>n. n \<notin> fst ` set (dataStores c)) inherited = inherited"
    using assms(4) by (auto simp: filter_id_conv)
  ultimately show ?thesis using assms(1) by (auto simp: renderLineChart_def cx_def p_mod_def)
qed

theorem line_chart_inherited_paths_witness:
  "\<exists>c'. renderLineChart [''each'', ''map''] (sample_chart Line) = Some (Inr (), c') \<and>
     length (filter (\<lambda>k. k = Stroke) (calls c')) = length (filter (\<lambda>k. k = Stroke) (calls (sample_chart Line))) +
       length (dataStores (sample_chart Line)) + length [''each'', ''map'']"
proof -
  obtain c' where r: "renderLineChart [''each'', ''map''] (sample_chart Line) = Some (Inr (), c')"
    by (simp add: renderLineChart_def cx_def p_mod_def)
  show ?thesis using r line_chart_inherited_paths [OF r]
    by (simp add: sample_chart_def blank_chart_def default_options_def)
qed

end
