(* ===== verification/Plotr_Pie.thy ===== *)
theory Plotr_Pie
  imports Plotr_Line
begin

text \<open>
  Pie charts: \<^verbatim>\<open>htdocs/plotr/PieChart.js\<close>.  The sine and the cosine of \<^verbatim>\<open>Math\<close> are approximations that
  the language leaves to the implementation; they are parameters.
\<close>

section \<open>Slices\<close>

text \<open>The loop over the items, from the accumulated \<open>angle\<close>.\<close>

fun pie_slices :: "jsnum \<Rightarrow> jsnum \<Rightarrow> item list \<Rightarrow> pie_slice list" where
  "pie_slices sm angle [] = []"
| "pie_slices sm angle ((x, y) # its) =
     (if js_lt (Num (Fin 0)) y then
        (let f = to_num y / sm in
         \<lparr>fraction = f, slice_xval = x, slice_yval = y,
          startAngle = Fin 2 * angle * math_PI, endAngle = Fin 2 * (angle + f) * math_PI\<rparr> #
         pie_slices sm (angle + f) its)
      else pie_slices sm angle its)"

definition evalPieChart :: "(chart, unit) prog" where
  "evalPieChart c =
     (case stores c of
        [] \<Rightarrow> Some (Inl TypeError, c)
      | store # _ \<Rightarrow> Some (Inr (), c\<lparr>slices :=
          pie_slices (to_num (Base_sum (map snd store))) (Fin 0) store\<rparr>))"

section \<open>Ticks\<close>

text \<open>\<^verbatim>\<open>toFixed(1)\<close> does not throw.\<close>

definition toPercentage :: "jsnum \<Rightarrow> string" where
  "toPercentage n = (case num_toFixed 1 (n * Fin 100) of Some t \<Rightarrow> t | None \<Rightarrow> []) @ ''%''"

text \<open>The table of slices by the text of their x value; a later slice replaces an earlier one.\<close>

definition pie_lookup :: "pie_slice list \<Rightarrow> (string \<times> pie_slice) list" where
  "pie_lookup ss = foldl (\<lambda>l s. set_prop (to_str (slice_xval s)) s l) [] ss"

definition evalPieTicks :: "chart \<Rightarrow> chart" where
  "evalPieTicks c = c\<lparr>xticks :=
     (case xTicks (options c) of
        Some ts \<Rightarrow> concat (map (\<lambda>t.
          case map_of (pie_lookup (slices c)) (num_to_string (tick_v t)) of
            None \<Rightarrow> []
          | Some s \<Rightarrow> [Some (Num (tick_v t), Str (to_str (tick_text t) @ '' ('' @
              toPercentage (fraction s) @ '')''))]) ts)
      | None \<Rightarrow> map (\<lambda>s. Some (slice_xval s, Str (to_str (slice_xval s) @ '' ('' @
              toPercentage (fraction s) @ '')''))) (slices c))\<rparr>"

definition Pie_evaluate :: "setting list option \<Rightarrow> (chart, unit) prog" where
  "Pie_evaluate opts = p_then (Chart_eval opts) (p_then evalPieChart (p_mod evalPieTicks))"

section \<open>Drawing\<close>

text \<open>\<^verbatim>\<open>parseInt(n)\<close> of a number: the digits of its text before any other character.\<close>

definition parseInt10 :: "jsnum \<Rightarrow> jsnum" where
  "parseInt10 n =
     (let (neg, t) = read_sign (num_to_string n); ds = takeWhile is_digit t
      in if ds = [] then NaN
         else fl (if neg then - of_int (digits_val 0 ds) else of_int (digits_val 0 ds)))"

definition pie_center :: "chart \<Rightarrow> jsnum \<times> jsnum \<times> jsnum" where
  "pie_center c = (let a = plot_area c; r = pieRadius (options c) in
     (area_x a + area_w a * Fin (1 / 2), area_y a + area_h a * Fin (1 / 2),
      math_min (area_w a * r) (area_h a * r)))"

definition drawPie :: "jsnum \<Rightarrow> jsnum \<Rightarrow> jsnum \<Rightarrow> pie_slice \<Rightarrow> cx_call list" where
  "drawPie x y radius s =
     [BeginPath, MoveTo x y,
      Arc x y radius (startAngle s - math_PI / Fin 2) (endAngle s - math_PI / Fin 2) False,
      LineTo x y, ClosePath]"

definition drawSlice :: "chart \<Rightarrow> jsnum \<times> jsnum \<times> jsnum \<Rightarrow> nat \<Rightarrow> pie_slice \<Rightarrow> cx_call list" where
  "drawSlice c center i s =
     (let o1 = options c; (x, y, radius) = center in
      [Save, SetFillStyle (pick_color (colorScheme o1) i)] @
      (if fl (1 / 1000) < math_abs (startAngle s - endAngle s) then
         (if shouldFill o1 then drawPie x y radius s @ [Fill] else []) @
         (if shouldStroke o1 then drawPie x y radius s @ [SetLineWidth (strokeWidth o1)] @
            (if strokeColor o1 \<noteq> [] then [SetStrokeStyle (Some (strokeColor o1))] else []) @ [Stroke]
          else [])
       else []) @ [Restore])"

definition renderPieChart :: "(chart, unit) prog" where
  "renderPieChart c =
     (let (x, y, radius) = pie_center c;
          center = (if isIE c then (parseInt10 x, parseInt10 y, parseInt10 radius) else (x, y, radius))
      in cx (concat (map (\<lambda>(i, s). drawSlice c center i s) (enumerate 0 (slices c)))) c)"

section \<open>Labels\<close>

definition normalise_angle :: "jsnum \<Rightarrow> jsnum" where
  "normalise_angle angle =
     (if math_PI * Fin 2 < angle then angle - math_PI * Fin 2
      else if angle < Fin 0 then angle + math_PI * Fin 2 else angle)"

definition pie_label_style :: "chart_options \<Rightarrow> (string \<times> string) list" where
  "pie_label_style o1 =
     [(''position'', ''absolute''), (''zIndex'', ''11''), (''width'', px (axisLabelWidth o1)),
      (''fontFamily'', axisLabelFont o1), (''fontSize'', px (axisLabelFontSize o1)),
      (''overflow'', ''hidden''), (''color'', axisLabelColor o1)]"

definition pie_label_place :: "chart_options \<Rightarrow> jsnum \<Rightarrow> jsnum \<Rightarrow> jsnum \<Rightarrow> (string \<times> string) list" where
  "pie_label_place o1 a x y =
     (let w = axisLabelWidth o1; fs = axisLabelFontSize o1 in
      if a \<le> math_PI * Fin (1 / 2) then
        [(''textAlign'', ''left''), (''verticalAlign'', ''top''), (''left'', px x), (''top'', px (y - fs))]
      else if math_PI * Fin (1 / 2) < a \<and> a \<le> math_PI then
        [(''textAlign'', ''left''), (''verticalAlign'', ''bottom''), (''left'', px x), (''top'', px y)]
      else if math_PI < a \<and> a \<le> math_PI * Fin (3 / 2) then
        [(''textAlign'', ''right''), (''verticalAlign'', ''bottom''), (''left'', px (x - w)), (''top'', px y)]
      else
        [(''textAlign'', ''right''), (''verticalAlign'', ''bottom''), (''left'', px (x - w)),
         (''top'', px (y - fs))])"

definition pie_label :: "(jsnum \<Rightarrow> jsnum) \<Rightarrow> (jsnum \<Rightarrow> jsnum) \<Rightarrow> chart \<Rightarrow> pie_slice \<Rightarrow> jsval \<Rightarrow> label" where
  "pie_label msin mcos c s v =
     (let (x0, y0, radius) = pie_center c;
          a = normalise_angle ((startAngle s + endAngle s) / Fin 2);
          x = x0 + msin a * (radius + Fin 10); y = y0 - mcos a * (radius + Fin 10)
      in \<lparr>label_text = to_str v,
          label_style = Object_extend (pie_label_style (options c)) (pie_label_place (options c) a x y)\<rparr>)"

text \<open>The slice of a tick, by the text of its value; a tick without a slice gets no label.\<close>

definition renderPieAxis :: "(jsnum \<Rightarrow> jsnum) \<Rightarrow> (jsnum \<Rightarrow> jsnum) \<Rightarrow> (chart, unit) prog" where
  "renderPieAxis msin mcos c =
     (if \<not> drawXAxis (options c) then Some (Inr (), c)
      else p_each (\<lambda>tick. case tick of
          None \<Rightarrow> p_throw TypeError
        | Some (t, v) \<Rightarrow> (case map_of (pie_lookup (slices c)) (to_str t) of
              None \<Rightarrow> p_ret ()
            | Some s \<Rightarrow> (let l = pie_label msin mcos c s v in
                p_mod (\<lambda>c. c\<lparr>nodes := nodes c @ [l], xlabels := xlabels c @ [l]\<rparr>)))) (xticks c) c)"

definition Pie_body :: "(jsnum \<Rightarrow> jsnum) \<Rightarrow> (jsnum \<Rightarrow> jsnum) \<Rightarrow> (string \<Rightarrow> page) \<Rightarrow> string option
    \<Rightarrow> setting list option \<Rightarrow> (chart, unit) prog" where
  "Pie_body msin mcos pages element opts =
     p_then (Pie_evaluate opts) (p_then (Canvas_render (map_option pages element))
       (p_then renderPieChart (renderPieAxis msin mcos)))"

definition Pie_render :: "(jsnum \<Rightarrow> jsnum) \<Rightarrow> (jsnum \<Rightarrow> jsnum) \<Rightarrow> (string \<Rightarrow> page) \<Rightarrow> string \<Rightarrow> bool \<Rightarrow> string option
    \<Rightarrow> setting list option \<Rightarrow> (chart, unit) prog" where
  "Pie_render msin mcos pages node ready element opts =
     render_loop (Pie_body msin mcos pages) node ready element opts"



section \<open>Rendering\<close>

lemma Pie_body_render:
  "Pie_body msin mcos pages = render_body Pie_evaluate (p_then renderPieChart (renderPieAxis msin mcos)) pages"
  by (intro ext) (simp add: Pie_body_def render_body_def)

lemma renderPieChart_cx: "\<exists>ks. renderPieChart = (\<lambda>c. cx (ks c) c) \<and> (\<forall>c. saved (ks c) = 0)"
proof -
  have d: "saved (drawSlice c p i s) = 0" for c p i s
    by (cases p) (simp add: drawSlice_def drawPie_def Let_def)
  have z: "saved (concat (map (\<lambda>(i, s). drawSlice c p i s) l)) = 0" for c p l
    by (induction l) (simp_all add: d case_prod_unfold)
  let ?ks = "\<lambda>c. let (x, y, radius) = pie_center c;
          center = (if isIE c then (parseInt10 x, parseInt10 y, parseInt10 radius) else (x, y, radius))
      in concat (map (\<lambda>(i, s). drawSlice c center i s) (enumerate 0 (slices c)))"
  have "renderPieChart = (\<lambda>c. cx (?ks c) c)"
    by (simp add: fun_eq_iff renderPieChart_def Let_def split: prod.splits)
  then show ?thesis by (intro exI [of _ ?ks]) (simp add: z Let_def split: prod.splits)
qed

interpretation pie_renderer: renderer Pie_evaluate "p_then renderPieChart (renderPieAxis msin mcos)" for msin mcos
proof
  have s: "small (c\<lparr>slices := ss\<rparr>) = small c" "small (evalPieTicks c) = small c" for c ss
    by (simp_all add: small_def evalPieTicks_def)
  have "ends small evalPieChart" by (auto simp: ends_def evalPieChart_def s split: list.splits)
  then show "ends small (Pie_evaluate opts)" for opts
    unfolding Pie_evaluate_def by (intro ends) (simp_all add: s)
  obtain ks where draw: "renderPieChart = (\<lambda>c. cx (ks c) c)" using renderPieChart_cx by blast
  define step :: "chart \<Rightarrow> (jsval \<times> jsval) option \<Rightarrow> (chart, unit) prog" where "step = (\<lambda>c0 tick. case tick of None \<Rightarrow> p_throw TypeError
      | Some (t, v) \<Rightarrow> (case map_of (pie_lookup (slices c0)) (to_str t) of None \<Rightarrow> p_ret ()
          | Some s \<Rightarrow> (let l = pie_label msin mcos c0 s v in
                p_mod (\<lambda>c. c\<lparr>nodes := nodes c @ [l], xlabels := xlabels c @ [l]\<rparr>))))"
  have axis: "renderPieAxis msin mcos = (\<lambda>c. (if \<not> drawXAxis (options c) then p_ret () else p_each (step c) (xticks c)) c)"
    by (simp add: fun_eq_iff renderPieAxis_def step_def p_ret_def)
  have "ends small (step c0 t)" for c0 t
    unfolding step_def by (auto intro!: ends simp: Let_def small_def split: option.split)
  then have "ends small (renderPieAxis msin mcos)"
    unfolding axis by (intro ends_at [OF ends_if [OF ends_ret ends_each]])
  then show "ends small (p_then renderPieChart (renderPieAxis msin mcos))"
    unfolding draw by (rule ends_then [OF ends_at [OF cx_ends]])
  have "keeps queue_of (step c0 t)" for c0 t
    unfolding step_def by (auto intro!: keeps simp: Let_def queue_of_def split: option.split)
  then have "keeps queue_of (renderPieAxis msin mcos)"
    unfolding axis by (intro keeps_at [OF keeps_if [OF keeps_ret keeps_each]])
  then show "keeps queue_of (p_then renderPieChart (renderPieAxis msin mcos))"
    unfolding draw by (rule keeps_then [OF keeps_at [OF keeps_cx]])
qed

text \<open>
  C7: \<^verbatim>\<open>render\<close> of every kind of chart returns or throws, whatever is queued, for charts whose datasets a
  number can count: the recursion over the queued elements ends.
\<close>

theorem render_returns:
  assumes "small c"
  shows "(\<exists>r c'. Bar_render pages node ready element opts c = Some (r, c')) \<and>
    (\<exists>r c'. Line_render inherited pages node ready element opts c = Some (r, c')) \<and>
    (\<exists>r c'. Pie_render msin mcos pages node ready element opts c = Some (r, c'))"
  unfolding Bar_render_def Line_render_def Pie_render_def Bar_body_render Line_body_render Pie_body_render
  using bar_renderer.render_ends [OF assms] line_renderer.render_ends [OF assms] pie_renderer.render_ends [OF assms]
  by blast

theorem render_returns_witness:
  "let c = (sample_chart Bar)\<lparr>isIE := True, renderStack := [(''a'', None), (''b'', None)]\<rparr> in
   (\<exists>r c'. Bar_render (\<lambda>_. sample_page True) ''canvas'' True None None c = Some (r, c')) \<and>
    (\<exists>r c'. Line_render [] (\<lambda>_. sample_page True) ''canvas'' True None None c = Some (r, c')) \<and>
    (\<exists>r c'. Pie_render (\<lambda>x. x) (\<lambda>x. x) (\<lambda>_. sample_page True) ''canvas'' True None None c = Some (r, c'))"
  unfolding Let_def by (rule render_returns) (simp add: small_def sample_chart_def blank_chart_def)

section \<open>The slices\<close>

text \<open>Slices that follow each other from the angle \<open>a\<close>.\<close>

fun contiguous :: "jsnum \<Rightarrow> pie_slice list \<Rightarrow> bool" where
  "contiguous a [] = True"
| "contiguous a (s # ss) = (startAngle s = a \<and> contiguous (endAngle s) ss)"

lemma pie_slices_contiguous: "contiguous (Fin 2 * angle * math_PI) (pie_slices sm angle its)"
  by (induction sm angle its rule: pie_slices.induct) (auto simp: Let_def)

lemma pie_slices_items:
  "map (\<lambda>s. (slice_xval s, slice_yval s)) (pie_slices sm angle its) = filter (\<lambda>it. js_lt (Num (Fin 0)) (snd it)) its"
  by (induction sm angle its rule: pie_slices.induct) (auto simp: Let_def)

lemma pie_slices_fraction:
  "s \<in> set (pie_slices sm angle its) \<Longrightarrow> fraction s = to_num (slice_yval s) / sm \<and> (slice_xval s, slice_yval s) \<in> set its \<and>
     js_lt (Num (Fin 0)) (slice_yval s)"
  by (induction sm angle its rule: pie_slices.induct) (auto simp: Let_def split: if_splits)

lemma Base_sum_ints:
  assumes "\<And>z. z \<in> set zs \<Longrightarrow> 0 \<le> z" and "sum_list zs \<le> 2 ^ 53"
  shows "Base_sum (map int_val zs) = int_val (sum_list zs)"
proof -
  have "Array_flatten (map int_val zs) = map int_val zs"
    unfolding Array_flatten_concat by (simp add: comp_def)
  moreover have "foldr (\<lambda>x r. js_plus r x) (map int_val zs) (Num (Fin 0)) = int_val (sum_list zs)"
    using assms
  proof (induction zs)
    case (Cons z zs)
    have "0 \<le> sum_list zs" using Cons.prems(1) by (intro sum_list_nonneg) simp
    moreover have "0 \<le> z" using Cons.prems(1) by simp
    ultimately have b: "\<bar>sum_list zs + z\<bar> \<le> 2 ^ 53" "sum_list zs \<le> 2 ^ 53" using Cons.prems(2) by auto
    have "fl (of_int (sum_list zs) + of_int z) = Fin (of_int (sum_list zs + z))"
      using fl_of_int [OF b(1)] by simp
    then show ?case using Cons.IH Cons.prems(1) b(2) by (simp add: algebra_simps)
  qed simp
  ultimately show ?thesis by (simp add: Base_sum_def)
qed

text \<open>
  C2: evaluating a pie chart of numbers without axes of the user, whose first dataset holds non-negative integers with a sum up to \<open>2\<^sup>53\<close> returns;
  there is one slice for every positive value, in the order of the data, the slices follow each other
  without gap or overlap from the angle 0, and every fraction lies between 0 and 1.
\<close>

theorem pie_chart_slices:
  assumes "numeric_chart c" and "dataStores c = (name, map (\<lambda>(x, z). (x, int_val z)) data) # rest"
    and "\<And>x z. (x, z) \<in> set data \<Longrightarrow> 0 \<le> z" and "sum_list (map snd data) \<le> 2 ^ 53"
  shows "\<exists>c'. Pie_evaluate None c = Some (Inr (), c') \<and>
    map (\<lambda>s. (slice_xval s, slice_yval s)) (slices c') = map (\<lambda>(x, z). (x, int_val z)) (filter (\<lambda>(x, z). 0 < z) data) \<and>
    contiguous (Fin 0) (slices c') \<and> (\<forall>s \<in> set (slices c'). in_unit (fraction s))"
proof -
  let ?store = "map (\<lambda>(x, z). (x, int_val z)) data"
  let ?S = "sum_list (map snd data)"
  let ?ss = "pie_slices (Fin (of_int ?S)) (Fin 0) ?store"
  let ?c2 = "evalXY (c\<lparr>stores := map snd (dataStores c)\<rparr>)"
  have "map snd ?store = map int_val (map snd data)" by (induction data) auto
  moreover have "Base_sum (map int_val (map snd data)) = int_val ?S"
    using assms(3) by (intro Base_sum_ints assms(4)) auto
  ultimately have "to_num (Base_sum (map snd ?store)) = Fin (of_int ?S)" by (simp only: to_num_Num)
  moreover have "stores ?c2 = ?store # map snd rest"
    using assms(2) by (simp add: evalXY_def Let_def split: option.splits prod.splits)
  ultimately have e: "Pie_evaluate None c = Some (Inr (), evalPieTicks (?c2\<lparr>slices := ?ss\<rparr>))"
    by (simp add: Pie_evaluate_def p_then_def p_bind_def p_mod_def Chart_eval_numeric [OF assms(1)] evalPieChart_def)
  have "filter (\<lambda>it. js_lt (Num (Fin 0)) (snd it)) ?store = map (\<lambda>(x, z). (x, int_val z)) (filter (\<lambda>(x, z). 0 < z) data)"
    by (induction data) (auto simp: js_lt_def to_prim_def)
  moreover have "contiguous (Fin 0) ?ss"
    using pie_slices_contiguous [of "Fin 0"] by (simp add: math_PI_def)
  moreover have "in_unit (fraction s)" if s: "s \<in> set ?ss" for s
  proof -
    obtain x z where z: "(x, z) \<in> set data" "slice_yval s = int_val z" "0 < z"
      using pie_slices_fraction [OF s] by (auto simp: js_lt_def to_prim_def)
    have "z \<le> ?S" using z(1) assms(3) by (intro member_le_sum_list) force+
    then have "0 \<le> (of_int z :: rat) / of_int ?S" "(of_int z :: rat) / of_int ?S \<le> 1" "?S \<noteq> 0"
      using z(3) by (simp_all add: divide_le_eq_1)
    moreover have "fraction s = Fin (of_int z) / Fin (of_int ?S)" using pie_slices_fraction [OF s] z(2) by simp
    ultimately show ?thesis
      using fl_between [of 0 "of_int z / of_int ?S" 1] representable_of_int [of 1] by (simp add: in_unit_def)
  qed
  ultimately show ?thesis using e pie_slices_items [of "Fin (of_int ?S)" "Fin 0" ?store]
    by (simp add: evalPieTicks_def)
qed

theorem pie_chart_slices_witness:
  "\<exists>c'. Pie_evaluate None (sample_chart Pie) = Some (Inr (), c') \<and>
    map (\<lambda>s. (slice_xval s, slice_yval s)) (slices c') =
      map (\<lambda>(x, z). (x, int_val z)) (filter (\<lambda>(x, z). 0 < z) [(int_val 0, 3), (int_val 1, 0), (int_val 2, 5)]) \<and>
    contiguous (Fin 0) (slices c') \<and> (\<forall>s \<in> set (slices c'). in_unit (fraction s))"
  by (rule pie_chart_slices [OF sample_chart_numeric, where rest = "[]" and name = "''a''"])
    (auto simp: sample_chart_def)

end
