(* ===== verification/Plotr_Excanvas.thy ===== *)
theory Plotr_Excanvas
  imports Excanvas Plotr_Pie
begin

text \<open>
  The charts of Plotr drawn through \<^verbatim>\<open>excanvas.js\<close>: the calls that the chart makes run on a context of
  the library.
\<close>

section \<open>The calls are nested\<close>

lemma nested_plain: "Save \<notin> set ks \<Longrightarrow> Restore \<notin> set ks \<Longrightarrow> nested n ks \<and> saved ks = 0"
  by (induction ks arbitrary: n) auto

lemma nested_block:
  assumes "Save \<notin> set ks" "Restore \<notin> set ks"
  shows "nested n (Save # ks @ [Restore])" "nested n (Save # ks)"
  using nested_append [of "Suc n" ks "[Restore]"] nested_plain [OF assms] by simp_all

text \<open>The calls of the datasets of a chart, which \<^verbatim>\<open>_renderBarChart\<close>, \<^verbatim>\<open>_renderLineChart\<close> and \<^verbatim>\<open>_renderPieChart\<close> make.\<close>

definition new_calls :: "(chart, unit) prog \<Rightarrow> chart \<Rightarrow> cx_call list" where
  "new_calls m c = (case m c of Some (_, c') \<Rightarrow> drop (length (calls c)) (calls c') | None \<Rightarrow> [])"

lemma nested_drawBar: "nested n (drawBar c i b)"
proof (cases "tiny c b")
  case True
  then show ?thesis by (simp add: drawBar_def Let_def tiny_def)
next
  case False
  let ?mid = "\<lambda>o1 x y w h. [SetLineWidth (strokeWidth o1), SetFillStyle (pick_color (colorScheme o1) i), SetStrokeStyle (Some (strokeColor o1))] @
    (if shouldFill o1 then [FillRect x y w h] else []) @ (if shouldStroke o1 then [StrokeRect x y w h] else [])"
  have "nested n (Save # ?mid o1 x y w h @ [Restore])" for o1 x y w h by (rule nested_block) auto
  then show ?thesis using False by (simp add: drawBar_def Let_def tiny_def)
qed

lemma nested_drawLine: "nested n (drawLine c i name)"
proof -
  let ?mid = "[SetLineWidth (strokeWidth (options c)), SetFillStyle (pick_color (colorScheme (options c)) i),
      SetStrokeStyle (Some (strokeColor (options c)))] @
    (if shouldFill (options c) then preparePath c name @ [Fill] else []) @
    (if shouldStroke (options c) then preparePath c name @ [Stroke] else [])"
  have "nested n (Save # ?mid @ [Restore])" by (rule nested_block) (auto simp: preparePath_def Let_def)
  then show ?thesis by (simp add: drawLine_def Let_def)
qed

lemma nested_drawSlice: "nested n (drawSlice c p i s)"
proof (cases p)
  case (fields x y r)
  let ?mid = "SetFillStyle (pick_color (colorScheme (options c)) i) #
      (if fl (1 / 1000) < math_abs (startAngle s - endAngle s) then
         (if shouldFill (options c) then drawPie x y r s @ [Fill] else []) @
         (if shouldStroke (options c) then drawPie x y r s @ [SetLineWidth (strokeWidth (options c))] @
            (if strokeColor (options c) \<noteq> [] then [SetStrokeStyle (Some (strokeColor (options c)))] else []) @ [Stroke]
          else [])
       else [])"
  have "nested n (Save # ?mid @ [Restore])" by (rule nested_block) (auto simp: drawPie_def)
  then show ?thesis by (simp add: drawSlice_def Let_def fields)
qed

lemma nested_bar_calls: "nested n (bar_calls c)"
  unfolding bar_calls_def
proof (rule nested_concat)
  have "nested n (concat (map (drawBar c i) bs)) \<and> 0 \<le> saved (concat (map (drawBar c i) bs))" for n i bs
    by (rule conjI [OF nested_concat]) (auto simp: nested_drawBar saved_drawBar saved_concat intro!: sum_list_nonneg)
  then show "\<And>n ks. ks \<in> set (map (\<lambda>(index, name, _). concat (map (drawBar c index) (filter (\<lambda>b. bar_name b = name) (bars c))))
      (enumerate 0 (dataStores c))) \<Longrightarrow> nested n ks"
    "\<And>ks. ks \<in> set (map (\<lambda>(index, name, _). concat (map (drawBar c index) (filter (\<lambda>b. bar_name b = name) (bars c))))
      (enumerate 0 (dataStores c))) \<Longrightarrow> 0 \<le> saved ks"
    by auto
qed

lemma saved_concat_0: "(\<And>ks. ks \<in> set kss \<Longrightarrow> saved ks = 0) \<Longrightarrow> saved (concat kss) = 0"
  by (induction kss) auto

lemma saved_drawLine: "saved (drawLine c i n) = 0"
proof -
  have "saved (map (\<lambda>p. LineTo (f p) (g p)) ps) = 0" for f g and ps :: "point list" by (induction ps) auto
  then show ?thesis by (simp add: drawLine_def preparePath_def Let_def)
qed

lemma line_calls:
  "\<exists>ks. renderLineChart inherited = (\<lambda>c. cx (ks c) c) \<and> (\<forall>c. saved (ks c) = 0) \<and> (\<forall>n c. nested n (ks c))"
proof -
  let ?ks = "\<lambda>c. concat (map (\<lambda>(index, name). drawLine c index name)
       (enumerate 0 (map fst (dataStores c) @ filter (\<lambda>n. n \<notin> fst ` set (dataStores c)) inherited)))"
  have "saved (?ks c) = 0" for c
    by (rule saved_concat_0) (auto simp: saved_drawLine)
  moreover have "nested n (?ks c)" for n c
    by (rule nested_concat) (auto simp: nested_drawLine saved_drawLine)
  moreover have "renderLineChart inherited = (\<lambda>c. cx (?ks c) c)"
    by (simp add: fun_eq_iff renderLineChart_def)
  ultimately show ?thesis by (intro exI [of _ ?ks] conjI allI)
qed

lemma pie_calls: "\<exists>ks. renderPieChart = (\<lambda>c. cx (ks c) c) \<and> (\<forall>c. saved (ks c) = 0) \<and> (\<forall>n c. nested n (ks c))"
proof -
  have s: "saved (drawSlice c p i s) = 0" for c p i s
    by (cases p) (simp add: drawSlice_def drawPie_def Let_def)
  let ?center = "\<lambda>c. case pie_center c of (x, y, r) \<Rightarrow>
    if isIE c then (parseInt10 x, parseInt10 y, parseInt10 r) else (x, y, r)"
  let ?ks = "\<lambda>c. concat (map (\<lambda>(i, s). drawSlice c (?center c) i s) (enumerate 0 (slices c)))"
  have "saved (?ks c) = 0" for c
    by (rule saved_concat_0) (auto simp: s)
  moreover have "nested n (?ks c)" for n c
    by (rule nested_concat) (auto simp: nested_drawSlice s)
  moreover have "renderPieChart = (\<lambda>c. cx (?ks c) c)"
    by (simp add: fun_eq_iff renderPieChart_def Let_def split: prod.split)
  ultimately show ?thesis by (intro exI [of _ ?ks] conjI allI)
qed

lemma calls_run:
  assumes "plain_context d" and "m c = cx ks c" and "nested (length (aStack d)) ks" and "saved ks = int k"
  shows "\<exists>d'. run_calls v ms mc (new_calls m c) d = Some (Inr (), d') \<and> length (aStack d') = length (aStack d) + k"
proof -
  have n: "new_calls m c = ks" by (simp add: new_calls_def assms(2) cx_def p_mod_def)
  obtain d' where "run_calls v ms mc ks d = Some (Inr (), d')" "int (length (aStack d')) = int (length (aStack d)) + saved ks"
    using run_calls_nested [OF assms(1,3)] by blast
  then show ?thesis unfolding n using assms(4) by auto
qed

text \<open>
  C15: drawing the bars through \<^verbatim>\<open>excanvas.js\<close> never throws, and leaves one more state on the stack of the context
  for every bar that is less than a pixel wide or high.
\<close>

theorem bars_on_excanvas:
  assumes "plain_context d"
  shows "\<exists>d'. run_calls v ms mc (new_calls renderBarChart c) d = Some (Inr (), d') \<and>
    length (aStack d') = length (aStack d) + length (tiny_bars c)"
proof -
  have "renderBarChart c = cx (bar_calls c) c" by (simp add: renderBarChart_def bar_calls_def)
  from calls_run [where m = renderBarChart, OF assms this nested_bar_calls saved_bar_calls] show ?thesis .
qed

theorem bars_on_excanvas_witness:
  "\<exists>d'. run_calls New (\<lambda>x. x) (\<lambda>x. x) (new_calls renderBarChart flat_chart) new_context = Some (Inr (), d') \<and>
    length (aStack d') = length (aStack new_context) + length (tiny_bars flat_chart)"
  by (rule bars_on_excanvas) (simp add: plain_context_def new_context_def)

text \<open>
  C17: drawing the lines or the slices through \<^verbatim>\<open>excanvas.js\<close> never throws and leaves the stack of the context
  as high as it was.
\<close>

theorem lines_and_slices_on_excanvas:
  assumes "plain_context d"
  shows "(\<exists>d'. run_calls v ms mc (new_calls (renderLineChart inherited) c) d = Some (Inr (), d') \<and>
      length (aStack d') = length (aStack d)) \<and>
    (\<exists>d'. run_calls v ms mc (new_calls renderPieChart c) d = Some (Inr (), d') \<and>
      length (aStack d') = length (aStack d))"
proof -
  obtain ks where l: "renderLineChart inherited = (\<lambda>c. cx (ks c) c)" "\<And>c. saved (ks c) = 0" "\<And>n c. nested n (ks c)"
    using line_calls by blast
  obtain ls where p: "renderPieChart = (\<lambda>c. cx (ls c) c)" "\<And>c. saved (ls c) = 0" "\<And>n c. nested n (ls c)"
    using pie_calls by blast
  show ?thesis
    using calls_run [where m = "renderLineChart inherited" and c = c, OF assms fun_cong [OF l(1)] l(3), of 0]
      calls_run [where m = renderPieChart and c = c, OF assms fun_cong [OF p(1)] p(3), of 0]
    by (simp add: l(2) p(2))
qed

theorem lines_and_slices_on_excanvas_witness:
  "(\<exists>d'. run_calls Old (\<lambda>x. x) (\<lambda>x. x) (new_calls (renderLineChart []) (sample_chart Line)) new_context = Some (Inr (), d') \<and>
      length (aStack d') = length (aStack new_context)) \<and>
    (\<exists>d'. run_calls Old (\<lambda>x. x) (\<lambda>x. x) (new_calls renderPieChart (sample_chart Line)) new_context = Some (Inr (), d') \<and>
      length (aStack d') = length (aStack new_context))"
  by (rule lines_and_slices_on_excanvas) (simp add: plain_context_def new_context_def)

end
