(* ===== verification/Spec2Isabelle.thy ===== *)
theory Spec2Isabelle
  imports Prototype_Array Selector_XPath Prototype_Event Prototype_Position Plotr_Excanvas
begin

text \<open>
  A verification library for the JavaScript that dbslayer serves to browsers, the files under
  \<^verbatim>\<open>src/htdocs/\<close>: the library \<^verbatim>\<open>prototype.js\<close>, the charts of \<^verbatim>\<open>plotr/\<close>, and \<^verbatim>\<open>excanvas.js\<close>, which gives
  Internet Explorer a canvas.  A page asks the server for rows through \<^verbatim>\<open>Ajax.Request\<close>, puts the
  numbers into a chart, and the chart draws them on a canvas, or on the VML that excanvas
  makes of it.

  \<^bold>\<open>How the parts depend on each other.\<close>  Everything rests on Enumerable, arrays, strings and hashes of
  \<^verbatim>\<open>prototype.js\<close>.  Hashes write and read query strings; requests send them in the address
  or the body; forms are serialised into them.  A chart mixes \<^verbatim>\<open>Plotr.Canvas\<close> and \<^verbatim>\<open>Plotr.Chart\<close> into one of
  BarChart, LineChart and PieChart; all use the colours and lists of \<^verbatim>\<open>Plotr.Base\<close>.  Drawing is a
  sequence of calls on the context of a canvas, and excanvas is an implementation of such a context.

  \<^bold>\<open>The language.\<close>
  \<^item> \<open>Prelude\<close>: lemmas on lists and maps that several theories use.
  \<^item> \<open>JS_Number\<close>: numbers of the language as rationals that are rounded to double precision, with the infinities and
    NaN; \<^verbatim>\<open>Math\<close>, 32-bit operations.  There is no negative zero.
  \<^item> \<open>JS_String\<close>: texts as lists of code units below 256, printing and reading of numbers.
  \<^item> \<open>JS_Value\<close>: values, operators and conversions, objects as association lists in the order of insertion,
    and computations with a state that may throw.
  \<^item> \<open>JS_Regex\<close>: regular expressions with captures, as the list of all ways to match in the order of the backtracking
    search.
  \<^item> \<open>JS_RegExp\<close>: \<^verbatim>\<open>new RegExp(source)\<close>, a reader of the patterns that are made of texts at run time, with the exceptions it
    throws; it does not read character classes, counted quantifiers, look-ahead and references to groups, for which its result is
    \<open>None\<close>.
  \<^item> \<open>JS_Prog\<close>: computations with a state that may throw or not return, and two rules systems
    for what they keep and that they end.

  \<^bold>\<open>\<^verbatim>\<open>prototype.js\<close>.\<close>
  \<^item> \<open>Enumerable\<close>: the methods of Enumerable, over an arbitrary \<^verbatim>\<open>_each\<close>, with \<^verbatim>\<open>$break\<close> as an exception.  The locales
    \<open>iterable\<close> and \<open>enumerable\<close> state what \<^verbatim>\<open>_each\<close> has to do and prove what the methods return; they are
    interpreted on arrays, ranges, hashes and class names.
  \<^item> \<open>Prototype_Array\<close>: arrays, numbers and ranges.  \<^verbatim>\<open>eachSlice\<close> and \<^verbatim>\<open>inGroupsOf\<close> make the groups they
    promise, \<^verbatim>\<open>sortBy\<close> sorts with every built-in sort that keeps the promise of the standard, which is a parameter, \<^verbatim>\<open>times\<close> counts.
  \<^item> \<open>Prototype_String\<close>: the methods of String and templates.  JSON texts read back, \<^verbatim>\<open>strip\<close> trims,
    \<^verbatim>\<open>gsub\<close> returns, except for patterns that match the empty text.
  \<^item> \<open>Prototype_Hash\<close>: hashes and query strings, with the percent encoding of UTF-8: reading a written query string gives
    the hash back.
  \<^item> \<open>Prototype_Ajax\<close>: timers, responders, requests with their transport, updaters.  The state is one record for the
    page; requests run interleaved as an inductive step relation, with the count of active
    requests as its invariant.
  \<^item> \<open>Prototype_Form\<close>: class names refine lists of names, as far as they have no characters that are special in patterns; forms
    collect their fields and read back; observers with a timer report every change.
  \<^item> \<open>Prototype_Element\<close>: the document as the list of its nodes, and the traversal methods of elements.  The locale \<open>linked\<close> is what
    \<^verbatim>\<open>recursivelyCollect\<close> relies on; it is interpreted on parents and on siblings in both directions.
  \<^item> \<open>Prototype_Selector\<close>: the class Selector with the handlers for browsers without XPath.  The criteria of a selector are data, and the marks on nodes are
    the state.  A small language of selectors has a meaning of its own, \<open>css_matches\<close>, and running the criteria finds
    exactly what it says.
  \<^item> \<open>Selector_Text\<close>: the patterns read the text of such a selector back, so that \<^verbatim>\<open>findElements\<close> and \<^verbatim>\<open>up\<close> refine that meaning; what
    \<^verbatim>\<open>nth\<close> counts, and what some handlers do not do.
  \<^item> \<open>Selector_XPath\<close>: the translation of selectors to XPath.  A reader of paths and their meaning are defined apart from the translation; for the same
    selectors, the text it writes is read as a path that selects what the handlers find.
  \<^item> \<open>Prototype_Style\<close>: inline styles, dimensions, clipping and the insertion of markup.  What the browser keeps of a value of the user is a parameter.  What is kept reads back, what is changed for a moment is
    restored, and where insertions put their fragments.
  \<^item> \<open>Prototype_Event\<close>: observers with their cache, as the states that sequences of calls reach; leaving the page removes every listener, unless
    \<^verbatim>\<open>detachEvent\<close> throws.
  \<^item> \<open>Prototype_Position\<close>: offsets as one loop over a linked chain of nodes, points within elements, and elements made
    absolute and relative again.

  \<^bold>\<open>\<^verbatim>\<open>plotr/\<close>.\<close>
  \<^item> \<open>Plotr_Base\<close>: lists and colours.  Colours read back, colour schemes have the requested size and
    well formed colours.
  \<^item> \<open>Plotr_Chart\<close>: the record of a chart with its options, data, measures and ticks, and the calls it made on
    the drawing context.
  \<^item> \<open>Plotr_Canvas\<close>: set-up, the wait for VML, background and axes.  The locale \<open>renderer\<close> is the contract of the body of a
    \<^verbatim>\<open>render\<close>; from it follow that \<^verbatim>\<open>render\<close>, which calls itself for queued elements, ends and what it leaves of the queue.
    Each kind of chart interprets it.
  \<^item> \<open>Plotr_Bar\<close>, \<open>Plotr_Line\<close>, \<open>Plotr_Pie\<close>: evaluation and drawing of the three kinds.  Line charts keep every
    point inside the unit square, slices cover the circle without gap, drawing leaves the stack of the
    context as it was, except for the bars below a pixel.

  \<^bold>\<open>\<^verbatim>\<open>excanvas.js\<close>.\<close>
  \<^item> \<open>Excanvas\<close>: the context with its stacks, transformations and paths, and the VML text it
    inserts; the functions in which the two copies of the file differ are modelled for both.  The reachable contexts are an inductive
    predicate with an invariant.
  \<^item> \<open>Plotr_Excanvas\<close>: the calls of the charts run on this context: no call throws, and the stacks end as the
    charts leave them.

  \<^bold>\<open>Bounds.\<close>  All loops of the model are recursive functions with a termination proof, except those that may run for ever in the
  code: \<^verbatim>\<open>gsub\<close>, \<^verbatim>\<open>eachSlice\<close>, ranges and \<^verbatim>\<open>render\<close> are partial functions with the value \<open>None\<close> for not returning, and it is proved when
  they return.  Counts of calls and sizes are exact as numbers of the language up to
  \<open>2 ^ 53\<close>, which theorems about them assume.  Printing a number tries up to 1100 digits, more than
  any double has.  A selector in \<^verbatim>\<open>:not(...)\<close> is compiled in turn: the length of the expression bounds the nesting, which is proved to be
  enough for finding elements and for the translation to XPath.  The loops over offset parents are partial functions too; they
  return when an offset parent is an ancestor.

  \<^bold>\<open>Conventions.\<close>  A function that the user passes is a function of the model with a state of its own,
  which may throw.  What a browser gives is a parameter: sine and cosine, the properties that objects and arrays
  inherit, the sort of arrays, the transport of a request, the nodes of the document with their computed styles, sizes and listeners.  \<open>Inl\<close> is an exception.  References carry an
  address and their contents at the time they are read.  Functions of the user called by requests do not make requests and do not change the
  list of responders.  The loop over the points of a line also visits the methods that arrays inherit; their
  property \<^verbatim>\<open>name\<close> is taken not to be the name of a dataset.

  \<^bold>\<open>Not modelled.\<close>  Functions that run text as a program (\<^verbatim>\<open>evalJSON\<close>, \<^verbatim>\<open>evalScripts\<close>); closures and classes
  (\<^verbatim>\<open>bind\<close>, \<^verbatim>\<open>Class.create\<close>); the evaluation of XPath and the cache of compiled
  selectors; the copying of methods to the prototypes of the browser (\<^verbatim>\<open>Element.extend\<close>, \<^verbatim>\<open>addMethods\<close>); the methods that only hand markup
  to the browser, and those of Internet Explorer for opacity and tables; the start-up of excanvas, which waits for the document; \<^verbatim>\<open>Plotr.js\<close> and
  \<^verbatim>\<open>Plotr_uncompressed.js\<close>, which are copies of the files of \<^verbatim>\<open>plotr/\<close>; and the server, which is C code.
\<close>

end
